(* ===== verification/Prelude.thy ===== *)
theory Prelude
  imports Main "HOL-Library.Word"
begin

text \<open>
  Shared vocabulary of the development: the fixed-width integer types of the C sources, the C
  operators whose meaning differs from HOL's, lemma collections, and the list and word facts the
  component theories use.  The emulator is written in C with \<^verbatim>\<open>stdint.h\<close> types, so a
  \<^verbatim>\<open>uint32_t\<close> is a \<^typ>\<open>32 word\<close> and its arithmetic wraps; a C \<^verbatim>\<open>int\<close> that only counts
  small quantities is an \<^typ>\<open>int\<close>.  An array that the code indexes with a run-time index checked
  nowhere is a list; a fixed array that is indexed by a thread, core or register number is a
  function from that number.
\<close>

unbundle bit_operations_syntax

type_synonym u8 = "8 word"
type_synonym u16 = "16 word"
type_synonym u32 = "32 word"
type_synonym u64 = "64 word"

named_theorems wf_intros \<open>preservation of well-formedness invariants\<close>
named_theorems frame_simps \<open>state components an operation leaves alone\<close>

section \<open>C operators\<close>

text \<open>The C remainder truncates towards zero; on the non-negative operands the sources use it
  agrees with \<^const>\<open>modulo\<close>.\<close>

definition c_rem :: "int \<Rightarrow> int \<Rightarrow> int" where
  "c_rem a b = sgn a * (\<bar>a\<bar> mod \<bar>b\<bar>)"

lemma c_rem_nonneg [simp]: "0 \<le> a \<Longrightarrow> 0 \<le> b \<Longrightarrow> c_rem a b = a mod b"
  by (cases "a = 0") (auto simp: c_rem_def)

text \<open>A bit mask test \<^verbatim>\<open>x & (1 << i)\<close> used as a truth value.\<close>

definition tst :: "'a::len word \<Rightarrow> nat \<Rightarrow> bool" where
  "tst x i = (x AND push_bit i 1 \<noteq> 0)"

lemma tst_bit: "tst x i = bit x i"
  for x :: "'a::len word"
proof
  assume "tst x i"
  then obtain n where "bit (x AND push_bit i 1) n"
    unfolding tst_def by (metis bit_eq_iff bit_0_eq bot_apply bot_bool_def)
  then show "bit x i"
    by (auto simp: bit_simps split: if_splits)
next
  assume "bit x i"
  then have "bit (x AND push_bit i 1) i"
    by (auto simp: bit_simps dest: bit_imp_le_length)
  then show "tst x i"
    unfolding tst_def by (metis bit_0_eq bot_apply bot_bool_def)
qed

text \<open>The field \<^verbatim>\<open>(x >> s) & m\<close>.\<close>

definition fld :: "'a::len word \<Rightarrow> nat \<Rightarrow> 'a word \<Rightarrow> 'a word" where
  "fld x s m = drop_bit s x AND m"

lemma word_and_less_mask:
  "x AND mask n < 2 ^ n" if "n < LENGTH('a)" for x :: "'a::len word"
  using that by (simp add: and_mask_less_size word_size)

lemma fld_mask: "fld x s (mask n) < 2 ^ n" if "n < LENGTH('a)" for x :: "'a::len word"
  unfolding fld_def using that by (rule word_and_less_mask)

lemma bit_high: "LENGTH('a) \<le> n \<Longrightarrow> \<not> bit x n" for x :: "'a::len word"
  by (auto dest: bit_imp_le_length)

text \<open>A literal with one contiguous run of ones, read bit by bit.\<close>

lemma bit_run:
  fixes x :: "'a::len word"
  assumes "x = (2 ^ m - 1) * 2 ^ k" and "k + m \<le> LENGTH('a)"
  shows "bit x n \<longleftrightarrow> k \<le> n \<and> n < k + m"
proof -
  have "x = push_bit k (mask m)"
    using assms(1) by (simp add: push_bit_eq_mult mask_eq_exp_minus_1)
  then show ?thesis using assms(2) by (auto simp: bit_simps)
qed

lemma unat_ucast_up:
  fixes x :: "'a::len word"
  assumes "LENGTH('a) \<le> LENGTH('b)"
  shows "unat (ucast x :: 'b::len word) = unat x"
proof -
  have "unat x < 2 ^ LENGTH('b)"
    by (rule less_le_trans[OF unsigned_less power_increasing[OF assms]]) simp
  then show ?thesis
    by (simp add: unsigned_ucast_eq take_bit_nat_eq_self)
qed

text \<open>Equality of two words read off their bits one by one.\<close>

lemma u32_eqI:
  fixes x y :: u32
  assumes "list_all (\<lambda>n. bit x n = bit y n) [0, 1, 2, 3, 4, 5, 6, 7, 8, 9, 10, 11, 12, 13, 14, 15, 16, 17,
    18, 19, 20, 21, 22, 23, 24, 25, 26, 27, 28, 29, 30, 31]"
  shows "x = y"
proof (rule bit_word_eqI)
  fix n assume "n < LENGTH(32)"
  then have "n \<in> set [0..<32]" by simp
  also have "[0..<32] = [0, 1, 2, 3, 4, 5, 6, 7, 8, 9, 10, 11, 12, 13, 14, 15, 16, 17,
    18, 19, 20, 21, 22, 23, 24, 25, 26, 27, 28, 29, 30, 31]" by (simp add: upt_rec)
  finally show "bit x n = bit y n" using assms unfolding list_all_iff by blast
qed

text \<open>Counting upwards below a bound does not wrap.\<close>

lemma unat_Suc_less: "unat x < n \<Longrightarrow> n < 2 ^ LENGTH('a) \<Longrightarrow> unat (x + 1) = Suc (unat x)"
  for x :: "'a::len word"
  by (simp add: unat_word_ariths)

lemma unat_Suc_less_word: "x < y \<Longrightarrow> unat (x + 1) = Suc (unat x)"
  for x y :: "'a::len word"
  by (rule unat_Suc_less[of _ "unat y"]) (simp_all add: word_less_nat_alt)

section \<open>Ring buffers\<close>

text \<open>The contents of a ring buffer: \<^term>\<open>n\<close> elements of the array \<^term>\<open>b\<close> starting at index
  \<^term>\<open>h\<close> and wrapping at its length.\<close>

definition ring :: "'a list \<Rightarrow> nat \<Rightarrow> nat \<Rightarrow> 'a list" where
  "ring b h n = map (\<lambda>i. b ! ((h + i) mod length b)) [0..<n]"

lemma length_ring [simp]: "length (ring b h n) = n"
  by (simp add: ring_def)

lemma ring_0 [simp]: "ring b h 0 = []"
  by (simp add: ring_def)

lemma ring_eq_Nil [simp]: "ring b h n = [] \<longleftrightarrow> n = 0"
  by (simp add: ring_def)

lemma ring_pop:
  "h < length b \<Longrightarrow> ring b h (Suc n) = b ! h # ring b (Suc h mod length b) n"
  by (rule nth_equalityI)
    (auto simp: ring_def nth_Cons mod_simps simp del: upt_Suc split: nat.splits)

lemma mod_add_inj:
  fixes h i j n :: nat
  assumes "(h + i) mod n = (h + j) mod n" "i < n" "j < n"
  shows "i = j"
proof -
  have "int n dvd int i - int j"
    using assms(1) by (metis add_diff_cancel_left mod_eq_dvd_iff of_nat_add of_nat_mod)
  then show ?thesis
    using assms(2,3) zdvd_imp_le[of "int n" "int i - int j"] zdvd_imp_le[of "int n" "int j - int i"]
    by (cases i j rule: linorder_cases) (auto simp: dvd_diff_commute)
qed

lemma ring_push:
  assumes "n < length b"
  shows "ring (b[(h + n) mod length b := x]) h (Suc n) = ring b h n @ [x]"
proof -
  have "b[(h + n) mod length b := x] ! ((h + i) mod length b) = b ! ((h + i) mod length b)"
    if "i < n" for i
    using that assms mod_add_inj[of h i "length b" n] by (subst nth_list_update_neq) auto
  moreover have "0 < length b" using assms by linarith
  ultimately show ?thesis
    by (simp add: ring_def)
qed

end
