(* ===== verification/Rv_Insn.thy ===== *)
theory Rv_Insn
  imports Prelude
begin

text \<open>
  Instructions of the RISC-V core: the build-time features of \<^verbatim>\<open>feature.h\<close>, the opcode list of
  \<^verbatim>\<open>decode.h\<close> and the intermediate representation \<^verbatim>\<open>rv_insn_t\<close> the decoder fills in.

  \<^verbatim>\<open>RV_INSN_LIST\<close> is one enumeration; here it is the sum of one datatype per section of that list
  (the sections are the comments of the source), so that the constructors keep the names of the
  enumerators.  The union of \<^verbatim>\<open>imm\<close> and \<^verbatim>\<open>rs3\<close> is one field, of which \<^verbatim>\<open>rs3\<close> is the low byte, as on
  the little-endian hosts the emulator runs on.
\<close>

section \<open>Build-time features\<close>

record features =
  EXT_M :: bool
  EXT_A :: bool
  EXT_F :: bool
  EXT_C :: bool
  EXT_TT :: bool
  RV32E :: bool
  Zicsr :: bool
  Zifencei :: bool
  Zba :: bool
  Zbb :: bool
  Zbc :: bool
  Zbs :: bool
  SYSTEM :: bool

definition default_features :: features where
  "default_features = \<lparr>EXT_M = True, EXT_A = True, EXT_F = True, EXT_C = True, EXT_TT = True,
     RV32E = False, Zicsr = True, Zifencei = True, Zba = True, Zbb = True, Zbc = True, Zbs = True,
     SYSTEM = False\<rparr>"

text \<open>The build without the Tensix extension, in which 16-bit instructions are decoded.\<close>

definition rvc_features :: features where
  "rvc_features = default_features\<lparr>EXT_TT := False\<rparr>"

section \<open>Opcodes\<close>

datatype rv_base =
    rv_insn_nop | rv_insn_lui | rv_insn_auipc | rv_insn_jal | rv_insn_jalr | rv_insn_beq
    | rv_insn_bne | rv_insn_blt | rv_insn_bge | rv_insn_bltu | rv_insn_bgeu | rv_insn_lb
    | rv_insn_lh | rv_insn_lw | rv_insn_lbu | rv_insn_lhu | rv_insn_sb | rv_insn_sh
    | rv_insn_sw | rv_insn_addi | rv_insn_slti | rv_insn_sltiu | rv_insn_xori | rv_insn_ori
    | rv_insn_andi | rv_insn_slli | rv_insn_srli | rv_insn_srai | rv_insn_add | rv_insn_sub
    | rv_insn_sll | rv_insn_slt | rv_insn_sltu | rv_insn_xor | rv_insn_srl | rv_insn_sra
    | rv_insn_or | rv_insn_and | rv_insn_fence | rv_insn_ecall | rv_insn_ebreak

datatype rv_priv =
    rv_insn_wfi | rv_insn_uret | rv_insn_sret | rv_insn_hret | rv_insn_mret
    | rv_insn_sfencevma

datatype rv_zi =
    rv_insn_fencei | rv_insn_csrrw | rv_insn_csrrs | rv_insn_csrrc | rv_insn_csrrwi
    | rv_insn_csrrsi | rv_insn_csrrci

datatype rv_zb =
    rv_insn_sh1add | rv_insn_sh2add | rv_insn_sh3add | rv_insn_andn | rv_insn_orn
    | rv_insn_xnor | rv_insn_clz | rv_insn_ctz | rv_insn_cpop | rv_insn_max | rv_insn_maxu
    | rv_insn_min | rv_insn_minu | rv_insn_sextb | rv_insn_sexth | rv_insn_zexth
    | rv_insn_rol | rv_insn_ror | rv_insn_rori | rv_insn_orcb | rv_insn_rev8 | rv_insn_clmul
    | rv_insn_clmulh | rv_insn_clmulr | rv_insn_bclr | rv_insn_bclri | rv_insn_bext
    | rv_insn_bexti | rv_insn_binv | rv_insn_binvi | rv_insn_bset | rv_insn_bseti

datatype rv_m =
    rv_insn_mul | rv_insn_mulh | rv_insn_mulhsu | rv_insn_mulhu | rv_insn_div | rv_insn_divu
    | rv_insn_rem | rv_insn_remu

datatype rv_a =
    rv_insn_lrw | rv_insn_scw | rv_insn_amoswapw | rv_insn_amoaddw | rv_insn_amoxorw
    | rv_insn_amoandw | rv_insn_amoorw | rv_insn_amominw | rv_insn_amomaxw | rv_insn_amominuw
    | rv_insn_amomaxuw

datatype rv_f =
    rv_insn_flw | rv_insn_fsw | rv_insn_fmadds | rv_insn_fmsubs | rv_insn_fnmsubs
    | rv_insn_fnmadds | rv_insn_fadds | rv_insn_fsubs | rv_insn_fmuls | rv_insn_fdivs
    | rv_insn_fsqrts | rv_insn_fsgnjs | rv_insn_fsgnjns | rv_insn_fsgnjxs | rv_insn_fmins
    | rv_insn_fmaxs | rv_insn_fcvtws | rv_insn_fcvtwus | rv_insn_fmvxw | rv_insn_feqs
    | rv_insn_flts | rv_insn_fles | rv_insn_fclasss | rv_insn_fcvtsw | rv_insn_fcvtswu
    | rv_insn_fmvwx

datatype rv_c =
    rv_insn_caddi4spn | rv_insn_clw | rv_insn_csw | rv_insn_cnop | rv_insn_caddi
    | rv_insn_cjal | rv_insn_cli | rv_insn_caddi16sp | rv_insn_clui | rv_insn_csrli
    | rv_insn_csrai | rv_insn_candi | rv_insn_csub | rv_insn_cxor | rv_insn_cor
    | rv_insn_cand | rv_insn_cj | rv_insn_cbeqz | rv_insn_cbnez | rv_insn_cslli
    | rv_insn_clwsp | rv_insn_cjr | rv_insn_cmv | rv_insn_cebreak | rv_insn_cjalr
    | rv_insn_cadd | rv_insn_cswsp | rv_insn_cflwsp | rv_insn_cfswsp | rv_insn_cflw
    | rv_insn_cfsw

datatype rv_fuse =
    rv_insn_fuse1 | rv_insn_fuse2 | rv_insn_fuse3 | rv_insn_fuse4 | rv_insn_fuse5

datatype rv_opcode =
    Base rv_base | Priv rv_priv | Zi rv_zi | Zb rv_zb | RvM rv_m | RvA rv_a | RvF rv_f | RvC rv_c
    | rv_insn_ttinsn | Fused rv_fuse

text \<open>The second column of the list: instructions that end a basic block.\<close>

definition insn_is_branch :: "rv_opcode \<Rightarrow> bool" where
  "insn_is_branch op = (case op of
     Base b \<Rightarrow> b \<in> {rv_insn_jal, rv_insn_jalr, rv_insn_beq, rv_insn_bne, rv_insn_blt, rv_insn_bge,
                  rv_insn_bltu, rv_insn_bgeu, rv_insn_fence, rv_insn_ecall, rv_insn_ebreak}
   | Priv p \<Rightarrow> p \<in> {rv_insn_sret, rv_insn_mret, rv_insn_sfencevma}
   | Zi z \<Rightarrow> z \<in> {rv_insn_fencei, rv_insn_csrrw}
   | RvC c \<Rightarrow> c \<in> {rv_insn_cjal, rv_insn_cj, rv_insn_cbeqz, rv_insn_cbnez, rv_insn_cjr,
                 rv_insn_cebreak, rv_insn_cjalr}
   | _ \<Rightarrow> False)"

text \<open>The third column: the number of bytes the program counter advances by.\<close>

definition insn_len :: "rv_opcode \<Rightarrow> u32" where
  "insn_len op = (case op of RvC _ \<Rightarrow> 2 | _ \<Rightarrow> 4)"

definition insn_is_unconditional_branch :: "rv_opcode \<Rightarrow> bool" where
  "insn_is_unconditional_branch op = (case op of
     Base b \<Rightarrow> b \<in> {rv_insn_ecall, rv_insn_ebreak, rv_insn_jal, rv_insn_jalr}
   | Priv p \<Rightarrow> p = rv_insn_mret
   | Zi z \<Rightarrow> z = rv_insn_csrrw
   | RvC c \<Rightarrow> c \<in> {rv_insn_cj, rv_insn_cjalr, rv_insn_cjal, rv_insn_cjr, rv_insn_cebreak}
   | _ \<Rightarrow> False)"

definition insn_is_direct_branch :: "rv_opcode \<Rightarrow> bool" where
  "insn_is_direct_branch op = (op \<in> {Base rv_insn_jal, RvC rv_insn_cjal, RvC rv_insn_cj})"

definition insn_is_indirect_branch :: "rv_opcode \<Rightarrow> bool" where
  "insn_is_indirect_branch op = (op \<in> {Base rv_insn_jalr, RvC rv_insn_cjalr, RvC rv_insn_cjr})"

section \<open>The intermediate representation\<close>

record opcode_fuse_t =
  f_imm :: u32
  f_rd :: u8
  f_rs1 :: u8
  f_rs2 :: u8
  f_opcode :: rv_opcode

text \<open>The node type \<^verbatim>\<open>rv_insn_t\<close>.  Its function pointer \<^verbatim>\<open>impl\<close> is always the dispatch table's entry for the
  opcode, except that block translation makes it \<^verbatim>\<open>do_lw_mailbox\<close> for a load it recognises as a mailbox
  read, which \<^verbatim>\<open>i_mailbox\<close> records.  The links to other nodes are kept by the block.\<close>

record rv_insn =
  i_imm :: u32
  i_rd :: u8
  i_rs1 :: u8
  i_rs2 :: u8
  i_opcode :: rv_opcode
  i_shamt :: u8
  i_rm :: u8
  i_imm2 :: u32
  i_fuse :: "opcode_fuse_t list"
  i_pc :: u32
  i_mailbox :: bool

definition i_rs3 :: "rv_insn \<Rightarrow> u8" where
  "i_rs3 ir = ucast (i_imm ir)"

definition set_rs3 :: "u8 \<Rightarrow> rv_insn \<Rightarrow> rv_insn" where
  "set_rs3 v ir = ir\<lparr>i_imm := (i_imm ir AND NOT 0xFF) OR ucast v\<rparr>"

lemma rs3_set_rs3 [simp]: "i_rs3 (set_rs3 v ir) = v"
proof -
  have "bit (0xFF :: u32) n \<longleftrightarrow> n < 8" for n
    by (subst bit_run[where k = 0 and m = 8]) auto
  then have "bit ((i_imm ir AND NOT 0xFF) OR ucast v) n = bit v n" if "n < 8" for n
    using that by (auto simp: bit_simps)
  then show ?thesis
    by (intro bit_word_eqI) (simp add: i_rs3_def set_rs3_def bit_ucast_iff)
qed

text \<open>A freshly allocated node is zeroed, and zero is the first enumerator.\<close>

definition zero_insn :: rv_insn where
  "zero_insn = \<lparr>i_imm = 0, i_rd = 0, i_rs1 = 0, i_rs2 = 0, i_opcode = Base rv_insn_nop, i_shamt = 0,
     i_rm = 0, i_imm2 = 0, i_fuse = [], i_pc = 0,
     i_mailbox = False\<rparr>"

text \<open>The register numbers of an instruction are in the register file.\<close>

definition regs_ok :: "rv_insn \<Rightarrow> bool" where
  "regs_ok ir = (i_rd ir < 32 \<and> i_rs1 ir < 32 \<and> i_rs2 ir < 32)"

lemma regs_ok_zero [simp]: "regs_ok zero_insn"
  by (simp add: regs_ok_def zero_insn_def)

end
