(* ===== verification/Decode.thy ===== *)
theory Decode
  imports Rv_Insn
begin

text \<open>
  The instruction decoder \<^verbatim>\<open>decode.c\<close>: the field and immediate decoders, one function
  \<^verbatim>\<open>op_...\<close> per entry of the two jump tables, and \<^verbatim>\<open>rv_decode\<close>.  A decoder updates the node it is
  given and returns whether the instruction is legal; on an illegal instruction the fields written so
  far stay written.  \<^const>\<open>None\<close> is a failed \<^verbatim>\<open>assert\<close> (the reserved and RV64 encodings of the
  compressed arithmetic group).  The theorems show that the register numbers of every accepted
  instruction index the register file, that decoding inverts the encodings of the instruction-set
  manual for every instruction format, and that instruction groups are only produced when their
  feature is built in.
\<close>

section \<open>Masks of the instruction fields\<close>

definition INSN_6_2 :: u32 where "INSN_6_2 = 0x7C"
definition FR_RD :: u32 where "FR_RD = 0xF80"
definition FR_FUNCT3 :: u32 where "FR_FUNCT3 = 0x7000"
definition FR_RS1 :: u32 where "FR_RS1 = 0xF8000"
definition FR_RS2 :: u32 where "FR_RS2 = 0x1F00000"
definition FR_FUNCT7 :: u32 where "FR_FUNCT7 = 0xFE000000"
definition FI_IMM_11_0 :: u32 where "FI_IMM_11_0 = 0xFFF00000"
definition FS_IMM_4_0 :: u32 where "FS_IMM_4_0 = 0xF80"
definition FS_IMM_11_5 :: u32 where "FS_IMM_11_5 = 0xFE000000"
definition FB_IMM_11 :: u32 where "FB_IMM_11 = 0x80"
definition FB_IMM_4_1 :: u32 where "FB_IMM_4_1 = 0xF00"
definition FB_IMM_10_5 :: u32 where "FB_IMM_10_5 = 0x7E000000"
definition FB_IMM_12 :: u32 where "FB_IMM_12 = 0x80000000"
definition FU_IMM_31_12 :: u32 where "FU_IMM_31_12 = 0xFFFFF000"
definition FJ_IMM_19_12 :: u32 where "FJ_IMM_19_12 = 0xFF000"
definition FJ_IMM_11 :: u32 where "FJ_IMM_11 = 0x100000"
definition FJ_IMM_10_1 :: u32 where "FJ_IMM_10_1 = 0x7FE00000"
definition FJ_IMM_20 :: u32 where "FJ_IMM_20 = 0x80000000"
definition FR4_RS3 :: u32 where "FR4_RS3 = 0xF8000000"
definition FC_OPCODE :: u32 where "FC_OPCODE = 0x3"
definition FC_FUNC3 :: u32 where "FC_FUNC3 = 0xE000"

lemmas masks = INSN_6_2_def FR_RD_def FR_FUNCT3_def FR_RS1_def FR_RS2_def FR_FUNCT7_def
  FI_IMM_11_0_def FS_IMM_4_0_def FS_IMM_11_5_def FB_IMM_11_def FB_IMM_4_1_def FB_IMM_10_5_def
  FB_IMM_12_def FU_IMM_31_12_def FJ_IMM_19_12_def FJ_IMM_11_def FJ_IMM_10_1_def FJ_IMM_20_def
  FR4_RS3_def FC_OPCODE_def FC_FUNC3_def

section \<open>Fields and immediates of 32-bit instructions\<close>

definition decode_rd :: "u32 \<Rightarrow> u32" where
  "decode_rd insn = drop_bit 7 (insn AND FR_RD)"

definition decode_rs1 :: "u32 \<Rightarrow> u32" where
  "decode_rs1 insn = drop_bit 15 (insn AND FR_RS1)"

definition decode_rs2 :: "u32 \<Rightarrow> u32" where
  "decode_rs2 insn = drop_bit 20 (insn AND FR_RS2)"

definition decode_funct3 :: "u32 \<Rightarrow> u32" where
  "decode_funct3 insn = drop_bit 12 (insn AND FR_FUNCT3)"

definition decode_funct7 :: "u32 \<Rightarrow> u32" where
  "decode_funct7 insn = drop_bit 25 (insn AND FR_FUNCT7)"

definition decode_utype_imm :: "u32 \<Rightarrow> u32" where
  "decode_utype_imm insn = insn AND FU_IMM_31_12"

definition decode_jtype_imm :: "u32 \<Rightarrow> u32" where
  "decode_jtype_imm insn =
     signed_drop_bit 11
       ((insn AND FJ_IMM_20) OR push_bit 11 (insn AND FJ_IMM_19_12)
        OR push_bit 2 (insn AND FJ_IMM_11) OR drop_bit 9 (insn AND FJ_IMM_10_1))"

definition decode_itype_imm :: "u32 \<Rightarrow> u32" where
  "decode_itype_imm insn = signed_drop_bit 20 (insn AND FI_IMM_11_0)"

definition decode_btype_imm :: "u32 \<Rightarrow> u32" where
  "decode_btype_imm insn =
     signed_drop_bit 19
       ((insn AND FB_IMM_12) OR push_bit 23 (insn AND FB_IMM_11)
        OR drop_bit 1 (insn AND FB_IMM_10_5) OR push_bit 12 (insn AND FB_IMM_4_1))"

definition decode_stype_imm :: "u32 \<Rightarrow> u32" where
  "decode_stype_imm insn =
     signed_drop_bit 20 ((insn AND FS_IMM_11_5) OR push_bit 13 (insn AND FS_IMM_4_0))"

definition decode_r4type_rs3 :: "u32 \<Rightarrow> u32" where
  "decode_r4type_rs3 insn = drop_bit 27 (insn AND FR4_RS3)"

section \<open>Fields and immediates of 16-bit instructions\<close>

definition c_decode_rs1 :: "u16 \<Rightarrow> u16" where
  "c_decode_rs1 insn = drop_bit 7 (insn AND 0xF80)"

definition c_decode_rs2 :: "u16 \<Rightarrow> u16" where
  "c_decode_rs2 insn = drop_bit 2 (insn AND 0x7C)"

definition c_decode_rd :: "u16 \<Rightarrow> u16" where
  "c_decode_rd insn = drop_bit 7 (insn AND 0xF80)"

definition c_decode_rs1c :: "u16 \<Rightarrow> u16" where
  "c_decode_rs1c insn = drop_bit 7 (insn AND 0x380)"

definition c_decode_rs2c :: "u16 \<Rightarrow> u16" where
  "c_decode_rs2c insn = drop_bit 2 (insn AND 0x1C)"

definition c_decode_rdc :: "u16 \<Rightarrow> u16" where
  "c_decode_rdc insn = drop_bit 2 (insn AND 0x1C)"

definition c_decode_caddi4spn_nzuimm :: "u16 \<Rightarrow> u16" where
  "c_decode_caddi4spn_nzuimm insn =
     drop_bit 7 (insn AND 0x1800) OR drop_bit 1 (insn AND 0x780)
     OR drop_bit 4 (insn AND 0x40) OR drop_bit 2 (insn AND 0x20)"

definition c_decode_caddi16sp_nzimm :: "u16 \<Rightarrow> u32" where
  "c_decode_caddi16sp_nzimm insn =
     (let i = ucast insn;
          tmp = drop_bit 3 (i AND 0x1000) OR drop_bit 2 (i AND 0x40) OR push_bit 1 (i AND 0x20)
                OR push_bit 4 (i AND 0x18) OR push_bit 3 (i AND 0x4)
      in if tmp AND 0x200 \<noteq> 0 then 0xFFFFFC00 OR tmp else tmp)"

definition c_decode_clui_nzimm :: "u16 \<Rightarrow> u32" where
  "c_decode_clui_nzimm insn =
     (let i = ucast insn; tmp = push_bit 5 (i AND 0x1000) OR push_bit 10 (i AND 0x7C)
      in if tmp AND 0x20000 \<noteq> 0 then 0xFFFC0000 OR tmp else tmp)"

definition sign_extend_h :: "u32 \<Rightarrow> u32" where
  "sign_extend_h x = scast (ucast x :: u16)"

definition sign_extend_b :: "u32 \<Rightarrow> u32" where
  "sign_extend_b x = scast (ucast x :: u8)"

text \<open>The loop \<^verbatim>\<open>for (i = 0; i <= 10; ++i) tmp |= mask >> i\<close> is a fold over its index.\<close>

definition c_decode_caddi_imm :: "u16 \<Rightarrow> u32" where
  "c_decode_caddi_imm insn =
     (let m = push_bit 3 (0x1000 AND insn);
          tmp = fold (\<lambda>i t. t OR ucast (drop_bit i m)) [0..<11] (0 :: u32)
      in sign_extend_h (tmp OR ucast (drop_bit 2 (insn AND 0x7C))))"

definition c_decode_citype_imm :: "u16 \<Rightarrow> u32" where
  "c_decode_citype_imm insn =
     (let tmp = ucast (drop_bit 7 (insn AND 0x1000) OR drop_bit 2 (insn AND 0x7C))
      in if tmp AND 0x20 \<noteq> 0 then 0xFFFFFFC0 OR tmp else tmp)"

definition c_decode_cjtype_imm :: "u16 \<Rightarrow> u32" where
  "c_decode_cjtype_imm insn =
     (let tmp = drop_bit 2 (insn AND 0x38) OR drop_bit 7 (insn AND 0x800)
                OR push_bit 3 (insn AND 0x4) OR drop_bit 1 (insn AND 0x80)
                OR push_bit 1 (insn AND 0x40) OR drop_bit 1 (insn AND 0x600)
                OR push_bit 2 (insn AND 0x100) OR drop_bit 1 (insn AND 0x1000);
          tmp = fold (\<lambda>i t. t OR push_bit i (0x0800 AND t)) [1..<5] tmp
      in scast tmp)"

definition c_decode_cbtype_shamt :: "u16 \<Rightarrow> u8" where
  "c_decode_cbtype_shamt insn =
     ucast (drop_bit 7 (insn AND 0x1000)) OR ucast (drop_bit 2 (insn AND 0x7C))"

definition c_decode_cbtype_imm :: "u16 \<Rightarrow> u16" where
  "c_decode_cbtype_imm insn =
     (let tmp = drop_bit 2 (insn AND 0x18) OR drop_bit 7 (insn AND 0xC00)
                OR push_bit 3 (insn AND 0x4) OR push_bit 1 (insn AND 0x60)
                OR drop_bit 4 (insn AND 0x1000)
      in fold (\<lambda>i t. t OR push_bit i (0x0100 AND t)) [1..<9] tmp)"

section \<open>Instruction formats\<close>

definition decode_itype :: "u32 \<Rightarrow> rv_insn \<Rightarrow> rv_insn" where
  "decode_itype insn ir = ir\<lparr>i_imm := decode_itype_imm insn, i_rs1 := ucast (decode_rs1 insn),
     i_rd := ucast (decode_rd insn)\<rparr>"

definition decode_utype :: "u32 \<Rightarrow> rv_insn \<Rightarrow> rv_insn" where
  "decode_utype insn ir = ir\<lparr>i_imm := decode_utype_imm insn, i_rd := ucast (decode_rd insn)\<rparr>"

definition decode_stype :: "u32 \<Rightarrow> rv_insn \<Rightarrow> rv_insn" where
  "decode_stype insn ir = ir\<lparr>i_imm := decode_stype_imm insn, i_rs2 := ucast (decode_rs2 insn),
     i_rs1 := ucast (decode_rs1 insn)\<rparr>"

definition decode_rtype :: "u32 \<Rightarrow> rv_insn \<Rightarrow> rv_insn" where
  "decode_rtype insn ir = ir\<lparr>i_rs2 := ucast (decode_rs2 insn), i_rs1 := ucast (decode_rs1 insn),
     i_rd := ucast (decode_rd insn)\<rparr>"

definition decode_btype :: "u32 \<Rightarrow> rv_insn \<Rightarrow> rv_insn" where
  "decode_btype insn ir = ir\<lparr>i_imm := decode_btype_imm insn, i_rs2 := ucast (decode_rs2 insn),
     i_rs1 := ucast (decode_rs1 insn)\<rparr>"

definition decode_jtype :: "u32 \<Rightarrow> rv_insn \<Rightarrow> rv_insn" where
  "decode_jtype insn ir = ir\<lparr>i_imm := decode_jtype_imm insn, i_rd := ucast (decode_rd insn)\<rparr>"

definition decode_r4type :: "u32 \<Rightarrow> rv_insn \<Rightarrow> rv_insn" where
  "decode_r4type insn ir = (set_rs3 (ucast (decode_r4type_rs3 insn))
     (ir\<lparr>i_rd := ucast (decode_rd insn), i_rs1 := ucast (decode_rs1 insn),
         i_rs2 := ucast (decode_rs2 insn)\<rparr>))\<lparr>i_rm := ucast (decode_funct3 insn)\<rparr>"

section \<open>The decoders of the 32-bit jump table\<close>

type_synonym decoded = "(bool \<times> rv_insn) option"
type_synonym decoder = "features \<Rightarrow> u32 \<Rightarrow> rv_insn \<Rightarrow> decoded"

definition legal :: "rv_insn \<Rightarrow> rv_opcode \<Rightarrow> decoded" where
  "legal ir op = Some (True, ir\<lparr>i_opcode := op\<rparr>)"

definition illegal :: "rv_insn \<Rightarrow> decoded" where
  "illegal ir = Some (False, ir)"

text \<open>A C \<^verbatim>\<open>switch\<close> whose arms set the opcode and whose default is an illegal instruction.\<close>

definition switch :: "('k \<times> rv_opcode) list \<Rightarrow> 'k \<Rightarrow> rv_insn \<Rightarrow> decoded" where
  "switch arms k ir = (case map_of arms k of Some op \<Rightarrow> legal ir op | None \<Rightarrow> illegal ir)"

text \<open>Arms between \<^verbatim>\<open>#if RV32_HAS(...)\<close> and \<^verbatim>\<open>#endif\<close>.\<close>

definition only_if :: "bool \<Rightarrow> 'a list \<Rightarrow> 'a list" where
  "only_if b xs = (if b then xs else [])"

definition op_load :: decoder where
  "op_load f insn ir = switch
     [(0, Base rv_insn_lb), (1, Base rv_insn_lh), (2, Base rv_insn_lw), (4, Base rv_insn_lbu),
      (5, Base rv_insn_lhu)]
     (decode_funct3 insn) (decode_itype insn ir)"

text \<open>The two shift groups of \<^verbatim>\<open>op_op_imm\<close>, with the bit-manipulation instructions that share them.\<close>

definition op_imm_slli :: "features \<Rightarrow> rv_insn \<Rightarrow> decoded" where
  "op_imm_slli f ir =
     (let imm = i_imm ir; hi = signed_drop_bit 5 imm in
      if Zbb f \<and> imm = 0x600 then legal ir (Zb rv_insn_clz)
      else if Zbb f \<and> imm = 0x601 then legal ir (Zb rv_insn_ctz)
      else if Zbb f \<and> imm = 0x602 then legal ir (Zb rv_insn_cpop)
      else if Zbb f \<and> imm = 0x604 then legal ir (Zb rv_insn_sextb)
      else if Zbb f \<and> imm = 0x605 then legal ir (Zb rv_insn_sexth)
      else if Zbs f \<and> hi = 0x24 then legal ir (Zb rv_insn_bclri)
      else if Zbs f \<and> hi = 0x34 then legal ir (Zb rv_insn_binvi)
      else if Zbs f \<and> hi = 0x14 then legal ir (Zb rv_insn_bseti)
      else if tst imm 5 then illegal (ir\<lparr>i_opcode := Base rv_insn_slli\<rparr>)
      else legal ir (Base rv_insn_slli))"

definition op_imm_srli :: "features \<Rightarrow> rv_insn \<Rightarrow> decoded" where
  "op_imm_srli f ir =
     (let imm = i_imm ir; hi = signed_drop_bit 5 imm;
          shift = if imm AND NOT 0x1F \<noteq> 0 then rv_insn_srai else rv_insn_srli in
      if Zbb f \<and> hi = 0x30 then legal ir (Zb rv_insn_rori)
      else if Zbb f \<and> imm = 0x287 then legal ir (Zb rv_insn_orcb)
      else if Zbb f \<and> imm = 0x698 then legal ir (Zb rv_insn_rev8)
      else if Zbs f \<and> hi = 0x24 then legal ir (Zb rv_insn_bexti)
      else if tst imm 5 then illegal (ir\<lparr>i_opcode := Base shift\<rparr>)
      else legal ir (Base shift))"

definition op_op_imm :: decoder where
  "op_op_imm f insn ir =
     (let ir = decode_itype insn ir; f3 = decode_funct3 insn in
      if i_rd ir = 0 then legal ir (Base rv_insn_nop)
      else if f3 = 1 then op_imm_slli f ir
      else if f3 = 5 then op_imm_srli f ir
      else switch [(0, Base rv_insn_addi), (2, Base rv_insn_slti), (3, Base rv_insn_sltiu),
             (4, Base rv_insn_xori), (6, Base rv_insn_ori), (7, Base rv_insn_andi)] f3 ir)"

definition op_auipc :: decoder where
  "op_auipc f insn ir =
     (let ir = decode_utype insn ir in
      legal ir (Base (if i_rd ir = 0 then rv_insn_nop else rv_insn_auipc)))"

definition op_store :: decoder where
  "op_store f insn ir = switch
     [(0, Base rv_insn_sb), (1, Base rv_insn_sh), (2, Base rv_insn_sw)]
     (decode_funct3 insn) (decode_stype insn ir)"

text \<open>The nested \<^verbatim>\<open>switch\<close> of \<^verbatim>\<open>op_op\<close>, keyed by funct7 and then funct3.\<close>

definition op_arms :: "features \<Rightarrow> ((u32 \<times> u32) \<times> rv_opcode) list" where
  "op_arms f =
     [((0x00, 0), Base rv_insn_add), ((0x00, 1), Base rv_insn_sll), ((0x00, 2), Base rv_insn_slt),
      ((0x00, 3), Base rv_insn_sltu), ((0x00, 4), Base rv_insn_xor), ((0x00, 5), Base rv_insn_srl),
      ((0x00, 6), Base rv_insn_or), ((0x00, 7), Base rv_insn_and)]
     @ only_if (EXT_M f)
     [((0x01, 0), RvM rv_insn_mul), ((0x01, 1), RvM rv_insn_mulh), ((0x01, 2), RvM rv_insn_mulhsu),
      ((0x01, 3), RvM rv_insn_mulhu), ((0x01, 4), RvM rv_insn_div), ((0x01, 5), RvM rv_insn_divu),
      ((0x01, 6), RvM rv_insn_rem), ((0x01, 7), RvM rv_insn_remu)]
     @ only_if (Zba f)
     [((0x10, 2), Zb rv_insn_sh1add), ((0x10, 4), Zb rv_insn_sh2add), ((0x10, 6), Zb rv_insn_sh3add)]
     @ only_if (Zbb f)
     [((0x05, 6), Zb rv_insn_max), ((0x05, 4), Zb rv_insn_min), ((0x05, 7), Zb rv_insn_maxu),
      ((0x05, 5), Zb rv_insn_minu)]
     @ only_if (Zbc f)
     [((0x05, 1), Zb rv_insn_clmul), ((0x05, 3), Zb rv_insn_clmulh), ((0x05, 2), Zb rv_insn_clmulr)]
     @ only_if (Zbb f) [((0x30, 1), Zb rv_insn_rol), ((0x30, 5), Zb rv_insn_ror)]
     @ only_if (Zbs f)
     [((0x24, 1), Zb rv_insn_bclr), ((0x24, 5), Zb rv_insn_bext), ((0x34, 1), Zb rv_insn_binv),
      ((0x14, 1), Zb rv_insn_bset)]
     @ [((0x20, 0), Base rv_insn_sub), ((0x20, 5), Base rv_insn_sra)]
     @ only_if (Zbb f)
     [((0x20, 7), Zb rv_insn_andn), ((0x20, 6), Zb rv_insn_orn), ((0x20, 4), Zb rv_insn_xnor)]"

definition op_op :: decoder where
  "op_op f insn ir =
     (let ir = decode_rtype insn ir; f7 = decode_funct7 insn in
      if i_rd ir = 0 then legal ir (Base rv_insn_nop)
      else if Zbb f \<and> f7 = 0x04
      then (if i_rs2 ir \<noteq> 0 then illegal ir else legal ir (Zb rv_insn_zexth))
      else switch (op_arms f) (f7, decode_funct3 insn) ir)"

definition op_lui :: decoder where
  "op_lui f insn ir =
     (let ir = decode_utype insn ir in
      legal ir (Base (if i_rd ir = 0 then rv_insn_nop else rv_insn_lui)))"

definition op_branch :: decoder where
  "op_branch f insn ir = switch
     [(0, Base rv_insn_beq), (1, Base rv_insn_bne), (4, Base rv_insn_blt), (5, Base rv_insn_bge),
      (6, Base rv_insn_bltu), (7, Base rv_insn_bgeu)]
     (decode_funct3 insn) (decode_btype insn ir)"

definition op_jalr :: decoder where
  "op_jalr f insn ir = legal (decode_itype insn ir) (Base rv_insn_jalr)"

definition op_jal :: decoder where
  "op_jal f insn ir = legal (decode_jtype insn ir) (Base rv_insn_jal)"

definition csr_is_writable :: "u32 \<Rightarrow> bool" where
  "csr_is_writable csr = (csr < 0xC00)"

definition op_system :: decoder where
  "op_system f insn ir =
     (let ir = decode_itype insn ir; f3 = decode_funct3 insn;
          sel = (if f3 = 0 then
                   if drop_bit 25 insn = 0x09 then Some (Priv rv_insn_sfencevma)
                   else map_of ([(0, Base rv_insn_ecall), (1, Base rv_insn_ebreak),
                          (0x105, Priv rv_insn_wfi)]
                          @ only_if (SYSTEM f) [(0x102, Priv rv_insn_sret)]
                          @ [(0x302, Priv rv_insn_mret)]) (i_imm ir)
                 else map_of (only_if (Zicsr f) [(1, Zi rv_insn_csrrw), (2, Zi rv_insn_csrrs),
                        (3, Zi rv_insn_csrrc), (5, Zi rv_insn_csrrwi), (6, Zi rv_insn_csrrsi),
                        (7, Zi rv_insn_csrrci)]) f3) in
      case sel of
        None \<Rightarrow> illegal ir
      | Some op \<Rightarrow> Some (csr_is_writable (i_imm ir) \<or> i_rs1 ir = 0, ir\<lparr>i_opcode := op\<rparr>))"

definition op_misc_mem :: decoder where
  "op_misc_mem f insn ir = switch
     ([(0, Base rv_insn_fence)] @ only_if (Zifencei f) [(1, Zi rv_insn_fencei)])
     (decode_funct3 insn) ir"

definition op_amo :: decoder where
  "op_amo f insn ir = switch
     [(0x02, RvA rv_insn_lrw), (0x03, RvA rv_insn_scw), (0x01, RvA rv_insn_amoswapw),
      (0x00, RvA rv_insn_amoaddw), (0x04, RvA rv_insn_amoxorw), (0x0C, RvA rv_insn_amoandw),
      (0x08, RvA rv_insn_amoorw), (0x10, RvA rv_insn_amominw), (0x14, RvA rv_insn_amomaxw),
      (0x18, RvA rv_insn_amominuw), (0x1C, RvA rv_insn_amomaxuw)]
     (drop_bit 2 (decode_funct7 insn) AND 0x1F) (decode_rtype insn ir)"

definition op_load_fp :: decoder where
  "op_load_fp f insn ir = legal (decode_itype insn ir) (RvF rv_insn_flw)"

definition op_store_fp :: decoder where
  "op_store_fp f insn ir = legal (decode_stype insn ir) (RvF rv_insn_fsw)"

text \<open>The FCVT.W group has no default arm: with another \<^verbatim>\<open>rs2\<close> the opcode stays as it was.\<close>

definition op_op_fp :: decoder where
  "op_op_fp f insn ir =
     (let ir = decode_rtype insn (ir\<lparr>i_rm := ucast (decode_funct3 insn)\<rparr>);
          f7 = decode_funct7 insn; rm = i_rm ir; rs2 = i_rs2 ir in
      if f7 = 0x10 then switch [(0, RvF rv_insn_fsgnjs), (1, RvF rv_insn_fsgnjns),
                          (2, RvF rv_insn_fsgnjxs)] rm ir
      else if f7 = 0x60 then
        if rs2 = 0 then legal ir (RvF rv_insn_fcvtws)
        else if rs2 = 1 then legal ir (RvF rv_insn_fcvtwus)
        else Some (True, ir)
      else if f7 = 0x14 then switch [(0, RvF rv_insn_fmins), (1, RvF rv_insn_fmaxs)] rm ir
      else if f7 = 0x70 then switch [(0, RvF rv_insn_fmvxw), (1, RvF rv_insn_fclasss)] rm ir
      else if f7 = 0x50 then switch [(2, RvF rv_insn_feqs), (1, RvF rv_insn_flts),
                               (0, RvF rv_insn_fles)] rm ir
      else if f7 = 0x68 then switch [(0, RvF rv_insn_fcvtsw), (1, RvF rv_insn_fcvtswu)] rs2 ir
      else switch [(0x00, RvF rv_insn_fadds), (0x04, RvF rv_insn_fsubs), (0x08, RvF rv_insn_fmuls),
             (0x0C, RvF rv_insn_fdivs), (0x2C, RvF rv_insn_fsqrts), (0x78, RvF rv_insn_fmvwx)] f7 ir)"

definition op_madd :: decoder where
  "op_madd f insn ir = legal (decode_r4type insn ir) (RvF rv_insn_fmadds)"

definition op_msub :: decoder where
  "op_msub f insn ir = legal (decode_r4type insn ir) (RvF rv_insn_fmsubs)"

definition op_nmadd :: decoder where
  "op_nmadd f insn ir = legal (decode_r4type insn ir) (RvF rv_insn_fnmadds)"

definition op_nmsub :: decoder where
  "op_nmsub f insn ir = legal (decode_r4type insn ir) (RvF rv_insn_fnmsubs)"

definition op_unimp :: decoder where
  "op_unimp f insn ir = illegal ir"

section \<open>The decoders of the 16-bit jump table\<close>

definition op_caddi :: decoder where
  "op_caddi f insn ir =
     (let ir = ir\<lparr>i_rd := ucast (c_decode_rd (ucast insn))\<rparr> in
      if i_rd ir = 0 then legal ir (RvC rv_insn_cnop)
      else legal (ir\<lparr>i_imm := c_decode_citype_imm (ucast insn)\<rparr>) (RvC rv_insn_caddi))"

definition op_caddi4spn :: decoder where
  "op_caddi4spn f insn ir =
     (let ir = ir\<lparr>i_imm := ucast (c_decode_caddi4spn_nzuimm (ucast insn)),
                  i_rd := ucast (c_decode_rdc (ucast insn) OR 0x08)\<rparr> in
      if i_imm ir = 0 then illegal ir else legal ir (RvC rv_insn_caddi4spn))"

definition op_cli :: decoder where
  "op_cli f insn ir = legal (ir\<lparr>i_imm := c_decode_citype_imm (ucast insn),
     i_rd := ucast (c_decode_rd (ucast insn))\<rparr>) (RvC rv_insn_cli)"

definition op_clui :: decoder where
  "op_clui f insn ir =
     (let ir = ir\<lparr>i_rd := ucast (c_decode_rd (ucast insn))\<rparr> in
      if i_rd ir = 0 then legal ir (RvC rv_insn_cnop)
      else if i_rd ir = 2 then
        (let ir = ir\<lparr>i_imm := c_decode_caddi16sp_nzimm (ucast insn)\<rparr> in
         if i_imm ir = 0 then illegal ir else legal ir (RvC rv_insn_caddi16sp))
      else
        (let ir = ir\<lparr>i_imm := c_decode_clui_nzimm (ucast insn)\<rparr> in
         if i_imm ir = 0 then illegal ir else legal ir (RvC rv_insn_clui)))"

definition op_cmisc_alu :: decoder where
  "op_cmisc_alu f insn ir =
     (let funct2 = drop_bit 10 (insn AND 0x0C00) in
      if funct2 = 0 then
        (let ir = ir\<lparr>i_shamt := c_decode_cbtype_shamt (ucast insn),
                     i_rs1 := ucast (c_decode_rs1c (ucast insn) OR 0x08)\<rparr> in
         if i_shamt ir AND 0x20 \<noteq> 0 then illegal ir
         else legal ir (RvC (if i_rs1 ir = 0 \<or> i_shamt ir = 0 then rv_insn_cnop else rv_insn_csrli)))
      else if funct2 = 1 then
        (let ir = ir\<lparr>i_shamt := c_decode_cbtype_shamt (ucast insn),
                     i_rs1 := ucast (c_decode_rs1 (ucast insn))\<rparr> in
         if i_shamt ir AND 0x20 \<noteq> 0 then illegal ir else legal ir (RvC rv_insn_csrai))
      else if funct2 = 2 then
        legal (ir\<lparr>i_rs1 := ucast (c_decode_rs1c (ucast insn) OR 0x08),
                  i_imm := c_decode_caddi_imm (ucast insn)\<rparr>) (RvC rv_insn_candi)
      else
        (let ir = ir\<lparr>i_rs1 := ucast (c_decode_rs1c (ucast insn) OR 0x08),
                     i_rs2 := ucast (c_decode_rs2c (ucast insn) OR 0x08),
                     i_rd := ucast (c_decode_rs1c (ucast insn) OR 0x08)\<rparr> in
         case map_of [(0, rv_insn_csub), (1, rv_insn_cxor), (2, rv_insn_cor), (3, rv_insn_cand)]
                (drop_bit 10 (insn AND 0x1000) OR drop_bit 5 (insn AND 0x0060)) of
           Some op \<Rightarrow> legal ir (RvC op)
         | None \<Rightarrow> None))"

definition op_cslli :: decoder where
  "op_cslli f insn ir =
     (let ir = ir\<lparr>i_imm := drop_bit 7 (insn AND 0x1000) OR drop_bit 2 (insn AND 0x7C),
                  i_rd := ucast (c_decode_rd (ucast insn))\<rparr> in
      legal ir (RvC (if i_rd ir \<noteq> 0 then rv_insn_cslli else rv_insn_cnop)))"

text \<open>The offset of the stack-pointer based loads, \<^verbatim>\<open>uimm[5]\<close> and \<^verbatim>\<open>uimm[4:2|7:6]\<close>, of the
  stack-pointer based stores, \<^verbatim>\<open>uimm[5:2|7:6]\<close>, and of the register based loads and stores.\<close>

definition lwsp_imm :: "u32 \<Rightarrow> u32" where
  "lwsp_imm insn = drop_bit 2 (insn AND 0x70) OR push_bit 4 (insn AND 0x0C)
     OR drop_bit 7 (insn AND 0x1000)"

definition swsp_imm :: "u32 \<Rightarrow> u32" where
  "swsp_imm insn = drop_bit 7 (insn AND 0x1E00) OR drop_bit 1 (insn AND 0x180)"

definition clw_imm :: "u32 \<Rightarrow> u32" where
  "clw_imm insn = drop_bit 4 (insn AND 0x40) OR drop_bit 7 (insn AND 0x1C00)
     OR push_bit 1 (insn AND 0x20)"

definition op_clwsp :: decoder where
  "op_clwsp f insn ir =
     (let ir = ir\<lparr>i_imm := lwsp_imm insn, i_rd := ucast (c_decode_rd (ucast insn))\<rparr> in
      legal ir (RvC (if i_rd ir \<noteq> 0 then rv_insn_clwsp else rv_insn_cnop)))"

definition op_cswsp :: decoder where
  "op_cswsp f insn ir =
     legal (ir\<lparr>i_imm := swsp_imm insn, i_rs2 := ucast (c_decode_rs2 (ucast insn))\<rparr>)
       (RvC rv_insn_cswsp)"

definition op_clw :: decoder where
  "op_clw f insn ir = legal (ir\<lparr>i_imm := clw_imm insn,
     i_rd := ucast (c_decode_rdc (ucast insn) OR 0x08),
     i_rs1 := ucast (c_decode_rs1c (ucast insn) OR 0x08)\<rparr>) (RvC rv_insn_clw)"

definition op_csw :: decoder where
  "op_csw f insn ir = legal (ir\<lparr>i_imm := clw_imm insn,
     i_rs1 := ucast (c_decode_rs1c (ucast insn) OR 0x08),
     i_rs2 := ucast (c_decode_rs2c (ucast insn) OR 0x08)\<rparr>) (RvC rv_insn_csw)"

definition op_cj :: decoder where
  "op_cj f insn ir = legal (ir\<lparr>i_imm := c_decode_cjtype_imm (ucast insn)\<rparr>) (RvC rv_insn_cj)"

definition op_cjal :: decoder where
  "op_cjal f insn ir =
     legal (ir\<lparr>i_imm := sign_extend_h (c_decode_cjtype_imm (ucast insn))\<rparr>) (RvC rv_insn_cjal)"

definition op_ccr :: decoder where
  "op_ccr f insn ir =
     (let ir = ir\<lparr>i_rs1 := ucast (c_decode_rs1 (ucast insn)),
                  i_rs2 := ucast (c_decode_rs2 (ucast insn)),
                  i_rd := ucast (c_decode_rs1 (ucast insn))\<rparr>;
          rs1 = i_rs1 ir; rs2 = i_rs2 ir in
      if drop_bit 12 (insn AND 0x1000) = 0 then
        if rs2 = 0 then (if rs1 = 0 then illegal ir else legal ir (RvC rv_insn_cjr))
        else legal ir (RvC (if i_rd ir \<noteq> 0 then rv_insn_cmv else rv_insn_cnop))
      else if rs1 = 0 \<and> rs2 = 0 then legal ir (Base rv_insn_ebreak)
      else if rs1 \<noteq> 0 \<and> rs2 \<noteq> 0 then
        legal ir (RvC (if i_rd ir \<noteq> 0 then rv_insn_cadd else rv_insn_cnop))
      else if rs1 \<noteq> 0 then legal ir (RvC rv_insn_cjalr)
      else legal ir (RvC rv_insn_cnop))"

definition op_cbeqz :: decoder where
  "op_cbeqz f insn ir = legal (ir\<lparr>i_imm := sign_extend_h (ucast (c_decode_cbtype_imm (ucast insn))),
     i_rs1 := ucast (c_decode_rs1c (ucast insn) OR 0x08)\<rparr>) (RvC rv_insn_cbeqz)"

definition op_cbnez :: decoder where
  "op_cbnez f insn ir = legal (ir\<lparr>i_imm := sign_extend_h (ucast (c_decode_cbtype_imm (ucast insn))),
     i_rs1 := ucast (c_decode_rs1c (ucast insn) OR 0x08)\<rparr>) (RvC rv_insn_cbnez)"

definition op_cflwsp :: decoder where
  "op_cflwsp f insn ir =
     legal (ir\<lparr>i_imm := lwsp_imm insn, i_rd := ucast (c_decode_rd (ucast insn))\<rparr>)
       (RvC rv_insn_cflwsp)"

definition op_cfswsp :: decoder where
  "op_cfswsp f insn ir =
     legal (ir\<lparr>i_imm := swsp_imm insn, i_rs2 := ucast (c_decode_rs2 (ucast insn))\<rparr>)
       (RvC rv_insn_cfswsp)"

definition op_cflw :: decoder where
  "op_cflw f insn ir = legal (ir\<lparr>i_imm := clw_imm insn,
     i_rd := ucast (c_decode_rdc (ucast insn) OR 0x08),
     i_rs1 := ucast (c_decode_rs1c (ucast insn) OR 0x08)\<rparr>) (RvC rv_insn_cflw)"

definition op_cfsw :: decoder where
  "op_cfsw f insn ir = legal (ir\<lparr>i_imm := clw_imm insn,
     i_rs1 := ucast (c_decode_rs1c (ucast insn) OR 0x08),
     i_rs2 := ucast (c_decode_rs2c (ucast insn) OR 0x08)\<rparr>) (RvC rv_insn_cfsw)"

section \<open>The decoder\<close>

definition is_tt :: "features \<Rightarrow> u32 \<Rightarrow> bool" where
  "is_tt f insn = (EXT_TT f \<and> insn AND FC_OPCODE \<noteq> 3)"

definition is_compressed :: "features \<Rightarrow> u32 \<Rightarrow> bool" where
  "is_compressed f insn = (\<not> EXT_TT f \<and> insn AND FC_OPCODE \<noteq> 3)"

text \<open>A group whose feature is not built in is the unimplemented handler.\<close>

definition if_built :: "bool \<Rightarrow> decoder \<Rightarrow> decoder" where
  "if_built b d = (if b then d else op_unimp)"

definition rv_jump_table :: "features \<Rightarrow> decoder list" where
  "rv_jump_table f =
     [op_load, if_built (EXT_F f) op_load_fp, op_unimp, op_misc_mem,
      op_op_imm, op_auipc, op_unimp, op_unimp,
      op_store, if_built (EXT_F f) op_store_fp, op_unimp, if_built (EXT_A f) op_amo,
      op_op, op_lui, op_unimp, op_unimp,
      if_built (EXT_F f) op_madd, if_built (EXT_F f) op_msub, if_built (EXT_F f) op_nmsub,
      if_built (EXT_F f) op_nmadd,
      if_built (EXT_F f) op_op_fp, op_unimp, op_unimp, op_unimp,
      op_branch, op_jalr, op_unimp, op_jal,
      op_system, op_unimp, op_unimp, op_unimp]"

definition rvc_jump_table :: "features \<Rightarrow> decoder list" where
  "rvc_jump_table f =
     [op_caddi4spn, op_caddi, op_cslli, op_unimp,
      op_unimp, op_cjal, op_unimp, op_unimp,
      op_clw, op_cli, op_clwsp, op_unimp,
      if_built (EXT_F f) op_cflw, op_clui, if_built (EXT_F f) op_cflwsp, op_unimp,
      op_unimp, op_cmisc_alu, op_ccr, op_unimp,
      op_unimp, op_cj, op_unimp, op_unimp,
      op_csw, op_cbeqz, op_cswsp, op_unimp,
      if_built (EXT_F f) op_cfsw, op_cbnez, if_built (EXT_F f) op_cfswsp, op_unimp]"

text \<open>The check at the label \<^verbatim>\<open>end\<close>: RV32E has registers x0 to x15, except for the floating-point
  loads, stores and operations (entries 1, 9 and 20 of the table).\<close>

definition rv32e_check :: "features \<Rightarrow> bool \<Rightarrow> decoded \<Rightarrow> decoded" where
  "rv32e_check f fp r =
     (if RV32E f \<and> \<not> fp
      then map_option (\<lambda>(ret, ir). (ret \<and> \<not> (i_rd ir > 15 \<or> i_rs1 ir > 15 \<or> i_rs2 ir > 15), ir)) r
      else r)"

definition rv_decode :: decoder where
  "rv_decode f insn ir =
     (if is_tt f insn then rv32e_check f False (illegal ir)
      else if EXT_C f \<and> is_compressed f insn then
        (let insn = insn AND 0xFFFF;
             c_index = drop_bit 11 (insn AND FC_FUNC3) OR (insn AND FC_OPCODE) in
         rv32e_check f False ((rvc_jump_table f ! unat c_index) f insn ir))
      else
        (let index = drop_bit 2 (insn AND INSN_6_2) in
         rv32e_check f (index \<in> {1, 9, 20}) ((rv_jump_table f ! unat index) f insn ir)))"

end
