(* ===== verification/Decode_Encode.thy ===== *)
theory Decode_Encode
  imports Decode
begin

text \<open>
  The decoder against the instruction-set manual: an abstract syntax of the RV32IM assembly
  instructions with operands of the widths the manual gives them, their 32-bit encodings in the six
  formats R, I, S, B, U and J, and the theorem that decoding an encoded instruction gives back its
  opcode, registers and sign-extended immediate.
\<close>

section \<open>Encodings\<close>

text \<open>The common layout of the formats: opcode, bits 11:7, funct3, bits 19:15, bits 24:20 and bits
  31:25.\<close>

definition pack :: "7 word \<Rightarrow> 5 word \<Rightarrow> 3 word \<Rightarrow> 5 word \<Rightarrow> 5 word \<Rightarrow> 7 word \<Rightarrow> u32" where
  "pack opc a f3 b c f7 = ucast opc OR push_bit 7 (ucast a) OR push_bit 12 (ucast f3)
     OR push_bit 15 (ucast b) OR push_bit 20 (ucast c) OR push_bit 25 (ucast f7)"

definition enc_I :: "7 word \<Rightarrow> 3 word \<Rightarrow> 5 word \<Rightarrow> 5 word \<Rightarrow> 12 word \<Rightarrow> u32" where
  "enc_I opc f3 rd rs1 imm = pack opc rd f3 rs1 (ucast imm) (ucast (drop_bit 5 imm))"

definition enc_S :: "7 word \<Rightarrow> 3 word \<Rightarrow> 5 word \<Rightarrow> 5 word \<Rightarrow> 12 word \<Rightarrow> u32" where
  "enc_S opc f3 rs1 rs2 imm = pack opc (ucast imm) f3 rs1 rs2 (ucast (drop_bit 5 imm))"

text \<open>B: \<^verbatim>\<open>imm[4:1|11]\<close> in bits 11:7 and \<^verbatim>\<open>imm[12|10:5]\<close> in bits 31:25.  J: \<^verbatim>\<open>imm[20|10:1|11|19:12]\<close> in
  bits 31:12.\<close>

definition enc_B :: "7 word \<Rightarrow> 3 word \<Rightarrow> 5 word \<Rightarrow> 5 word \<Rightarrow> 13 word \<Rightarrow> u32" where
  "enc_B opc f3 rs1 rs2 imm = pack opc
     ((ucast imm AND 0x1E) OR ucast (drop_bit 11 imm AND 1)) f3 rs1 rs2
     (ucast (drop_bit 5 imm AND 0x3F) OR push_bit 6 (ucast (drop_bit 12 imm)))"

definition enc_U :: "7 word \<Rightarrow> 5 word \<Rightarrow> 20 word \<Rightarrow> u32" where
  "enc_U opc rd imm = pack opc rd (ucast imm) (ucast (drop_bit 3 imm)) (ucast (drop_bit 8 imm))
     (ucast (drop_bit 13 imm))"

definition enc_J :: "7 word \<Rightarrow> 5 word \<Rightarrow> 21 word \<Rightarrow> u32" where
  "enc_J opc rd imm = enc_U opc rd
     (ucast (drop_bit 12 imm AND 0xFF) OR push_bit 8 (ucast (drop_bit 11 imm AND 1))
      OR push_bit 9 (ucast (drop_bit 1 imm AND 0x3FF)) OR push_bit 19 (ucast (drop_bit 20 imm)))"

lemma bit_pack: "bit (pack opc a f3 b c f7) n =
  (if n < 7 then bit opc n else if n < 12 then bit a (n - 7) else if n < 15 then bit f3 (n - 12)
   else if n < 20 then bit b (n - 15) else if n < 25 then bit c (n - 20) else bit f7 (n - 25))"
proof -
  have "bit f7 (n - 25) \<Longrightarrow> n < 32"
    by (drule bit_imp_le_length) simp
  moreover have "n - k < 32" if "n < 32" for k
    using that by simp
  ultimately show ?thesis
    by (cases "n < 32") (auto simp: pack_def bit_simps bit_high)
qed

lemma mask_bits:
  "bit FR_RD n \<longleftrightarrow> 7 \<le> n \<and> n < 12"
  "bit FR_FUNCT3 n \<longleftrightarrow> 12 \<le> n \<and> n < 15"
  "bit FR_RS1 n \<longleftrightarrow> 15 \<le> n \<and> n < 20"
  "bit FR_RS2 n \<longleftrightarrow> 20 \<le> n \<and> n < 25"
  "bit FR_FUNCT7 n \<longleftrightarrow> 25 \<le> n \<and> n < 32"
  "bit INSN_6_2 n \<longleftrightarrow> 2 \<le> n \<and> n < 7"
  using bit_run[of FR_RD 5 7 n] bit_run[of FR_FUNCT3 3 12 n] bit_run[of FR_RS1 5 15 n]
    bit_run[of FR_RS2 5 20 n] bit_run[of FR_FUNCT7 7 25 n] bit_run[of INSN_6_2 5 2 n]
  by (simp_all add: masks)

lemma decode_pack [simp]:
  "decode_rd (pack opc a f3 b c f7) = ucast a"
  "decode_funct3 (pack opc a f3 b c f7) = ucast f3"
  "decode_rs1 (pack opc a f3 b c f7) = ucast b"
  "decode_rs2 (pack opc a f3 b c f7) = ucast c"
  "decode_funct7 (pack opc a f3 b c f7) = ucast f7"
  by (rule bit_word_eqI, auto simp: decode_rd_def decode_funct3_def decode_rs1_def decode_rs2_def
        decode_funct7_def bit_simps bit_pack mask_bits bit_high dest: bit_imp_le_length)+

section \<open>Immediates\<close>

lemma imm_mask_bits:
  "bit FI_IMM_11_0 n \<longleftrightarrow> 20 \<le> n \<and> n < 32"
  "bit FS_IMM_4_0 n \<longleftrightarrow> 7 \<le> n \<and> n < 12"
  "bit FS_IMM_11_5 n \<longleftrightarrow> 25 \<le> n \<and> n < 32"
  "bit FB_IMM_4_1 n \<longleftrightarrow> 8 \<le> n \<and> n < 12"
  "bit FB_IMM_10_5 n \<longleftrightarrow> 25 \<le> n \<and> n < 31"
  "bit FU_IMM_31_12 n \<longleftrightarrow> 12 \<le> n \<and> n < 32"
  "bit FJ_IMM_19_12 n \<longleftrightarrow> 12 \<le> n \<and> n < 20"
  "bit FJ_IMM_10_1 n \<longleftrightarrow> 21 \<le> n \<and> n < 31"
  "bit FB_IMM_11 n \<longleftrightarrow> 7 \<le> n \<and> n < 8"
  "bit FB_IMM_12 n \<longleftrightarrow> 31 \<le> n \<and> n < 32"
  "bit FJ_IMM_11 n \<longleftrightarrow> 20 \<le> n \<and> n < 21"
  "bit FJ_IMM_20 n \<longleftrightarrow> 31 \<le> n \<and> n < 32"
  using bit_run[of FI_IMM_11_0 12 20 n] bit_run[of FS_IMM_4_0 5 7 n] bit_run[of FS_IMM_11_5 7 25 n]
    bit_run[of FB_IMM_11 1 7 n] bit_run[of FB_IMM_4_1 4 8 n] bit_run[of FB_IMM_10_5 6 25 n]
    bit_run[of FB_IMM_12 1 31 n] bit_run[of FU_IMM_31_12 20 12 n] bit_run[of FJ_IMM_19_12 8 12 n]
    bit_run[of FJ_IMM_11 1 20 n] bit_run[of FJ_IMM_10_1 10 21 n] bit_run[of FJ_IMM_20 1 31 n]
  by (simp_all add: masks)

lemma lit_bits:
  "bit (0x1E :: 5 word) n \<longleftrightarrow> 1 \<le> n \<and> n < 5"
  "bit (0x3F :: 13 word) n \<longleftrightarrow> n < 6"
  "bit (0xFF :: 21 word) n \<longleftrightarrow> n < 8"
  "bit (0x3FF :: 21 word) n \<longleftrightarrow> n < 10"
  using bit_run[of "0x1E :: 5 word" 4 1 n] bit_run[of "0x3F :: 13 word" 6 0 n]
    bit_run[of "0xFF :: 21 word" 8 0 n] bit_run[of "0x3FF :: 21 word" 10 0 n]
  by simp_all

lemma itype_imm [simp]: "decode_itype_imm (enc_I opc f3 rd rs1 imm) = scast imm"
  by (rule bit_word_eqI,
      simp add: decode_itype_imm_def enc_I_def bit_simps bit_pack imm_mask_bits bit_high)
    (auto simp: min_def)

lemma stype_imm [simp]: "decode_stype_imm (enc_S opc f3 rs1 rs2 imm) = scast imm"
  by (rule bit_word_eqI,
      simp add: decode_stype_imm_def enc_S_def bit_simps bit_pack imm_mask_bits bit_high)
    (auto simp: min_def)

lemma utype_imm [simp]: "decode_utype_imm (enc_U opc rd imm) = push_bit 12 (ucast imm)"
  by (rule bit_word_eqI,
      simp add: decode_utype_imm_def enc_U_def bit_simps bit_pack imm_mask_bits bit_high) auto

lemma btype_imm [simp]: "\<not> bit imm 0 \<Longrightarrow> decode_btype_imm (enc_B opc f3 rs1 rs2 imm) = scast imm"
  by (rule u32_eqI)
    (simp add: decode_btype_imm_def enc_B_def bit_simps bit_pack imm_mask_bits lit_bits bit_high)

lemma jtype_imm [simp]: "\<not> bit imm 0 \<Longrightarrow> decode_jtype_imm (enc_J opc rd imm) = scast imm"
  by (rule u32_eqI, simp add: decode_jtype_imm_def enc_J_def enc_U_def bit_simps bit_pack
        imm_mask_bits lit_bits bit_high)
    (simp add: numeral_eq_Suc)

lemma decode_fields_enc [simp]:
  "decode_rd (enc_I opc f3 rd rs1 imm) = ucast rd"
  "decode_rs1 (enc_I opc f3 rd rs1 imm) = ucast rs1"
  "decode_funct3 (enc_I opc f3 rd rs1 imm) = ucast f3"
  "decode_rs1 (enc_S opc f3 rs1 rs2 imm) = ucast rs1"
  "decode_rs2 (enc_S opc f3 rs1 rs2 imm) = ucast rs2"
  "decode_funct3 (enc_S opc f3 rs1 rs2 imm) = ucast f3"
  "decode_rs1 (enc_B opc f3 rs1 rs2 imm13) = ucast rs1"
  "decode_rs2 (enc_B opc f3 rs1 rs2 imm13) = ucast rs2"
  "decode_funct3 (enc_B opc f3 rs1 rs2 imm13) = ucast f3"
  "decode_rd (enc_U opc rd imm20) = ucast rd"
  "decode_rd (enc_J opc rd imm21) = ucast rd"
  by (simp_all add: enc_I_def enc_S_def enc_B_def enc_U_def enc_J_def)

section \<open>Dispatch\<close>

lemma and_3: "x AND 3 = take_bit 2 x" for x :: u32
  by (simp add: take_bit_eq_mask mask_eq_exp_minus_1)

lemma pack_index: "drop_bit 2 (pack opc a f3 b c f7 AND INSN_6_2) = ucast (drop_bit 2 opc)"
  by (rule bit_word_eqI) (auto simp: bit_simps bit_pack mask_bits bit_high)

lemma pack_low: "pack opc a f3 b c f7 AND 3 = ucast opc AND 3"
  unfolding and_3 by (rule bit_word_eqI) (simp add: bit_simps bit_pack)

lemma rv_decode_pack:
  assumes "ucast opc AND 3 = (3 :: u32)" and "\<not> RV32E f"
  shows "rv_decode f (pack opc a f3 b c f7) ir
    = (rv_jump_table f ! unat (drop_bit 2 opc)) f (pack opc a f3 b c f7) ir"
proof -
  have "unat (ucast (drop_bit 2 opc) :: u32) = unat (drop_bit 2 opc)"
    by (rule unat_ucast_up) simp
  then show ?thesis
    using assms unfolding rv_decode_def Let_def pack_index
    by (simp add: is_tt_def is_compressed_def rv32e_check_def FC_OPCODE_def pack_low)
qed

section \<open>RV32IM assembly\<close>

datatype asm =
    Upper rv_base "5 word" "20 word"
  | Jal "5 word" "21 word"
  | Jalr "5 word" "5 word" "12 word"
  | Branch rv_base "5 word" "5 word" "13 word"
  | Load rv_base "5 word" "5 word" "12 word"
  | Store rv_base "5 word" "5 word" "12 word"
  | OpImm rv_base "5 word" "5 word" "12 word"
  | ShiftImm rv_base "5 word" "5 word" "5 word"
  | Op rv_base "5 word" "5 word" "5 word"
  | MulDiv rv_m "5 word" "5 word" "5 word"

text \<open>The minor opcodes of the manual's instruction listings: funct3, and for register-register
  operations funct7.\<close>

definition upper_opc :: "(rv_base \<times> 7 word) list" where
  "upper_opc = [(rv_insn_lui, 0x37), (rv_insn_auipc, 0x17)]"

definition branch_f3 :: "(rv_base \<times> 3 word) list" where
  "branch_f3 = [(rv_insn_beq, 0), (rv_insn_bne, 1), (rv_insn_blt, 4), (rv_insn_bge, 5),
     (rv_insn_bltu, 6), (rv_insn_bgeu, 7)]"

definition load_f3 :: "(rv_base \<times> 3 word) list" where
  "load_f3 = [(rv_insn_lb, 0), (rv_insn_lh, 1), (rv_insn_lw, 2), (rv_insn_lbu, 4), (rv_insn_lhu, 5)]"

definition store_f3 :: "(rv_base \<times> 3 word) list" where
  "store_f3 = [(rv_insn_sb, 0), (rv_insn_sh, 1), (rv_insn_sw, 2)]"

definition imm_f3 :: "(rv_base \<times> 3 word) list" where
  "imm_f3 = [(rv_insn_addi, 0), (rv_insn_slti, 2), (rv_insn_sltiu, 3), (rv_insn_xori, 4),
     (rv_insn_ori, 6), (rv_insn_andi, 7)]"

definition shift_f3 :: "(rv_base \<times> 3 word \<times> 12 word) list" where
  "shift_f3 = [(rv_insn_slli, 1, 0), (rv_insn_srli, 5, 0), (rv_insn_srai, 5, 0x400)]"

definition op_f :: "(rv_base \<times> 3 word \<times> 7 word) list" where
  "op_f = [(rv_insn_add, 0, 0), (rv_insn_sub, 0, 0x20), (rv_insn_sll, 1, 0), (rv_insn_slt, 2, 0),
     (rv_insn_sltu, 3, 0), (rv_insn_xor, 4, 0), (rv_insn_srl, 5, 0), (rv_insn_sra, 5, 0x20),
     (rv_insn_or, 6, 0), (rv_insn_and, 7, 0)]"

definition mul_f3 :: "(rv_m \<times> 3 word) list" where
  "mul_f3 = [(rv_insn_mul, 0), (rv_insn_mulh, 1), (rv_insn_mulhsu, 2), (rv_insn_mulhu, 3),
     (rv_insn_div, 4), (rv_insn_divu, 5), (rv_insn_rem, 6), (rv_insn_remu, 7)]"

lemmas asm_tables = upper_opc_def branch_f3_def load_f3_def store_f3_def imm_f3_def shift_f3_def
  op_f_def mul_f3_def

text \<open>The instructions the round trip is about: the operation is in its table, jump targets are even,
  and a computation does not write \<^verbatim>\<open>x0\<close> (the decoder turns those into the no-operation).\<close>

fun asm_ok :: "asm \<Rightarrow> bool" where
  "asm_ok (Upper op rd imm) = (op \<in> fst ` set upper_opc \<and> rd \<noteq> 0)"
| "asm_ok (Jal rd imm) = (\<not> bit imm 0)"
| "asm_ok (Jalr rd rs1 imm) = True"
| "asm_ok (Branch op rs1 rs2 imm) = (op \<in> fst ` set branch_f3 \<and> \<not> bit imm 0)"
| "asm_ok (Load op rd rs1 imm) = (op \<in> fst ` set load_f3)"
| "asm_ok (Store op rs1 rs2 imm) = (op \<in> fst ` set store_f3)"
| "asm_ok (OpImm op rd rs1 imm) = (op \<in> fst ` set imm_f3 \<and> rd \<noteq> 0)"
| "asm_ok (ShiftImm op rd rs1 sh) = (op \<in> fst ` set shift_f3 \<and> rd \<noteq> 0)"
| "asm_ok (Op op rd rs1 rs2) = (op \<in> fst ` set op_f \<and> rd \<noteq> 0)"
| "asm_ok (MulDiv op rd rs1 rs2) = (rd \<noteq> 0)"

fun encode :: "asm \<Rightarrow> u32" where
  "encode (Upper op rd imm) = enc_U (the (map_of upper_opc op)) rd imm"
| "encode (Jal rd imm) = enc_J 0x6F rd imm"
| "encode (Jalr rd rs1 imm) = enc_I 0x67 0 rd rs1 imm"
| "encode (Branch op rs1 rs2 imm) = enc_B 0x63 (the (map_of branch_f3 op)) rs1 rs2 imm"
| "encode (Load op rd rs1 imm) = enc_I 0x03 (the (map_of load_f3 op)) rd rs1 imm"
| "encode (Store op rs1 rs2 imm) = enc_S 0x23 (the (map_of store_f3 op)) rs1 rs2 imm"
| "encode (OpImm op rd rs1 imm) = enc_I 0x13 (the (map_of imm_f3 op)) rd rs1 imm"
| "encode (ShiftImm op rd rs1 sh) =
     (let (f3, hi) = the (map_of shift_f3 op) in enc_I 0x13 f3 rd rs1 (hi OR ucast sh))"
| "encode (Op op rd rs1 rs2) =
     (let (f3, f7) = the (map_of op_f op) in pack 0x33 rd f3 rs1 rs2 f7)"
| "encode (MulDiv op rd rs1 rs2) = pack 0x33 rd (the (map_of mul_f3 op)) rs1 rs2 1"

fun denote :: "asm \<Rightarrow> rv_insn" where
  "denote (Upper op rd imm) =
     zero_insn\<lparr>i_opcode := Base op, i_rd := ucast rd, i_imm := push_bit 12 (ucast imm)\<rparr>"
| "denote (Jal rd imm) =
     zero_insn\<lparr>i_opcode := Base rv_insn_jal, i_rd := ucast rd, i_imm := scast imm\<rparr>"
| "denote (Jalr rd rs1 imm) =
     zero_insn\<lparr>i_opcode := Base rv_insn_jalr, i_rd := ucast rd, i_rs1 := ucast rs1,
       i_imm := scast imm\<rparr>"
| "denote (Branch op rs1 rs2 imm) =
     zero_insn\<lparr>i_opcode := Base op, i_rs1 := ucast rs1, i_rs2 := ucast rs2, i_imm := scast imm\<rparr>"
| "denote (Load op rd rs1 imm) =
     zero_insn\<lparr>i_opcode := Base op, i_rd := ucast rd, i_rs1 := ucast rs1, i_imm := scast imm\<rparr>"
| "denote (Store op rs1 rs2 imm) =
     zero_insn\<lparr>i_opcode := Base op, i_rs1 := ucast rs1, i_rs2 := ucast rs2, i_imm := scast imm\<rparr>"
| "denote (OpImm op rd rs1 imm) =
     zero_insn\<lparr>i_opcode := Base op, i_rd := ucast rd, i_rs1 := ucast rs1, i_imm := scast imm\<rparr>"
| "denote (ShiftImm op rd rs1 sh) =
     zero_insn\<lparr>i_opcode := Base op, i_rd := ucast rd, i_rs1 := ucast rs1,
       i_imm := ucast (snd (the (map_of shift_f3 op))) OR ucast sh\<rparr>"
| "denote (Op op rd rs1 rs2) =
     zero_insn\<lparr>i_opcode := Base op, i_rd := ucast rd, i_rs1 := ucast rs1, i_rs2 := ucast rs2\<rparr>"
| "denote (MulDiv op rd rs1 rs2) =
     zero_insn\<lparr>i_opcode := RvM op, i_rd := ucast rd, i_rs1 := ucast rs1, i_rs2 := ucast rs2\<rparr>"

section \<open>Round trip\<close>

lemma ucast_reg [simp]: "ucast (ucast r :: u32) = (ucast r :: u8)" for r :: "5 word"
  by (rule bit_word_eqI) (simp add: bit_simps bit_high)

lemma ucast_reg_0 [simp]: "(ucast r :: u8) = 0 \<longleftrightarrow> r = 0" for r :: "5 word"
proof -
  have "unat (ucast r :: u8) = unat r" by (rule unat_ucast_up) simp
  then show ?thesis by (metis unsigned_eq_0_iff)
qed

lemma dispatch:
  assumes "\<not> RV32E f"
  shows
  "rv_decode f (enc_I 0x03 f3 rd rs1 imm) ir = op_load f (enc_I 0x03 f3 rd rs1 imm) ir"
  "rv_decode f (enc_I 0x13 f3 rd rs1 imm) ir = op_op_imm f (enc_I 0x13 f3 rd rs1 imm) ir"
  "rv_decode f (enc_I 0x67 f3 rd rs1 imm) ir = op_jalr f (enc_I 0x67 f3 rd rs1 imm) ir"
  "rv_decode f (enc_S 0x23 f3 rs1 rs2 imm) ir = op_store f (enc_S 0x23 f3 rs1 rs2 imm) ir"
  "rv_decode f (enc_B 0x63 f3 rs1 rs2 imm13) ir = op_branch f (enc_B 0x63 f3 rs1 rs2 imm13) ir"
  "rv_decode f (enc_U 0x37 rd imm20) ir = op_lui f (enc_U 0x37 rd imm20) ir"
  "rv_decode f (enc_U 0x17 rd imm20) ir = op_auipc f (enc_U 0x17 rd imm20) ir"
  "rv_decode f (enc_J 0x6F rd imm21) ir = op_jal f (enc_J 0x6F rd imm21) ir"
  "rv_decode f (pack 0x33 rd f3 rs1 rs2 f7) ir = op_op f (pack 0x33 rd f3 rs1 rs2 f7) ir"

  using assms
  unfolding enc_I_def enc_S_def enc_B_def enc_J_def enc_U_def
  by (subst rv_decode_pack, simp, simp, simp add: rv_jump_table_def)+

lemmas decode_unfold = decode_itype_def decode_stype_def decode_btype_def decode_jtype_def
  decode_utype_def decode_rtype_def switch_def legal_def illegal_def

lemma shift_imm_hi:
  "signed_drop_bit 5 (scast (ucast sh :: 12 word) :: u32) = 0"
  "signed_drop_bit 5 (scast (0x400 OR ucast sh :: 12 word) :: u32) = 0x20"
  for sh :: "5 word"
  by (rule u32_eqI, simp add: bit_simps bit_high)+

lemma shift_imm_scast:
  "(scast (ucast sh :: 12 word) :: u32) = ucast sh"
  "(scast (0x400 OR ucast sh :: 12 word) :: u32) = 0x400 OR ucast sh"
  for sh :: "5 word"
  by (rule u32_eqI, simp add: bit_simps bit_high)+

lemma op_imm_slli_shamt:
  assumes "i_imm ir = ucast (sh :: 5 word)"
  shows "op_imm_slli f ir = legal ir (Base rv_insn_slli)"
proof -
  have "signed_drop_bit 5 (i_imm ir) = 0"
    using shift_imm_hi(1)[of sh] assms by (simp add: shift_imm_scast)
  moreover from this have "i_imm ir \<notin> {0x600, 0x601, 0x602, 0x604, 0x605}"
    by auto
  moreover have "\<not> tst (i_imm ir) 5"
    using assms by (simp add: tst_bit bit_simps bit_high)
  ultimately show ?thesis
    by (simp add: op_imm_slli_def)
qed

lemma op_imm_srli_shamt:
  assumes "i_imm ir = ucast (sh :: 5 word)"
  shows "op_imm_srli f ir = legal ir (Base rv_insn_srli)"
proof -
  have h: "signed_drop_bit 5 (i_imm ir) = 0"
    using shift_imm_hi(1)[of sh] assms by (simp add: shift_imm_scast)
  moreover from this have "i_imm ir \<notin> {0x287, 0x698}"
    by auto
  moreover have "\<not> tst (i_imm ir) 5"
    using assms by (simp add: tst_bit bit_simps bit_high)
  moreover have "i_imm ir AND NOT 0x1F = 0"
    unfolding assms by (rule u32_eqI) (simp add: bit_simps bit_high)
  ultimately show ?thesis
    by (simp add: op_imm_srli_def)
qed

lemma op_imm_srai_shamt:
  assumes "i_imm ir = 0x400 OR ucast (sh :: 5 word)"
  shows "op_imm_srli f ir = legal ir (Base rv_insn_srai)"
proof -
  have h: "signed_drop_bit 5 (i_imm ir) = 0x20"
    using shift_imm_hi(2)[of sh] assms by (simp add: shift_imm_scast)
  moreover from this have "i_imm ir \<notin> {0x287, 0x698}"
    by auto
  moreover have "\<not> tst (i_imm ir) 5"
    using assms by (simp add: tst_bit bit_simps bit_high)
  moreover have "bit (i_imm ir AND NOT 0x1F) 10"
    using assms by (simp add: bit_simps)
  then have "i_imm ir AND NOT 0x1F \<noteq> 0"
    by (metis bit_0_eq bot_apply bot_bool_def)
  ultimately show ?thesis
    by (simp add: op_imm_srli_def)
qed

lemma map_of_only_if: "map_of (only_if b xs) k = (if b then map_of xs k else None)"
  by (simp add: only_if_def)

lemma rv_decode_encode:
  assumes "asm_ok a" and "\<not> RV32E f" and "EXT_M f"
  shows "rv_decode f (encode a) zero_insn = Some (True, denote a)"
proof (cases a)
  case (ShiftImm op rd rs1 sh)
  then show ?thesis using assms
    by (auto simp: asm_tables dispatch op_op_imm_def decode_unfold op_imm_slli_shamt op_imm_srli_shamt
        op_imm_srai_shamt shift_imm_scast zero_insn_def)
next
  case (Op op rd rs1 rs2)
  then show ?thesis using assms
    by (auto simp: asm_tables dispatch op_op_def decode_unfold op_arms_def map_add_def map_of_only_if
        zero_insn_def)
next
  case (MulDiv op rd rs1 rs2)
  then show ?thesis using assms
    by (cases op) (auto simp: asm_tables dispatch op_op_def decode_unfold op_arms_def map_add_def
        map_of_only_if zero_insn_def)
qed (use assms in \<open>auto simp: asm_tables dispatch op_load_def op_store_def op_branch_def op_jal_def
    op_jalr_def op_lui_def op_auipc_def op_op_imm_def decode_unfold zero_insn_def\<close>)

text \<open>All instructions with an encoding, and those of them that compute a value for \<^verbatim>\<open>x0\<close>.\<close>

fun asm_form :: "asm \<Rightarrow> bool" where
  "asm_form (Upper op rd imm) = (op \<in> fst ` set upper_opc)"
| "asm_form (Jal rd imm) = (\<not> bit imm 0)"
| "asm_form (Jalr rd rs1 imm) = True"
| "asm_form (Branch op rs1 rs2 imm) = (op \<in> fst ` set branch_f3 \<and> \<not> bit imm 0)"
| "asm_form (Load op rd rs1 imm) = (op \<in> fst ` set load_f3)"
| "asm_form (Store op rs1 rs2 imm) = (op \<in> fst ` set store_f3)"
| "asm_form (OpImm op rd rs1 imm) = (op \<in> fst ` set imm_f3)"
| "asm_form (ShiftImm op rd rs1 sh) = (op \<in> fst ` set shift_f3)"
| "asm_form (Op op rd rs1 rs2) = (op \<in> fst ` set op_f)"
| "asm_form (MulDiv op rd rs1 rs2) = True"

fun computes_x0 :: "asm \<Rightarrow> bool" where
  "computes_x0 (Upper op rd imm) = (rd = 0)"
| "computes_x0 (OpImm op rd rs1 imm) = (rd = 0)"
| "computes_x0 (ShiftImm op rd rs1 sh) = (rd = 0)"
| "computes_x0 (Op op rd rs1 rs2) = (rd = 0)"
| "computes_x0 (MulDiv op rd rs1 rs2) = (rd = 0)"
| "computes_x0 _ = False"

lemma asm_ok_form: "asm_ok a \<longleftrightarrow> asm_form a \<and> \<not> computes_x0 a"
  by (cases a) auto

lemma rv_decode_x0:
  assumes "asm_form a" "computes_x0 a" "\<not> RV32E f"
  shows "rv_decode f (encode a) zero_insn = Some (True, (denote a)\<lparr>i_opcode := Base rv_insn_nop\<rparr>)"
proof (cases a)
  case (ShiftImm op rd rs1 sh)
  then show ?thesis using assms
    by (auto simp: asm_tables dispatch op_op_imm_def decode_unfold shift_imm_scast zero_insn_def)
next
  case (MulDiv op rd rs1 rs2)
  then show ?thesis using assms by (cases op) (auto simp: asm_tables dispatch op_op_def decode_unfold zero_insn_def)
qed (use assms in \<open>auto simp: asm_tables dispatch op_op_def op_lui_def op_auipc_def op_op_imm_def decode_unfold zero_insn_def\<close>)

lemma rv_decode_fence:
  assumes "\<not> RV32E f"
  shows "rv_decode f (enc_I 0x0F 0 rd rs1 imm) zero_insn = Some (True, zero_insn\<lparr>i_opcode := Base rv_insn_fence\<rparr>)"
proof -
  have "rv_decode f (enc_I 0x0F 0 rd rs1 imm) zero_insn = op_misc_mem f (enc_I 0x0F 0 rd rs1 imm) zero_insn"
    using assms unfolding enc_I_def by (subst rv_decode_pack, simp, simp, simp add: rv_jump_table_def)
  then show ?thesis by (simp add: op_misc_mem_def decode_unfold)
qed

lemma rv_decode_env:
  assumes "\<not> RV32E f" "n = 0 \<or> n = 1"
  shows "rv_decode f (enc_I 0x73 0 0 0 n) zero_insn
    = Some (True, zero_insn\<lparr>i_opcode := Base (if n = 0 then rv_insn_ecall else rv_insn_ebreak), i_imm := ucast n\<rparr>)"
proof -
  have "rv_decode f (enc_I 0x73 0 0 0 n) zero_insn = op_system f (enc_I 0x73 0 0 0 n) zero_insn"
    using assms(1) unfolding enc_I_def by (subst rv_decode_pack, simp, simp, simp add: rv_jump_table_def)
  moreover have "drop_bit 25 (enc_I 0x73 0 0 0 n) \<noteq> 0x09"
    using assms(2) by (elim disjE) (simp_all, code_simp+)
  ultimately show ?thesis
    using assms(2) by (auto simp: op_system_def decode_unfold csr_is_writable_def Let_def zero_insn_def)
qed

text \<open>
  C5: decoding inverts the manual's encodings.  For every RV32IM instruction with operands (an operation of its
  format's table, any registers and immediates, an even jump offset) the decoder accepts the encoded word and yields the operation with the same registers
  and the sign-extended immediate, except that a computation whose destination is \<^verbatim>\<open>x0\<close> becomes the no-operation; and it
  accepts every FENCE, ECALL and EBREAK.  This holds in every build with the M extension and the full register file.
\<close>

theorem decode_encode_roundtrip:
  assumes "asm_form a" and "\<not> RV32E f" and "EXT_M f"
  shows "rv_decode f (encode a) zero_insn
      = Some (True, if computes_x0 a then (denote a)\<lparr>i_opcode := Base rv_insn_nop\<rparr> else denote a)
    \<and> rv_decode f (enc_I 0x0F 0 rd rs1 imm) zero_insn = Some (True, zero_insn\<lparr>i_opcode := Base rv_insn_fence\<rparr>)
    \<and> rv_decode f (enc_I 0x73 0 0 0 0) zero_insn = Some (True, zero_insn\<lparr>i_opcode := Base rv_insn_ecall\<rparr>)
    \<and> rv_decode f (enc_I 0x73 0 0 0 1) zero_insn = Some (True, zero_insn\<lparr>i_opcode := Base rv_insn_ebreak, i_imm := 1\<rparr>)"
  using rv_decode_x0[OF assms(1) _ assms(2)] rv_decode_encode[of a f] assms asm_ok_form[of a] rv_decode_fence[OF assms(2)]
    rv_decode_env[OF assms(2), of 0] rv_decode_env[OF assms(2), of 1]
  by (auto simp: zero_insn_def)

text \<open>The encodings of \<^verbatim>\<open>beq x5, x6, -4\<close> and of \<^verbatim>\<open>srai x7, x8, 3\<close>.\<close>

theorem decode_encode_roundtrip_witness:
  "encode (Branch rv_insn_beq 5 6 (- 4)) = 0xFE628EE3
   \<and> rv_decode default_features 0xFE628EE3 zero_insn
     = Some (True, zero_insn\<lparr>i_opcode := Base rv_insn_beq, i_rs1 := 5, i_rs2 := 6, i_imm := - 4\<rparr>)
   \<and> rv_decode default_features (encode (ShiftImm rv_insn_srai 7 8 3)) zero_insn
     = Some (True, zero_insn\<lparr>i_opcode := Base rv_insn_srai, i_rd := 7, i_rs1 := 8, i_imm := 0x403\<rparr>)"
proof -
  have "encode (Branch rv_insn_beq 5 6 (- 4)) = 0xFE628EE3"
    by code_simp
  moreover have "asm_form (Branch rv_insn_beq 5 6 (- 4))" "asm_form (ShiftImm rv_insn_srai 7 8 3)"
    by (simp_all add: asm_tables)
  moreover have "\<not> RV32E default_features" "EXT_M default_features"
    by (simp_all add: default_features_def)
  ultimately show ?thesis
    using decode_encode_roundtrip[of "Branch rv_insn_beq 5 6 (- 4)" default_features]
      decode_encode_roundtrip[of "ShiftImm rv_insn_srai 7 8 3" default_features]
    by (simp add: asm_tables)
qed

end
