(* ===== verification/Decode_Safety.thy ===== *)
theory Decode_Safety
  imports Decode_Encode
begin

text \<open>
  What the interpreter may rely on for every word the decoder accepts, whatever its bits: the register
  numbers are below 32, so that \<^verbatim>\<open>rv->X[ir->rd]\<close> is in bounds; the opcode belongs to an extension
  that is built in; and the length the dispatch table gives the opcode is the length of the encoding.
\<close>

section \<open>Register numbers\<close>

lemma less_32I: "\<not> bit x 5 \<and> \<not> bit x 6 \<and> \<not> bit x 7 \<Longrightarrow> x < 32" for x :: u8
proof -
  assume *: "\<not> bit x 5 \<and> \<not> bit x 6 \<and> \<not> bit x 7"
  have "\<not> bit x n" if "5 \<le> n" "n < 8" for n
  proof -
    have "n = 5 \<or> n = 6 \<or> n = 7" using that by linarith
    then show ?thesis using * by auto
  qed
  then have "take_bit 5 x = x"
    by (intro bit_word_eqI) (use not_le in \<open>auto simp: bit_simps\<close>)
  then show ?thesis
    using word_and_less_mask[of 5 x] by (simp add: take_bit_eq_mask)
qed

lemma reg_fields_less [simp]:
  "(ucast (decode_rd insn) :: u8) < 32"
  "(ucast (decode_rs1 insn) :: u8) < 32"
  "(ucast (decode_rs2 insn) :: u8) < 32"
  by (rule less_32I, simp add: decode_rd_def decode_rs1_def decode_rs2_def bit_simps mask_bits)+

lemma c_reg_fields_less [simp]:
  "(ucast (c_decode_rd w) :: u8) < 32"
  "(ucast (c_decode_rs1 w) :: u8) < 32"
  "(ucast (c_decode_rs2 w) :: u8) < 32"
  "(ucast (c_decode_rs1c w OR 8) :: u8) < 32"
  "(ucast (c_decode_rs2c w OR 8) :: u8) < 32"
  "(ucast (c_decode_rdc w OR 8) :: u8) < 32"
  by (rule less_32I, simp add: c_decode_rd_def c_decode_rs1_def c_decode_rs2_def c_decode_rs1c_def
        c_decode_rs2c_def c_decode_rdc_def bit_simps)+

text \<open>A property of the node that holds of whatever a decoder leaves behind.\<close>

definition leaves :: "(rv_insn \<Rightarrow> bool) \<Rightarrow> decoded \<Rightarrow> bool" where
  "leaves P r = (case r of None \<Rightarrow> True | Some (_, ir) \<Rightarrow> P ir)"

lemma leaves_simps [simp]:
  "leaves P None"
  "leaves P (Some (b, ir)) = P ir"
  "leaves P (legal ir op) = P (ir\<lparr>i_opcode := op\<rparr>)"
  "leaves P (illegal ir) = P ir"
  "leaves P (rv32e_check f fp r) = leaves P r"
  by (auto simp: leaves_def legal_def illegal_def rv32e_check_def split: option.splits)

lemma leaves_regs_switch [simp]: "leaves regs_ok (switch arms k ir) = regs_ok ir"
  by (simp add: switch_def regs_ok_def split: option.splits)

lemmas decoders_32 = op_load_def op_load_fp_def op_misc_mem_def op_op_imm_def op_auipc_def op_store_def
  op_store_fp_def op_amo_def op_op_def op_lui_def op_madd_def op_msub_def op_nmsub_def op_nmadd_def
  op_op_fp_def op_branch_def op_jalr_def op_jal_def op_system_def op_unimp_def

lemmas decoders_16 = op_caddi4spn_def op_caddi_def op_cslli_def op_cjal_def op_clw_def op_cli_def
  op_clwsp_def op_cflw_def op_clui_def op_cflwsp_def op_cmisc_alu_def op_ccr_def op_cj_def op_csw_def
  op_cbeqz_def op_cswsp_def op_cfsw_def op_cbnez_def op_cfswsp_def op_unimp_def

lemmas formats = decode_itype_def decode_stype_def decode_btype_def decode_jtype_def decode_utype_def
  decode_rtype_def decode_r4type_def set_rs3_def

lemma regs_ok_upd [simp]:
  "regs_ok (ir\<lparr>i_opcode := op\<rparr>) = regs_ok ir"
  "regs_ok (ir\<lparr>i_imm := v\<rparr>) = regs_ok ir"
  by (simp_all add: regs_ok_def)

lemma op_imm_regs [simp]:
  "leaves regs_ok (op_imm_slli f ir) = regs_ok ir"
  "leaves regs_ok (op_imm_srli f ir) = regs_ok ir"
  by (simp_all add: op_imm_slli_def op_imm_srli_def Let_def)

lemma table_32_regs: "d \<in> set (rv_jump_table f) \<Longrightarrow> regs_ok ir \<Longrightarrow> leaves regs_ok (d f insn ir)"
  by (auto simp: rv_jump_table_def if_built_def decoders_32 formats Let_def regs_ok_def
      split: option.splits)

lemma table_16_regs: "d \<in> set (rvc_jump_table f) \<Longrightarrow> regs_ok ir \<Longrightarrow> leaves regs_ok (d f insn ir)"
  by (auto simp: rvc_jump_table_def if_built_def decoders_16 Let_def regs_ok_def
      split: option.splits)

section \<open>The jump tables are indexed in bounds\<close>

lemma length_tables [simp]: "length (rv_jump_table f) = 32" "length (rvc_jump_table f) = 32"
  by (simp_all add: rv_jump_table_def rvc_jump_table_def)

lemma unat_less_32I: "take_bit 5 x = x \<Longrightarrow> unat x < 32" for x :: u32
  using take_bit_nat_less_exp[of 5 "unat x"] by (simp flip: unsigned_take_bit_eq)

lemma index_less: "unat (drop_bit 2 (insn AND INSN_6_2)) < 32"
proof (rule unat_less_32I, rule bit_word_eqI)
  fix n assume "n < LENGTH(32)"
  show "bit (take_bit 5 (drop_bit 2 (insn AND INSN_6_2))) n = bit (drop_bit 2 (insn AND INSN_6_2)) n"
    unfolding bit_take_bit_iff bit_drop_bit_eq bit_and_iff comp_def mask_bits by auto
qed

lemma c_index_less: "unat (drop_bit 11 (insn AND FC_FUNC3) OR (insn AND FC_OPCODE)) < 32"
proof -
  have "bit FC_FUNC3 n \<longleftrightarrow> 13 \<le> n \<and> n < 16" "bit FC_OPCODE n \<longleftrightarrow> n < 2" for n
    using bit_run[of FC_FUNC3 3 13 n] bit_run[of FC_OPCODE 2 0 n]
    by (simp_all add: masks numeral_2_eq_2)
  then show ?thesis
    by (intro unat_less_32I bit_word_eqI)
      (unfold bit_take_bit_iff bit_drop_bit_eq bit_and_iff bit_or_iff comp_def, auto)
qed

lemma rv_decode_cases:
  obtains (tt) "is_tt f insn" "rv_decode f insn ir = rv32e_check f False (illegal ir)"
  | (rvc) d where "\<not> is_tt f insn" "EXT_C f" "is_compressed f insn" "d \<in> set (rvc_jump_table f)"
      "rv_decode f insn ir = rv32e_check f False (d f (insn AND 0xFFFF) ir)"
  | (rv32) d where "\<not> is_tt f insn" "\<not> (EXT_C f \<and> is_compressed f insn)"
      "d \<in> set (rv_jump_table f)"
      "rv_decode f insn ir
         = rv32e_check f (drop_bit 2 (insn AND INSN_6_2) \<in> {1, 9, 20}) (d f insn ir)"
  using c_index_less[of "insn AND 0xFFFF"] index_less[of insn]
  unfolding rv_decode_def Let_def
  by (metis length_tables nth_mem)

lemma rv32e_check_True:
  "rv32e_check f False r = Some (True, ir) \<Longrightarrow> RV32E f
    \<Longrightarrow> i_rd ir \<le> 15 \<and> i_rs1 ir \<le> 15 \<and> i_rs2 ir \<le> 15"
  by (auto simp: rv32e_check_def not_less)

text \<open>
  C21: whatever 32 bits the core fetches and whatever extensions are built in, the node the decoder
  leaves behind only names registers x0 to x31, and on an RV32E build an accepted instruction outside
  the floating-point group only names x0 to x15.
\<close>

theorem decode_regs_in_bounds:
  assumes "rv_decode f insn zero_insn = Some (ret, ir)"
  shows "regs_ok ir \<and>
    (RV32E f \<and> ret \<and> drop_bit 2 (insn AND INSN_6_2) \<notin> {1, 9, 20}
     \<longrightarrow> i_rd ir \<le> 15 \<and> i_rs1 ir \<le> 15 \<and> i_rs2 ir \<le> 15)"
proof -
  have "leaves regs_ok (rv_decode f insn zero_insn)"
    by (cases rule: rv_decode_cases[of f insn zero_insn])
      (simp_all add: table_16_regs table_32_regs)
  moreover have "i_rd ir \<le> 15 \<and> i_rs1 ir \<le> 15 \<and> i_rs2 ir \<le> 15"
    if "RV32E f" ret "drop_bit 2 (insn AND INSN_6_2) \<notin> {1, 9, 20}"
    by (cases rule: rv_decode_cases[of f insn zero_insn])
      (use assms that in \<open>auto dest: rv32e_check_True rv32e_check_True[OF sym]\<close>)
  ultimately show ?thesis using assms by auto
qed

text \<open>\<^verbatim>\<open>lw x15, 12(x2)\<close> on an RV32E build.\<close>

theorem decode_regs_in_bounds_witness:
  "\<exists>ir. rv_decode (default_features\<lparr>RV32E := True\<rparr>) 0x00C12783 zero_insn = Some (True, ir)
     \<and> i_rd ir = 15 \<and> regs_ok ir \<and> i_rs1 ir \<le> 15"
proof -
  define f where "f = default_features\<lparr>RV32E := True\<rparr>"
  define ir where "ir = zero_insn\<lparr>i_imm := 12, i_rs1 := 2, i_rd := 15, i_opcode := Base rv_insn_lw\<rparr>"
  have "rv_decode f 0x00C12783 zero_insn = Some (True, ir)"
    unfolding f_def ir_def by code_simp
  moreover have "drop_bit 2 (0x00C12783 AND INSN_6_2) \<notin> {1, 9, 20}" "RV32E f"
    by (simp_all add: masks f_def)
  ultimately show ?thesis
    using decode_regs_in_bounds[of f "0x00C12783" True ir]
    unfolding f_def[symmetric] by (intro exI[of _ ir]) (simp add: ir_def)
qed

section \<open>Opcodes and the built-in extensions\<close>

text \<open>The feature macro that guards an opcode in the instruction list and in the decoder.\<close>

definition zb_built :: "features \<Rightarrow> rv_zb \<Rightarrow> bool" where
  "zb_built f z =
     (if z \<in> {rv_insn_sh1add, rv_insn_sh2add, rv_insn_sh3add} then Zba f
      else if z \<in> {rv_insn_clmul, rv_insn_clmulh, rv_insn_clmulr} then Zbc f
      else if z \<in> {rv_insn_bclr, rv_insn_bclri, rv_insn_bext, rv_insn_bexti, rv_insn_binv,
                  rv_insn_binvi, rv_insn_bset, rv_insn_bseti} then Zbs f
      else Zbb f)"

definition built :: "features \<Rightarrow> rv_opcode \<Rightarrow> bool" where
  "built f op = (case op of
     Base b \<Rightarrow> True
   | Priv p \<Rightarrow> p = rv_insn_sret \<longrightarrow> SYSTEM f
   | Zi z \<Rightarrow> if z = rv_insn_fencei then Zifencei f else Zicsr f
   | Zb z \<Rightarrow> zb_built f z
   | RvM _ \<Rightarrow> EXT_M f
   | RvA _ \<Rightarrow> EXT_A f
   | RvF _ \<Rightarrow> EXT_F f
   | RvC c \<Rightarrow> EXT_C f \<and> \<not> EXT_TT f
       \<and> (c \<in> {rv_insn_cflw, rv_insn_cfsw, rv_insn_cflwsp, rv_insn_cfswsp} \<longrightarrow> EXT_F f)
   | rv_insn_ttinsn \<Rightarrow> False
   | Fused _ \<Rightarrow> False)"

abbreviation full :: "features \<Rightarrow> rv_insn \<Rightarrow> bool" where
  "full f ir \<equiv> built f (i_opcode ir) \<and> insn_len (i_opcode ir) = 4"

abbreviation half :: "features \<Rightarrow> rv_insn \<Rightarrow> bool" where
  "half f ir \<equiv> built f (i_opcode ir) \<and> (insn_len (i_opcode ir) = 2 \<or> i_opcode ir = Base rv_insn_ebreak)"

lemma map_of_leaves:
  "map_of arms k = Some op \<Longrightarrow> \<forall>op \<in> snd ` set arms. P op \<Longrightarrow> P op"
  by (metis map_of_SomeD image_eqI snd_conv)

lemma leaves_switch:
  "P ir \<Longrightarrow> \<forall>op \<in> snd ` set arms. P (ir\<lparr>i_opcode := op\<rparr>) \<Longrightarrow> leaves P (switch arms k ir)"
  unfolding switch_def
  by (auto split: option.splits dest: map_of_leaves[where P = "\<lambda>op. P (ir\<lparr>i_opcode := op\<rparr>)"])

lemma built_simps [simp]:
  "built f (Base b)"
  "built f (Priv p) = (p = rv_insn_sret \<longrightarrow> SYSTEM f)"
  "built f (Zi z) = (if z = rv_insn_fencei then Zifencei f else Zicsr f)"
  "built f (Zb y) = zb_built f y"
  "built f (RvM m) = EXT_M f"
  "built f (RvA a) = EXT_A f"
  "built f (RvF x) = EXT_F f"
  "built f (RvC c) = (EXT_C f \<and> \<not> EXT_TT f
     \<and> (c \<in> {rv_insn_cflw, rv_insn_cfsw, rv_insn_cflwsp, rv_insn_cfswsp} \<longrightarrow> EXT_F f))"
  by (simp_all add: built_def)

lemma insn_len_simps [simp]:
  "insn_len (Base b) = 4" "insn_len (Priv p) = 4" "insn_len (Zi z) = 4" "insn_len (Zb y) = 4"
  "insn_len (RvM m) = 4" "insn_len (RvA a) = 4" "insn_len (RvF x) = 4" "insn_len (RvC c) = 2"
  by (simp_all add: insn_len_def)

lemma op_imm_full:
  "full f ir \<Longrightarrow> leaves (full f) (op_imm_slli f ir)"
  "full f ir \<Longrightarrow> leaves (full f) (op_imm_srli f ir)"
  by (auto simp: op_imm_slli_def op_imm_srli_def Let_def zb_built_def)

lemma op_arms_full: "\<forall>op \<in> snd ` set (op_arms f). full f (ir\<lparr>i_opcode := op\<rparr>)"
  by (auto simp: op_arms_def zb_built_def only_if_def)

lemma op_system_full: "full f ir \<Longrightarrow> leaves (full f) (op_system f insn ir)"
  unfolding op_system_def Let_def
  by (auto split: option.splits if_splits simp: only_if_def formats dest!: map_of_SomeD)

lemma formats_opcode [simp]:
  "i_opcode (decode_itype insn ir) = i_opcode ir"
  "i_opcode (decode_stype insn ir) = i_opcode ir"
  "i_opcode (decode_btype insn ir) = i_opcode ir"
  "i_opcode (decode_jtype insn ir) = i_opcode ir"
  "i_opcode (decode_utype insn ir) = i_opcode ir"
  "i_opcode (decode_rtype insn ir) = i_opcode ir"
  "i_opcode (decode_r4type insn ir) = i_opcode ir"
  by (simp_all add: formats)

lemma op_32_full:
  assumes "full f ir"
  shows "leaves (full f) (op_load f insn ir)" "leaves (full f) (op_misc_mem f insn ir)"
    "leaves (full f) (op_op_imm f insn ir)" "leaves (full f) (op_auipc f insn ir)"
    "leaves (full f) (op_store f insn ir)" "leaves (full f) (op_op f insn ir)"
    "leaves (full f) (op_lui f insn ir)" "leaves (full f) (op_branch f insn ir)"
    "leaves (full f) (op_jalr f insn ir)" "leaves (full f) (op_jal f insn ir)"
    "leaves (full f) (op_unimp f insn ir)"
    "EXT_A f \<Longrightarrow> leaves (full f) (op_amo f insn ir)"
    "EXT_F f \<Longrightarrow> leaves (full f) (op_load_fp f insn ir)"
    "EXT_F f \<Longrightarrow> leaves (full f) (op_store_fp f insn ir)"
    "EXT_F f \<Longrightarrow> leaves (full f) (op_madd f insn ir)"
    "EXT_F f \<Longrightarrow> leaves (full f) (op_msub f insn ir)"
    "EXT_F f \<Longrightarrow> leaves (full f) (op_nmadd f insn ir)"
    "EXT_F f \<Longrightarrow> leaves (full f) (op_nmsub f insn ir)"
    "EXT_F f \<Longrightarrow> leaves (full f) (op_op_fp f insn ir)"
  using assms
  by (auto simp: decoders_32 Let_def zb_built_def only_if_def
      intro!: leaves_switch op_imm_full op_arms_full)

text \<open>A property of every accepted node.\<close>

definition accepts :: "(rv_insn \<Rightarrow> bool) \<Rightarrow> decoded \<Rightarrow> bool" where
  "accepts P r = (\<forall>ir. r = Some (True, ir) \<longrightarrow> P ir)"

lemma accepts_simps [simp]:
  "accepts P None"
  "accepts P (legal ir op) = P (ir\<lparr>i_opcode := op\<rparr>)"
  "accepts P (illegal ir)"
  by (auto simp: accepts_def legal_def illegal_def)

lemma table_16_half:
  "d \<in> set (rvc_jump_table f) \<Longrightarrow> EXT_C f \<Longrightarrow> \<not> EXT_TT f \<Longrightarrow> accepts (half f) (d f insn ir)"
  by (auto simp: rvc_jump_table_def if_built_def decoders_16 Let_def split: option.splits
      dest!: map_of_SomeD)

lemma table_32_full:
  "d \<in> set (rv_jump_table f) \<Longrightarrow> full f ir \<Longrightarrow> leaves (full f) (d f insn ir)"
  by (auto simp: rv_jump_table_def if_built_def op_32_full op_system_full)

lemma rv32e_check_accepted:
  "rv32e_check f fp r = Some (True, ir) \<Longrightarrow> r = Some (True, ir)"
  by (auto simp: rv32e_check_def split: if_splits)

text \<open>
  C22: an accepted instruction belongs to an extension that is built in, and the length by which the
  interpreter advances the program counter for its opcode is the length of its encoding: 4 bytes for
  a 32-bit word, 2 bytes for a compressed one, with C.EBREAK, which shares the opcode of EBREAK, as
  the only exception.
\<close>

theorem decode_opcode_built:
  assumes "rv_decode f insn zero_insn = Some (True, ir)"
    and "is_compressed f insn \<Longrightarrow> EXT_C f"
  shows "built f (i_opcode ir) \<and> (i_opcode ir \<noteq> Base rv_insn_ebreak \<longrightarrow>
    insn_len (i_opcode ir) = (if is_compressed f insn then 2 else 4))"
proof (cases rule: rv_decode_cases[of f insn zero_insn])
  case tt
  then show ?thesis using assms(1) by (auto simp: illegal_def dest: rv32e_check_accepted[OF sym])
next
  case (rvc d)
  then have "d f (insn AND 0xFFFF) zero_insn = Some (True, ir)"
    using assms(1) rv32e_check_accepted by metis
  moreover have "accepts (half f) (d f (insn AND 0xFFFF) zero_insn)"
    using rvc by (intro table_16_half) (auto simp: is_compressed_def)
  ultimately show ?thesis using rvc(3) by (auto simp: accepts_def)
next
  case (rv32 d)
  then have "d f insn zero_insn = Some (True, ir)"
    using assms(1) rv32e_check_accepted by metis
  moreover have "leaves (full f) (d f insn zero_insn)"
    by (rule table_32_full[OF rv32(3)]) (simp add: zero_insn_def)
  ultimately show ?thesis using rv32(2) assms(2) by auto
qed

text \<open>C.ADDI x8, -1 on the build with compressed instructions and without the Tensix extension.\<close>

theorem decode_opcode_built_witness:
  "rv_decode rvc_features 0x147D zero_insn
     = Some (True, zero_insn\<lparr>i_rd := 8, i_imm := - 1, i_opcode := RvC rv_insn_caddi\<rparr>)
   \<and> built rvc_features (RvC rv_insn_caddi) \<and> is_compressed rvc_features 0x147D"
proof -
  have *: "rv_decode rvc_features 0x147D zero_insn
     = Some (True, zero_insn\<lparr>i_rd := 8, i_imm := - 1, i_opcode := RvC rv_insn_caddi\<rparr>)"
    by code_simp
  moreover have "is_compressed rvc_features 0x147D" "EXT_C rvc_features"
    by code_simp+
  ultimately show ?thesis
    using decode_opcode_built[OF *] by simp
qed

end
