(* ===== verification/Rv_Machine.thy ===== *)
theory Rv_Machine
  imports Decode
begin

text \<open>
  The state of a RISC-V core, \<^verbatim>\<open>struct riscv_internal\<close> of \<^verbatim>\<open>riscv_private.h\<close>, its I/O interface
  \<^verbatim>\<open>riscv_io_t\<close>, the trap handler and the access to control and status registers of
  \<^verbatim>\<open>emulate.c\<close>, in the default build (no \<^verbatim>\<open>SYSTEM\<close>, \<^verbatim>\<open>JIT\<close> or \<^verbatim>\<open>GDBSTUB\<close>).

  The register files are functions of the register number.  Everything the I/O callbacks reach through
  \<^verbatim>\<open>rv->data\<close> and \<^verbatim>\<open>rv->tensix\<close> is the component \<^verbatim>\<open>env\<close>, whose type is a parameter: the
  callbacks are function pointers in the source too.  A word store may fail an assertion, so its
  result is an option.  The two variables of the floating-point library, its rounding mode and its
  sticky flags, are global in the source; like \<^verbatim>\<open>env\<close> they are shared by the cores of a process and
  travel with the core that runs.  The translated blocks are not part of this record.
\<close>

section \<open>The core\<close>

record 'e riscv =
  halt :: bool
  X :: "u8 \<Rightarrow> u32"
  PC :: u32
  timer :: u64
  F :: "u8 \<Rightarrow> u32"
  csr_fcsr :: u32
  csr_cycle :: u64
  csr_time0 :: u32
  csr_time1 :: u32
  csr_mstatus :: u32
  csr_mtvec :: u32
  csr_misa :: u32
  csr_mtval :: u32
  csr_mcause :: u32
  csr_mscratch :: u32
  csr_mepc :: u32
  csr_mip :: u32
  csr_mie :: u32
  csr_mideleg :: u32
  csr_medeleg :: u32
  csr_sstatus :: u32
  csr_stvec :: u32
  csr_sip :: u32
  csr_sie :: u32
  csr_scounteren :: u32
  csr_sscratch :: u32
  csr_sepc :: u32
  csr_scause :: u32
  csr_stval :: u32
  csr_satp :: u32
  priv_mode :: u32
  compressed :: bool
  last_pc :: u32
  is_branch_taken :: bool
  has_tensix :: bool
  core_id :: int
  pre_pc :: u32
  allow_misalign :: bool
  softfloat_roundingMode :: u8
  softfloat_exceptionFlags :: u8
  env :: 'e

record 'e riscv_io =
  mem_ifetch :: "'e riscv \<Rightarrow> u32 \<Rightarrow> u32"
  mem_read_w :: "'e riscv \<Rightarrow> u32 \<Rightarrow> u32 \<times> 'e"
  mem_read_s :: "'e riscv \<Rightarrow> u32 \<Rightarrow> u16"
  mem_read_b :: "'e riscv \<Rightarrow> u32 \<Rightarrow> u8"
  mem_write_w :: "'e riscv \<Rightarrow> u32 \<Rightarrow> u32 \<Rightarrow> 'e option"
  mem_write_s :: "'e riscv \<Rightarrow> u32 \<Rightarrow> u16 \<Rightarrow> 'e"
  mem_write_b :: "'e riscv \<Rightarrow> u32 \<Rightarrow> u8 \<Rightarrow> 'e"
  on_ecall :: "'e riscv \<Rightarrow> 'e riscv"

definition setX :: "u8 \<Rightarrow> u32 \<Rightarrow> 'e riscv \<Rightarrow> 'e riscv" where
  "setX r v rv = rv\<lparr>X := (X rv)(r := v)\<rparr>"

definition setF :: "u8 \<Rightarrow> u32 \<Rightarrow> 'e riscv \<Rightarrow> 'e riscv" where
  "setF r v rv = rv\<lparr>F := (F rv)(r := v)\<rparr>"

lemma X_setX [simp]: "X (setX r v rv) q = (if q = r then v else X rv q)"
  by (simp add: setX_def)

definition rv_set_pc :: "u32 \<Rightarrow> 'e riscv \<Rightarrow> bool \<times> 'e riscv" where
  "rv_set_pc pc rv = (if pc AND 1 \<noteq> 0 then (False, rv) else (True, rv\<lparr>PC := pc\<rparr>))"

definition rv_set_reg :: "u32 \<Rightarrow> u32 \<Rightarrow> 'e riscv \<Rightarrow> 'e riscv" where
  "rv_set_reg reg v rv = (if reg < 32 \<and> reg \<noteq> 0 then setX (ucast reg) v rv else rv)"

definition rv_get_reg :: "u32 \<Rightarrow> 'e riscv \<Rightarrow> u32" where
  "rv_get_reg reg rv = (if reg < 32 then X rv (ucast reg) else - 1)"

text \<open>A core as \<^verbatim>\<open>rv_new\<close> allocates it: every field zero, in particular the privilege mode (user mode).\<close>

definition zero_riscv :: "'e \<Rightarrow> 'e riscv" where
  "zero_riscv e = \<lparr>halt = False, X = (\<lambda>_. 0), PC = 0, timer = 0, F = (\<lambda>_. 0), csr_fcsr = 0,
     csr_cycle = 0, csr_time0 = 0, csr_time1 = 0, csr_mstatus = 0, csr_mtvec = 0, csr_misa = 0,
     csr_mtval = 0, csr_mcause = 0, csr_mscratch = 0, csr_mepc = 0, csr_mip = 0, csr_mie = 0,
     csr_mideleg = 0, csr_medeleg = 0, csr_sstatus = 0, csr_stvec = 0, csr_sip = 0, csr_sie = 0,
     csr_scounteren = 0, csr_sscratch = 0, csr_sepc = 0, csr_scause = 0, csr_stval = 0, csr_satp = 0,
     priv_mode = 0, compressed = False, last_pc = 0, is_branch_taken = False, has_tensix = False, core_id = 0, pre_pc = 0,
     allow_misalign = False, softfloat_roundingMode = 0, softfloat_exceptionFlags = 0, env = e\<rparr>"

section \<open>Traps\<close>

definition ILLEGAL_INSN :: u32 where "ILLEGAL_INSN = 2"
definition BREAKPOINT :: u32 where "BREAKPOINT = 3"
definition LOAD_MISALIGNED :: u32 where "LOAD_MISALIGNED = 4"
definition STORE_MISALIGNED :: u32 where "STORE_MISALIGNED = 6"
definition ECALL_M :: u32 where "ECALL_M = 11"

definition is_U_or_S :: "'e riscv \<Rightarrow> bool" where
  "is_U_or_S rv = (priv_mode rv \<le> 1)"

definition rv_trap_default_handler :: "'e riscv \<Rightarrow> 'e riscv" where
  "rv_trap_default_handler rv =
     (let e = csr_mepc rv + (if compressed rv then 2 else 4) in rv\<lparr>csr_mepc := e, PC := e\<rparr>)"

text \<open>The switch on the vector mode: 0 is direct, 1 is vectored, the reserved modes leave the program
  counter alone.\<close>

definition trap_vector :: "u32 \<Rightarrow> u32 \<Rightarrow> 'e riscv \<Rightarrow> 'e riscv" where
  "trap_vector tvec cause rv =
     (let base = tvec AND NOT 0x3; mode = tvec AND 0x3 in
      if mode = 0 then rv\<lparr>PC := base\<rparr>
      else if mode = 1 then rv\<lparr>PC := base + 4 * (cause AND 0x7FFFFFFF)\<rparr>
      else rv)"

definition trap_to_S :: "'e riscv \<Rightarrow> 'e riscv" where
  "trap_to_S rv =
     (let sie = drop_bit 1 (csr_sstatus rv AND 0x2);
          st = ((csr_sstatus rv OR push_bit 5 sie) AND NOT 0x2) OR push_bit 8 (priv_mode rv) in
      trap_vector (csr_stvec rv) (csr_scause rv)
        (rv\<lparr>csr_sstatus := st, priv_mode := 1, csr_sepc := PC rv\<rparr>))"

text \<open>The status register after a trap to machine mode from privilege \<^term>\<open>pm\<close>: MPIE receives MIE, MIE
  is cleared and MPP receives the privilege.\<close>

definition trap_mstatus :: "u32 \<Rightarrow> u32 \<Rightarrow> u32" where
  "trap_mstatus st pm =
     (let mie = drop_bit 3 (st AND 0x8) in
      ((st OR push_bit 7 mie) AND NOT 0x8) OR push_bit 11 pm)"

definition trap_to_M :: "'e riscv \<Rightarrow> 'e riscv" where
  "trap_to_M rv =
     (let st = trap_mstatus (csr_mstatus rv) (priv_mode rv);
          rv' = rv\<lparr>csr_mstatus := st, priv_mode := 3, csr_mepc := PC rv\<rparr> in
      if csr_mtvec rv = 0 then rv_trap_default_handler rv'
      else trap_vector (csr_mtvec rv) (csr_mcause rv) rv')"

definition trap_handler :: "'e riscv \<Rightarrow> 'e riscv" where
  "trap_handler rv = (if is_U_or_S rv then trap_to_S rv else trap_to_M rv)"

text \<open>The macro \<^verbatim>\<open>SET_CAUSE_AND_TVAL_THEN_TRAP\<close>.\<close>

definition set_cause_and_tval_then_trap :: "u32 \<Rightarrow> u32 \<Rightarrow> 'e riscv \<Rightarrow> 'e riscv" where
  "set_cause_and_tval_then_trap cause tval rv =
     trap_handler (if is_U_or_S rv then rv\<lparr>csr_scause := cause, csr_stval := tval\<rparr>
                   else rv\<lparr>csr_mcause := cause, csr_mtval := tval\<rparr>)"

definition ebreak_handler :: "'e riscv \<Rightarrow> 'e riscv" where
  "ebreak_handler rv = set_cause_and_tval_then_trap BREAKPOINT (PC rv) rv"

text \<open>The environment call traps and then also runs the host's system-call handler, a parameter.\<close>

definition ecall_handler :: "('e riscv \<Rightarrow> 'e riscv) \<Rightarrow> 'e riscv \<Rightarrow> 'e riscv" where
  "ecall_handler syscall_handler rv = syscall_handler (set_cause_and_tval_then_trap ECALL_M 0 rv)"

text \<open>The return from a machine-mode trap, the body of \<^verbatim>\<open>RVOP(mret)\<close>.\<close>

definition mret_mstatus :: "u32 \<Rightarrow> u32 \<times> u32" where
  "mret_mstatus st =
     (let pm = drop_bit 11 (st AND 0x1800);
          st = st AND NOT 0x1800;
          mpie = drop_bit 7 (st AND 0x80);
          st = (st OR push_bit 3 mpie) OR 0x80 in (pm, st))"

definition mret :: "'e riscv \<Rightarrow> 'e riscv" where
  "mret rv =
     (case mret_mstatus (csr_mstatus rv) of (pm, st) \<Rightarrow>
        rv\<lparr>priv_mode := pm, csr_mstatus := st, PC := csr_mepc rv\<rparr>)"

section \<open>Properties\<close>

lemma mstatus_bits:
  "fst (mret_mstatus (trap_mstatus st 3)) = 3"
  "bit (snd (mret_mstatus (trap_mstatus st 3))) 3 \<longleftrightarrow> bit st 3 \<or> bit st 7"
  "\<not> bit (trap_mstatus st pm) 3"
proof -
  show "fst (mret_mstatus (trap_mstatus st 3)) = 3"
    unfolding mret_mstatus_def trap_mstatus_def Let_def fst_conv by (rule u32_eqI) (simp add: bit_simps)
qed (auto simp: mret_mstatus_def trap_mstatus_def Let_def bit_simps)

lemma trap_vector_frame [simp]:
  "X (trap_vector t c rv) = X rv" "F (trap_vector t c rv) = F rv" "env (trap_vector t c rv) = env rv"
  "csr_mepc (trap_vector t c rv) = csr_mepc rv" "csr_mstatus (trap_vector t c rv) = csr_mstatus rv"
  "priv_mode (trap_vector t c rv) = priv_mode rv" "csr_mcause (trap_vector t c rv) = csr_mcause rv"
  "csr_mtval (trap_vector t c rv) = csr_mtval rv"
  by (simp_all add: trap_vector_def Let_def)

text \<open>
  C33: a trap taken in machine mode with a configured vector records the program counter, the cause and
  the trap value, disables interrupts and goes to the vector; \<^verbatim>\<open>mret\<close> then resumes at the trapped
  instruction in machine mode with the integer and floating-point registers and the memory untouched.
  In vectored mode every trap goes to its own entry, exceptions included: the code does not look at the
  interrupt bit of the cause, although its comment, like the manual, has only asynchronous traps vectored.
  The interrupt enable that \<^verbatim>\<open>mret\<close> restores is the disjunction of the old MIE and the old MPIE bit, because the
  handler sets MPIE but never clears it: interrupts that were disabled are enabled after the return
  whenever MPIE was left set by an earlier return.
\<close>

theorem trap_mret_returns:
  fixes cause tval :: u32
  assumes "priv_mode rv = 3" "csr_mtvec rv \<noteq> 0"
  defines "rv' \<equiv> set_cause_and_tval_then_trap cause tval rv"
  shows "csr_mepc rv' = PC rv \<and> csr_mcause rv' = cause \<and> csr_mtval rv' = tval
    \<and> \<not> bit (csr_mstatus rv') 3 \<and> priv_mode rv' = 3
    \<and> (csr_mtvec rv AND 3 = 0 \<longrightarrow> PC rv' = csr_mtvec rv AND NOT 3)
    \<and> (csr_mtvec rv AND 3 = 1 \<longrightarrow> PC rv' = (csr_mtvec rv AND NOT 3) + 4 * (cause AND 0x7FFFFFFF))
    \<and> PC (mret rv') = PC rv \<and> priv_mode (mret rv') = 3
    \<and> X (mret rv') = X rv \<and> F (mret rv') = F rv \<and> env (mret rv') = env rv
    \<and> (bit (csr_mstatus (mret rv')) 3 \<longleftrightarrow> bit (csr_mstatus rv) 3 \<or> bit (csr_mstatus rv) 7)"
proof -
  have M: "\<not> is_U_or_S (rv\<lparr>csr_mcause := c, csr_mtval := t\<rparr>)" "\<not> is_U_or_S rv" for c t
    by (simp_all add: is_U_or_S_def assms(1) word_le_nat_alt)
  have *: "rv' = trap_vector (csr_mtvec rv) cause (rv\<lparr>csr_mcause := cause, csr_mtval := tval,
      csr_mstatus := trap_mstatus (csr_mstatus rv) 3, priv_mode := 3, csr_mepc := PC rv\<rparr>)"
    using assms(2) unfolding rv'_def
    by (simp add: set_cause_and_tval_then_trap_def trap_handler_def trap_to_M_def Let_def M assms(1))
  show ?thesis
    unfolding * by (auto simp: mret_def mstatus_bits case_prod_beta) (simp_all add: trap_vector_def Let_def)
qed

theorem trap_mret_returns_witness:
  "let rv = (zero_riscv ())\<lparr>priv_mode := 3, csr_mtvec := 0x8001, PC := 0x1234, csr_mstatus := 0x80\<rparr>;
       rv' = set_cause_and_tval_then_trap ILLEGAL_INSN 7 rv in
   PC rv' = 0x8008 \<and> csr_mepc rv' = 0x1234 \<and> csr_mcause rv' = 2 \<and> csr_mtval rv' = 7
   \<and> PC (mret rv') = 0x1234 \<and> bit (csr_mstatus (mret rv')) 3"
  using trap_mret_returns[of "(zero_riscv ())\<lparr>priv_mode := 3, csr_mtvec := 0x8001, PC := 0x1234,
      csr_mstatus := 0x80\<rparr>" ILLEGAL_INSN 7]
  by (simp add: Let_def ILLEGAL_INSN_def bit_simps)

end
