(* ===== verification/Cells.thy ===== *)
theory Cells
  imports Prelude
begin

text \<open>
  The contract of a bank of registers: cells indexed by a key, each of which can be read and written
  independently of the others.  The control and status registers and the integer registers of the
  RISC-V core are interpretations of it.
\<close>

locale cells =
  fixes get :: "'k \<Rightarrow> 's \<Rightarrow> 'v" and put :: "'k \<Rightarrow> 'v \<Rightarrow> 's \<Rightarrow> 's"
  assumes get_put_same: "get k (put k v s) = v"
    and get_put_other: "k \<noteq> j \<Longrightarrow> get j (put k v s) = get j s"
begin

text \<open>The read-modify-write of a cell with a combining function.\<close>

definition rmw :: "('v \<Rightarrow> 'v \<Rightarrow> 'v) \<Rightarrow> 'k \<Rightarrow> 'v \<Rightarrow> 's \<Rightarrow> 'v \<times> 's" where
  "rmw g k v s = (get k s, put k (g (get k s) v) s)"

lemma get_put: "get j (put k v s) = (if j = k then v else get j s)"
  by (simp add: get_put_same get_put_other)

lemma rmw_get:
  assumes "rmw g k v s = (old, s')"
  shows "old = get k s" "get j s' = (if j = k then g old v else get j s)"
  using assms by (auto simp: rmw_def get_put)

text \<open>Swapping a value in and the old one back leaves every cell as it was.\<close>

lemma swap_swap:
  assumes "rmw (\<lambda>_ v. v) k v s = (old, s1)" "rmw (\<lambda>_ v. v) k old s1 = (v', s2)"
  shows "v' = v" "get j s2 = get j s"
  using assms by (auto simp: rmw_def get_put)

text \<open>Two writes to different cells can be exchanged, as far as reading the cells goes.\<close>

lemma put_put_get:
  "k \<noteq> l \<Longrightarrow> get j (put k v (put l w s)) = get j (put l w (put k v s))"
  by (simp add: get_put)

end

end
