(* ===== verification/Rv_Csr.thy ===== *)
theory Rv_Csr
  imports Rv_Machine Cells
begin

text \<open>
  Control and status registers: \<^verbatim>\<open>csr_get_ptr\<close> and the three read-modify-write operations of
  \<^verbatim>\<open>emulate.c\<close>.  The pointer \<^verbatim>\<open>csr_get_ptr\<close> returns is a value of \<^verbatim>\<open>csr_ref\<close>, the name of the field
  it points into, with \<^verbatim>\<open>csr_load\<close> and \<^verbatim>\<open>csr_store\<close> as its dereference; the two halves of the 64-bit
  cycle counter are two such names.
\<close>

section \<open>Model\<close>

datatype csr_ref =
    MSTATUS | MTVEC | MISA | MEDELEG | MIDELEG | MSCRATCH | MEPC | MCAUSE | MTVAL | MIP
  | CYCLE | CYCLEH | TIME | TIMEH | FCSR
  | SSTATUS | SIE | STVEC | SCOUNTEREN | SSCRATCH | SEPC | SCAUSE | STVAL | SIP | SATP

definition update_time :: "'e riscv \<Rightarrow> 'e riscv" where
  "update_time rv = rv\<lparr>csr_time0 := ucast (timer rv AND 0xFFFFFFFF),
     csr_time1 := ucast (drop_bit 32 (timer rv))\<rparr>"

text \<open>The number of each register; FFLAGS and FCSR are the same field, and so are CYCLE and INSTRET.\<close>

definition csr_table :: "(u32 \<times> csr_ref) list" where
  "csr_table =
     [(0x300, MSTATUS), (0x305, MTVEC), (0x301, MISA), (0x302, MEDELEG), (0x303, MIDELEG),
      (0x340, MSCRATCH), (0x341, MEPC), (0x342, MCAUSE), (0x343, MTVAL), (0x344, MIP),
      (0xC00, CYCLE), (0xC80, CYCLEH), (0xC01, TIME), (0xC81, TIMEH), (0xC02, CYCLE),
      (0xC82, CYCLEH), (0x001, FCSR), (0x003, FCSR), (0x100, SSTATUS), (0x104, SIE), (0x105, STVEC),
      (0x106, SCOUNTEREN), (0x140, SSCRATCH), (0x141, SEPC), (0x142, SCAUSE), (0x143, STVAL),
      (0x144, SIP), (0x180, SATP)]"

definition csr_get_ptr :: "u32 \<Rightarrow> 'e riscv \<Rightarrow> csr_ref option \<times> 'e riscv" where
  "csr_get_ptr csr rv =
     (let p = map_of csr_table (csr AND 0xFFF) in
      (p, if p \<in> {Some TIME, Some TIMEH} then update_time rv else rv))"

primrec csr_load :: "csr_ref \<Rightarrow> 'e riscv \<Rightarrow> u32" where
  "csr_load MSTATUS rv = csr_mstatus rv"
| "csr_load MTVEC rv = csr_mtvec rv"
| "csr_load MISA rv = csr_misa rv"
| "csr_load MEDELEG rv = csr_medeleg rv"
| "csr_load MIDELEG rv = csr_mideleg rv"
| "csr_load MSCRATCH rv = csr_mscratch rv"
| "csr_load MEPC rv = csr_mepc rv"
| "csr_load MCAUSE rv = csr_mcause rv"
| "csr_load MTVAL rv = csr_mtval rv"
| "csr_load MIP rv = csr_mip rv"
| "csr_load CYCLE rv = ucast (csr_cycle rv)"
| "csr_load CYCLEH rv = ucast (drop_bit 32 (csr_cycle rv))"
| "csr_load TIME rv = csr_time0 rv"
| "csr_load TIMEH rv = csr_time1 rv"
| "csr_load FCSR rv = csr_fcsr rv"
| "csr_load SSTATUS rv = csr_sstatus rv"
| "csr_load SIE rv = csr_sie rv"
| "csr_load STVEC rv = csr_stvec rv"
| "csr_load SCOUNTEREN rv = csr_scounteren rv"
| "csr_load SSCRATCH rv = csr_sscratch rv"
| "csr_load SEPC rv = csr_sepc rv"
| "csr_load SCAUSE rv = csr_scause rv"
| "csr_load STVAL rv = csr_stval rv"
| "csr_load SIP rv = csr_sip rv"
| "csr_load SATP rv = csr_satp rv"

primrec csr_store :: "csr_ref \<Rightarrow> u32 \<Rightarrow> 'e riscv \<Rightarrow> 'e riscv" where
  "csr_store MSTATUS v rv = rv\<lparr>csr_mstatus := v\<rparr>"
| "csr_store MTVEC v rv = rv\<lparr>csr_mtvec := v\<rparr>"
| "csr_store MISA v rv = rv\<lparr>csr_misa := v\<rparr>"
| "csr_store MEDELEG v rv = rv\<lparr>csr_medeleg := v\<rparr>"
| "csr_store MIDELEG v rv = rv\<lparr>csr_mideleg := v\<rparr>"
| "csr_store MSCRATCH v rv = rv\<lparr>csr_mscratch := v\<rparr>"
| "csr_store MEPC v rv = rv\<lparr>csr_mepc := v\<rparr>"
| "csr_store MCAUSE v rv = rv\<lparr>csr_mcause := v\<rparr>"
| "csr_store MTVAL v rv = rv\<lparr>csr_mtval := v\<rparr>"
| "csr_store MIP v rv = rv\<lparr>csr_mip := v\<rparr>"
| "csr_store CYCLE v rv = rv\<lparr>csr_cycle := word_cat (ucast (drop_bit 32 (csr_cycle rv)) :: u32) v\<rparr>"
| "csr_store CYCLEH v rv = rv\<lparr>csr_cycle := word_cat v (ucast (csr_cycle rv) :: u32)\<rparr>"
| "csr_store TIME v rv = rv\<lparr>csr_time0 := v\<rparr>"
| "csr_store TIMEH v rv = rv\<lparr>csr_time1 := v\<rparr>"
| "csr_store FCSR v rv = rv\<lparr>csr_fcsr := v\<rparr>"
| "csr_store SSTATUS v rv = rv\<lparr>csr_sstatus := v\<rparr>"
| "csr_store SIE v rv = rv\<lparr>csr_sie := v\<rparr>"
| "csr_store STVEC v rv = rv\<lparr>csr_stvec := v\<rparr>"
| "csr_store SCOUNTEREN v rv = rv\<lparr>csr_scounteren := v\<rparr>"
| "csr_store SSCRATCH v rv = rv\<lparr>csr_sscratch := v\<rparr>"
| "csr_store SEPC v rv = rv\<lparr>csr_sepc := v\<rparr>"
| "csr_store SCAUSE v rv = rv\<lparr>csr_scause := v\<rparr>"
| "csr_store STVAL v rv = rv\<lparr>csr_stval := v\<rparr>"
| "csr_store SIP v rv = rv\<lparr>csr_sip := v\<rparr>"
| "csr_store SATP v rv = rv\<lparr>csr_satp := v\<rparr>"

text \<open>The common shape of the three operations: fetch the pointer, read, mask the result for FFLAGS and
  write the combination of the old value and the operand.  An unknown register reads as 0 and ignores
  the write.\<close>

definition csr_rmw :: "(u32 \<Rightarrow> u32 \<Rightarrow> u32) \<Rightarrow> u32 \<Rightarrow> u32 \<Rightarrow> 'e riscv \<Rightarrow> u32 \<times> 'e riscv" where
  "csr_rmw g csr val rv = (case csr_get_ptr csr rv of
     (None, rv) \<Rightarrow> (0, rv)
   | (Some c, rv) \<Rightarrow>
       let out = csr_load c rv in
       (if csr = 0x001 then out AND 0x1F else out, csr_store c (g out val) rv))"

definition csr_csrrw :: "u32 \<Rightarrow> u32 \<Rightarrow> 'e riscv \<Rightarrow> u32 \<times> 'e riscv" where
  "csr_csrrw = csr_rmw (\<lambda>old val. val)"

definition csr_csrrs :: "u32 \<Rightarrow> u32 \<Rightarrow> 'e riscv \<Rightarrow> u32 \<times> 'e riscv" where
  "csr_csrrs = csr_rmw (\<lambda>old val. old OR val)"

definition csr_csrrc :: "u32 \<Rightarrow> u32 \<Rightarrow> 'e riscv \<Rightarrow> u32 \<times> 'e riscv" where
  "csr_csrrc = csr_rmw (\<lambda>old val. old AND NOT val)"

section \<open>The registers are independent cells\<close>

lemma halves_word_cat:
  fixes hi lo :: u32
  shows "ucast (word_cat hi lo :: u64) = lo" "ucast (drop_bit 32 (word_cat hi lo :: u64)) = hi"
  by (rule bit_word_eqI, simp add: bit_simps)+

lemma csr_load_store_same: "csr_load c (csr_store c v rv) = v"
  by (cases c) (simp_all add: halves_word_cat)

lemma csr_load_store_other: "c \<noteq> d \<Longrightarrow> csr_load d (csr_store c v rv) = csr_load d rv"
  by (cases c; cases d; simp add: halves_word_cat)

interpretation csr: cells csr_load csr_store
  by unfold_locales (simp_all add: csr_load_store_same csr_load_store_other)

interpretation xreg: cells "\<lambda>r rv. X rv r" setX
  by unfold_locales simp_all

lemma csr_store_frame [simp]:
  "X (csr_store c v rv) = X rv" "PC (csr_store c v rv) = PC rv" "F (csr_store c v rv) = F rv"
  "env (csr_store c v rv) = env rv" "priv_mode (csr_store c v rv) = priv_mode rv"
  "core_id (csr_store c v rv) = core_id rv"
  by (cases c; simp)+

lemma csr_rmw_cell:
  assumes "map_of csr_table (csr AND 0xFFF) = Some c" "c \<noteq> TIME" "c \<noteq> TIMEH" "csr \<noteq> 0x001"
  shows "csr_rmw g csr v rv = csr.rmw g c v rv"
  using assms by (simp add: csr_rmw_def csr_get_ptr_def csr.rmw_def Let_def)

section \<open>Properties\<close>

text \<open>
  C34: CSRRW is an atomic swap.  For every implemented register except the two halves of the timer and
  the masked view FFLAGS, the first swap returns the register's value and changes no other register;
  swapping the returned value back returns what was written and restores every register.
\<close>

theorem csr_swap_roundtrip:
  assumes "map_of csr_table (csr AND 0xFFF) = Some c" "c \<noteq> TIME" "c \<noteq> TIMEH" "csr \<noteq> 0x001"
    and "csr_csrrw csr v rv = (old, rv1)" "csr_csrrw csr old rv1 = (v', rv2)"
  shows "old = csr_load c rv \<and> v' = v
    \<and> (\<forall>d. csr_load d rv1 = (if d = c then v else csr_load d rv))
    \<and> (\<forall>d. csr_load d rv2 = csr_load d rv) \<and> X rv2 = X rv \<and> PC rv2 = PC rv \<and> env rv2 = env rv"
proof -
  have r1: "csr.rmw (\<lambda>_ v. v) c v rv = (old, rv1)" and r2: "csr.rmw (\<lambda>_ v. v) c old rv1 = (v', rv2)"
    using assms(5,6) by (simp_all add: csr_csrrw_def csr_rmw_cell[OF assms(1-4)])
  show ?thesis
    using csr.rmw_get[OF r1] csr.swap_swap[OF r1 r2] r1 r2 by (auto simp: csr.rmw_def)
qed

theorem csr_swap_roundtrip_witness:
  "\<exists>rv1 rv2. csr_csrrw 0x340 5 ((zero_riscv ())\<lparr>csr_mscratch := 9\<rparr>) = (9, rv1)
     \<and> csr_csrrw 0x340 9 rv1 = (5, rv2) \<and> csr_load MSCRATCH rv1 = 5 \<and> csr_load MSCRATCH rv2 = 9"
proof -
  let ?rv = "(zero_riscv ())\<lparr>csr_mscratch := 9\<rparr>"
  obtain old rv1 where 1: "csr_csrrw 0x340 5 ?rv = (old, rv1)" by fastforce
  obtain v' rv2 where 2: "csr_csrrw 0x340 old rv1 = (v', rv2)" by fastforce
  have c: "map_of csr_table (0x340 AND 0xFFF) = Some MSCRATCH" by (simp add: csr_table_def)
  show ?thesis
    using csr_swap_roundtrip[OF c _ _ _ 1 2] 1 2 csr_load.simps(6)[of ?rv]
    by (auto simp del: csr_load.simps)
qed

end
