(* ===== verification/Rv_Exec.thy ===== *)
theory Rv_Exec
  imports Rv_Csr
begin

text \<open>
  The interpreter's instruction functions: one definition \<^verbatim>\<open>do_<inst>\<close> per \<^verbatim>\<open>RVOP\<close> of
  \<^verbatim>\<open>rv32_template.c\<close>, here the base integer set, the privileged instructions, Zifencei and Zicsr.

  The macro \<^verbatim>\<open>RVOP\<close> of \<^verbatim>\<open>emulate.c\<close> wraps the code of an instruction: it counts a cycle, and at the
  label \<^verbatim>\<open>nextop\<close> advances the program counter and tail-calls the next node of the block.  The local
  variables \<^verbatim>\<open>cycle\<close> and \<^verbatim>\<open>PC\<close> are arguments here as they are there.  How the code leaves is a value of
  \<^verbatim>\<open>outcome\<close>:
  the label \<^verbatim>\<open>nextop\<close>; the label \<^verbatim>\<open>end_op\<close>, which stores both variables and returns true; a direct
  return, with the handler's result; a tail call of the first node of a chained block, named by its
  start address; the lookup of an indirect jump target in the branch history table and the block map;
  or a failed assertion of a memory callback.
\<close>

section \<open>Leaving an instruction\<close>

datatype 'e outcome =
    Nextop "'e riscv" u64 u32
  | End_op "'e riscv" u64 u32
  | Return bool "'e riscv"
  | Tail u32 "'e riscv" u64 u32
  | Lookup "'e riscv" u64 u32
  | Abort

text \<open>The two chain pointers of a node: the start addresses of the blocks they point to.\<close>

record links =
  branch_taken :: "u32 option"
  branch_untaken :: "u32 option"

type_synonym 'e rvop = "links \<Rightarrow> rv_insn \<Rightarrow> u64 \<Rightarrow> u32 \<Rightarrow> 'e riscv \<Rightarrow> 'e outcome"

definition RVOP :: "u32 \<Rightarrow> 'e rvop \<Rightarrow> 'e rvop" where
  "RVOP len code lk ir cycle pc rv =
     (case code lk ir (cycle + 1) pc rv of
        Nextop rv cycle pc \<Rightarrow> Nextop rv cycle (pc + len)
      | r \<Rightarrow> r)"

text \<open>The label \<^verbatim>\<open>end_op\<close>.\<close>

definition end_op :: "'e riscv \<Rightarrow> u64 \<Rightarrow> u32 \<Rightarrow> 'e riscv" where
  "end_op rv cycle pc = rv\<lparr>csr_cycle := cycle, PC := pc\<rparr>"

text \<open>The code of an instruction that only computes a value for its destination register.\<close>

definition set_rd :: "(rv_insn \<Rightarrow> u32 \<Rightarrow> 'e riscv \<Rightarrow> u32) \<Rightarrow> 'e rvop" where
  "set_rd f lk ir cycle pc rv = Nextop (setX (i_rd ir) (f ir pc rv) rv) cycle pc"

definition x1 :: "rv_insn \<Rightarrow> 'e riscv \<Rightarrow> u32" where "x1 ir rv = X rv (i_rs1 ir)"
definition x2 :: "rv_insn \<Rightarrow> 'e riscv \<Rightarrow> u32" where "x2 ir rv = X rv (i_rs2 ir)"

text \<open>\<^verbatim>\<open>if (ir->rd) rv->X[ir->rd] = v\<close>.\<close>

definition setX_nz :: "u8 \<Rightarrow> u32 \<Rightarrow> 'e riscv \<Rightarrow> 'e riscv" where
  "setX_nz r v rv = (if r \<noteq> 0 then setX r v rv else rv)"

text \<open>The macro \<^verbatim>\<open>RV_EXC_MISALIGN_HANDLER\<close> for loads and stores, with the rest of the code as the last
  argument.\<close>

definition exc_misalign ::
  "u32 \<Rightarrow> u32 \<Rightarrow> bool \<Rightarrow> u32 \<Rightarrow> u64 \<Rightarrow> u32 \<Rightarrow> 'e riscv \<Rightarrow> 'e outcome \<Rightarrow> 'e outcome" where
  "exc_misalign msk cause compress addr cycle pc rv rest =
     (if \<not> allow_misalign rv \<and> addr AND msk \<noteq> 0
      then Return False (set_cause_and_tval_then_trap cause addr
             (rv\<lparr>compressed := compress, csr_cycle := cycle, PC := pc\<rparr>))
      else rest)"

text \<open>A word load and the three stores through the I/O callbacks, on the core's environment.\<close>

definition io_read_w :: "'e riscv_io \<Rightarrow> u32 \<Rightarrow> 'e riscv \<Rightarrow> u32 \<times> 'e riscv" where
  "io_read_w io addr rv = (case mem_read_w io rv addr of (v, e) \<Rightarrow> (v, rv\<lparr>env := e\<rparr>))"

definition io_write_w :: "'e riscv_io \<Rightarrow> u32 \<Rightarrow> u32 \<Rightarrow> 'e riscv \<Rightarrow> 'e riscv option" where
  "io_write_w io addr v rv = map_option (\<lambda>e. rv\<lparr>env := e\<rparr>) (mem_write_w io rv addr v)"

definition io_write_s :: "'e riscv_io \<Rightarrow> u32 \<Rightarrow> u32 \<Rightarrow> 'e riscv \<Rightarrow> 'e riscv" where
  "io_write_s io addr v rv = rv\<lparr>env := mem_write_s io rv addr (ucast v)\<rparr>"

definition io_write_b :: "'e riscv_io \<Rightarrow> u32 \<Rightarrow> u32 \<Rightarrow> 'e riscv \<Rightarrow> 'e riscv" where
  "io_write_b io addr v rv = rv\<lparr>env := mem_write_b io rv addr (ucast v)\<rparr>"

definition store_w :: "'e riscv_io \<Rightarrow> u32 \<Rightarrow> u32 \<Rightarrow> u64 \<Rightarrow> u32 \<Rightarrow> 'e riscv \<Rightarrow> 'e outcome" where
  "store_w io addr v cycle pc rv =
     (case io_write_w io addr v rv of None \<Rightarrow> Abort | Some rv \<Rightarrow> Nextop rv cycle pc)"

section \<open>RV32I\<close>

definition do_nop :: "'e rvop" where
  "do_nop = RVOP 4 (\<lambda>lk ir cycle pc rv. Nextop (setX 0 0 rv) cycle pc)"

definition do_lui :: "'e rvop" where
  "do_lui = RVOP 4 (set_rd (\<lambda>ir pc rv. i_imm ir))"

definition do_auipc :: "'e rvop" where
  "do_auipc = RVOP 4 (set_rd (\<lambda>ir pc rv. i_imm ir + pc))"

text \<open>The end of a direct jump: to the chained block if there is one.\<close>

definition jump_taken :: "links \<Rightarrow> u64 \<Rightarrow> u32 \<Rightarrow> 'e riscv \<Rightarrow> 'e outcome" where
  "jump_taken lk cycle pc rv =
     (case branch_taken lk of
        Some b \<Rightarrow> Tail b (rv\<lparr>last_pc := pc\<rparr>) cycle pc
      | None \<Rightarrow> End_op rv cycle pc)"

definition do_jal :: "'e rvop" where
  "do_jal = RVOP 4 (\<lambda>lk ir cycle pc rv.
     jump_taken lk cycle (pc + i_imm ir) (setX_nz (i_rd ir) (pc + 4) rv))"

definition do_jalr :: "'e rvop" where
  "do_jalr = RVOP 4 (\<lambda>lk ir cycle pc rv.
     let target = (x1 ir rv + i_imm ir) AND NOT 1 in
     Lookup (setX_nz (i_rd ir) (pc + 4) rv) cycle target)"

text \<open>The macro \<^verbatim>\<open>BRANCH_FUNC\<close>; its condition is the one for not branching.\<close>

definition branch_func :: "(u32 \<Rightarrow> u32 \<Rightarrow> bool) \<Rightarrow> 'e rvop" where
  "branch_func cond lk ir cycle pc rv =
     (if cond (x1 ir rv) (x2 ir rv) then
        let rv = rv\<lparr>is_branch_taken := False\<rparr> in
        (case branch_untaken lk of
           None \<Rightarrow> Nextop rv cycle pc
         | Some _ \<Rightarrow> End_op rv cycle (pc + 4))
      else
        End_op (rv\<lparr>is_branch_taken := True\<rparr>) cycle (pc + i_imm ir))"

definition do_beq :: "'e rvop" where "do_beq = RVOP 4 (branch_func (\<lambda>x y. x \<noteq> y))"
definition do_bne :: "'e rvop" where "do_bne = RVOP 4 (branch_func (\<lambda>x y. x = y))"
definition do_blt :: "'e rvop" where "do_blt = RVOP 4 (branch_func (\<lambda>x y. y \<le>s x))"
definition do_bge :: "'e rvop" where "do_bge = RVOP 4 (branch_func (\<lambda>x y. x <s y))"
definition do_bltu :: "'e rvop" where "do_bltu = RVOP 4 (branch_func (\<lambda>x y. x \<ge> y))"
definition do_bgeu :: "'e rvop" where "do_bgeu = RVOP 4 (branch_func (\<lambda>x y. x < y))"

definition do_lb :: "'e riscv_io \<Rightarrow> 'e rvop" where
  "do_lb io = RVOP 4 (\<lambda>lk ir cycle pc rv.
     let addr = x1 ir rv + i_imm ir in
     Nextop (setX (i_rd ir) (sign_extend_b (ucast (mem_read_b io rv addr))) rv) cycle pc)"

definition do_lh :: "'e riscv_io \<Rightarrow> 'e rvop" where
  "do_lh io = RVOP 4 (\<lambda>lk ir cycle pc rv.
     let addr = x1 ir rv + i_imm ir in
     exc_misalign 1 LOAD_MISALIGNED False addr cycle pc rv
       (Nextop (setX (i_rd ir) (sign_extend_h (ucast (mem_read_s io rv addr))) rv) cycle pc))"

definition do_lw :: "'e riscv_io \<Rightarrow> 'e rvop" where
  "do_lw io = RVOP 4 (\<lambda>lk ir cycle pc rv.
     let addr = x1 ir rv + i_imm ir in
     exc_misalign 3 LOAD_MISALIGNED False addr cycle pc rv
       (case io_read_w io addr rv of (v, rv) \<Rightarrow> Nextop (setX (i_rd ir) v rv) cycle pc))"

definition do_lbu :: "'e riscv_io \<Rightarrow> 'e rvop" where
  "do_lbu io = RVOP 4 (\<lambda>lk ir cycle pc rv.
     let addr = x1 ir rv + i_imm ir in
     Nextop (setX (i_rd ir) (ucast (mem_read_b io rv addr)) rv) cycle pc)"

definition do_lhu :: "'e riscv_io \<Rightarrow> 'e rvop" where
  "do_lhu io = RVOP 4 (\<lambda>lk ir cycle pc rv.
     let addr = x1 ir rv + i_imm ir in
     exc_misalign 1 LOAD_MISALIGNED False addr cycle pc rv
       (Nextop (setX (i_rd ir) (ucast (mem_read_s io rv addr)) rv) cycle pc))"

definition do_sb :: "'e riscv_io \<Rightarrow> 'e rvop" where
  "do_sb io = RVOP 4 (\<lambda>lk ir cycle pc rv.
     let addr = x1 ir rv + i_imm ir in
     Nextop (io_write_b io addr (x2 ir rv) rv) cycle pc)"

definition do_sh :: "'e riscv_io \<Rightarrow> 'e rvop" where
  "do_sh io = RVOP 4 (\<lambda>lk ir cycle pc rv.
     let addr = x1 ir rv + i_imm ir in
     exc_misalign 1 STORE_MISALIGNED False addr cycle pc rv
       (Nextop (io_write_s io addr (x2 ir rv) rv) cycle pc))"

definition do_sw :: "'e riscv_io \<Rightarrow> 'e rvop" where
  "do_sw io = RVOP 4 (\<lambda>lk ir cycle pc rv.
     let addr = x1 ir rv + i_imm ir in
     exc_misalign 3 STORE_MISALIGNED False addr cycle pc rv
       (store_w io addr (x2 ir rv) cycle pc rv))"

definition do_addi :: "'e rvop" where
  "do_addi = RVOP 4 (set_rd (\<lambda>ir pc rv. x1 ir rv + i_imm ir))"

definition do_slti :: "'e rvop" where
  "do_slti = RVOP 4 (set_rd (\<lambda>ir pc rv. if x1 ir rv <s i_imm ir then 1 else 0))"

definition do_sltiu :: "'e rvop" where
  "do_sltiu = RVOP 4 (set_rd (\<lambda>ir pc rv. if x1 ir rv < i_imm ir then 1 else 0))"

definition do_xori :: "'e rvop" where
  "do_xori = RVOP 4 (set_rd (\<lambda>ir pc rv. x1 ir rv XOR i_imm ir))"

definition do_ori :: "'e rvop" where
  "do_ori = RVOP 4 (set_rd (\<lambda>ir pc rv. x1 ir rv OR i_imm ir))"

definition do_andi :: "'e rvop" where
  "do_andi = RVOP 4 (set_rd (\<lambda>ir pc rv. x1 ir rv AND i_imm ir))"

text \<open>\<^verbatim>\<open>shift_func\<close> switches on the opcode of the node it is given; the source's default case is
  unreachable.\<close>

definition shift_func :: "rv_opcode \<Rightarrow> u32 \<Rightarrow> u32 \<Rightarrow> u32 option" where
  "shift_func op x imm =
     (let n = unat (imm AND 0x1f) in
      if op = Base rv_insn_slli then Some (push_bit n x)
      else if op = Base rv_insn_srli then Some (drop_bit n x)
      else if op = Base rv_insn_srai then Some (signed_drop_bit n x)
      else None)"

definition shift_op :: "'e rvop" where
  "shift_op lk ir cycle pc rv =
     (case shift_func (i_opcode ir) (x1 ir rv) (i_imm ir) of
        None \<Rightarrow> Abort
      | Some v \<Rightarrow> Nextop (setX (i_rd ir) v rv) cycle pc)"

definition do_slli :: "'e rvop" where "do_slli = RVOP 4 shift_op"
definition do_srli :: "'e rvop" where "do_srli = RVOP 4 shift_op"
definition do_srai :: "'e rvop" where "do_srai = RVOP 4 shift_op"

definition do_add :: "'e rvop" where
  "do_add = RVOP 4 (set_rd (\<lambda>ir pc rv. x1 ir rv + x2 ir rv))"

definition do_sub :: "'e rvop" where
  "do_sub = RVOP 4 (set_rd (\<lambda>ir pc rv. x1 ir rv - x2 ir rv))"

definition do_sll :: "'e rvop" where
  "do_sll = RVOP 4 (set_rd (\<lambda>ir pc rv. push_bit (unat (x2 ir rv AND 0x1f)) (x1 ir rv)))"

definition do_slt :: "'e rvop" where
  "do_slt = RVOP 4 (set_rd (\<lambda>ir pc rv. if x1 ir rv <s x2 ir rv then 1 else 0))"

definition do_sltu :: "'e rvop" where
  "do_sltu = RVOP 4 (set_rd (\<lambda>ir pc rv. if x1 ir rv < x2 ir rv then 1 else 0))"

definition do_xor :: "'e rvop" where
  "do_xor = RVOP 4 (set_rd (\<lambda>ir pc rv. x1 ir rv XOR x2 ir rv))"

definition do_srl :: "'e rvop" where
  "do_srl = RVOP 4 (set_rd (\<lambda>ir pc rv. drop_bit (unat (x2 ir rv AND 0x1f)) (x1 ir rv)))"

definition do_sra :: "'e rvop" where
  "do_sra = RVOP 4 (set_rd (\<lambda>ir pc rv. signed_drop_bit (unat (x2 ir rv AND 0x1f)) (x1 ir rv)))"

definition do_or :: "'e rvop" where
  "do_or = RVOP 4 (set_rd (\<lambda>ir pc rv. x1 ir rv OR x2 ir rv))"

definition do_and :: "'e rvop" where
  "do_and = RVOP 4 (set_rd (\<lambda>ir pc rv. x1 ir rv AND x2 ir rv))"

definition do_fence :: "'e rvop" where
  "do_fence = RVOP 4 (\<lambda>lk ir cycle pc rv. End_op rv cycle (pc + 4))"

definition do_ecall :: "'e riscv_io \<Rightarrow> 'e rvop" where
  "do_ecall io = RVOP 4 (\<lambda>lk ir cycle pc rv.
     Return True (on_ecall io (rv\<lparr>compressed := False, csr_cycle := cycle, PC := pc\<rparr>)))"

definition do_ebreak :: "'e rvop" where
  "do_ebreak = RVOP 4 (\<lambda>lk ir cycle pc rv.
     Return True (ebreak_handler (rv\<lparr>compressed := False, csr_cycle := cycle, PC := pc\<rparr>)))"

section \<open>Privileged instructions\<close>

definition do_wfi :: "'e rvop" where
  "do_wfi = RVOP 4 (\<lambda>lk ir cycle pc rv. End_op rv cycle (pc + 4))"

definition do_uret :: "'e rvop" where
  "do_uret = RVOP 4 (\<lambda>lk ir cycle pc rv. Return False rv)"

definition do_hret :: "'e rvop" where
  "do_hret = RVOP 4 (\<lambda>lk ir cycle pc rv. Return False rv)"

definition do_mret :: "'e rvop" where
  "do_mret = RVOP 4 (\<lambda>lk ir cycle pc rv. Return True (mret rv))"

definition do_sfencevma :: "'e rvop" where
  "do_sfencevma = RVOP 4 (\<lambda>lk ir cycle pc rv. End_op rv cycle (pc + 4))"

section \<open>Zifencei and Zicsr\<close>

definition do_fencei :: "'e rvop" where
  "do_fencei = RVOP 4 (\<lambda>lk ir cycle pc rv.
     Return True (rv\<lparr>csr_cycle := cycle, PC := pc + 4\<rparr>))"

text \<open>The six instructions differ in the operation and in its operand; the old value is written unless
  the destination is \<^verbatim>\<open>x0\<close>.\<close>

definition csr_op ::
  "(u32 \<Rightarrow> u32 \<Rightarrow> 'e riscv \<Rightarrow> u32 \<times> 'e riscv) \<Rightarrow> (rv_insn \<Rightarrow> 'e riscv \<Rightarrow> u32) \<Rightarrow> 'e rvop" where
  "csr_op f operand lk ir cycle pc rv =
     (case f (i_imm ir) (operand ir rv) rv of
        (tmp, rv) \<Rightarrow> Nextop (setX (i_rd ir) (if i_rd ir \<noteq> 0 then tmp else X rv (i_rd ir)) rv) cycle pc)"

definition csr_reg :: "rv_insn \<Rightarrow> 'e riscv \<Rightarrow> u32" where
  "csr_reg ir rv = (if i_rs1 ir = 0 then 0 else x1 ir rv)"

definition csr_imm :: "rv_insn \<Rightarrow> 'e riscv \<Rightarrow> u32" where
  "csr_imm ir rv = ucast (i_rs1 ir)"

definition do_csrrw :: "'e rvop" where "do_csrrw = RVOP 4 (csr_op csr_csrrw x1)"
definition do_csrrs :: "'e rvop" where "do_csrrs = RVOP 4 (csr_op csr_csrrs csr_reg)"
definition do_csrrc :: "'e rvop" where "do_csrrc = RVOP 4 (csr_op csr_csrrc csr_reg)"
definition do_csrrwi :: "'e rvop" where "do_csrrwi = RVOP 4 (csr_op csr_csrrw csr_imm)"
definition do_csrrsi :: "'e rvop" where "do_csrrsi = RVOP 4 (csr_op csr_csrrs csr_imm)"
definition do_csrrci :: "'e rvop" where "do_csrrci = RVOP 4 (csr_op csr_csrrc csr_imm)"

end
