(* ===== verification/Rv_Exec_MA.thy ===== *)
theory Rv_Exec_MA
  imports Rv_Exec
begin

text \<open>
  The instruction functions of the M and A extensions: multiplication and division, and the atomic
  memory operations, with the values the M instructions compute as functions of their operands and the
  proof that these are what the instruction set prescribes.
\<close>

section \<open>RV32M\<close>

text \<open>C's signed division truncates towards zero, like \<^const>\<open>c_rem\<close>.\<close>

definition c_div :: "int \<Rightarrow> int \<Rightarrow> int" where
  "c_div a b = sgn a * sgn b * (\<bar>a\<bar> div \<bar>b\<bar>)"

definition mul32 :: "u32 \<Rightarrow> u32 \<Rightarrow> u32" where
  "mul32 a b = (let multiplicand = scast a :: u64; multiplier = scast b :: u64 in
     ucast ((multiplicand * multiplier) AND (push_bit 32 1 - 1)))"

definition mulh32 :: "u32 \<Rightarrow> u32 \<Rightarrow> u32" where
  "mulh32 a b = (let multiplicand = scast a :: u64; multiplier = scast b :: u64 in
     ucast (drop_bit 32 (multiplicand * multiplier)))"

definition mulhsu32 :: "u32 \<Rightarrow> u32 \<Rightarrow> u32" where
  "mulhsu32 a b = (let multiplicand = scast a :: u64; umultiplier = ucast b :: u64 in
     ucast (drop_bit 32 (multiplicand * umultiplier)))"

definition mulhu32 :: "u32 \<Rightarrow> u32 \<Rightarrow> u32" where
  "mulhu32 a b = ucast (drop_bit 32 ((ucast a :: u64) * ucast b))"

definition div32 :: "u32 \<Rightarrow> u32 \<Rightarrow> u32" where
  "div32 a b =
     (if b = 0 then NOT 0
      else if sint b = - 1 \<and> a = 0x80000000 then a
      else word_of_int (c_div (sint a) (sint b)))"

definition divu32 :: "u32 \<Rightarrow> u32 \<Rightarrow> u32" where
  "divu32 a b = (if b = 0 then NOT 0 else a div b)"

definition rem32 :: "u32 \<Rightarrow> u32 \<Rightarrow> u32" where
  "rem32 a b =
     (if b = 0 then a
      else if sint b = - 1 \<and> a = 0x80000000 then 0
      else word_of_int (c_rem (sint a) (sint b)))"

definition remu32 :: "u32 \<Rightarrow> u32 \<Rightarrow> u32" where
  "remu32 a b = (if b = 0 then a else a mod b)"

definition do_mul :: "'e rvop" where
  "do_mul = RVOP 4 (set_rd (\<lambda>ir pc rv. mul32 (x1 ir rv) (x2 ir rv)))"
definition do_mulh :: "'e rvop" where
  "do_mulh = RVOP 4 (set_rd (\<lambda>ir pc rv. mulh32 (x1 ir rv) (x2 ir rv)))"
definition do_mulhsu :: "'e rvop" where
  "do_mulhsu = RVOP 4 (set_rd (\<lambda>ir pc rv. mulhsu32 (x1 ir rv) (x2 ir rv)))"
definition do_mulhu :: "'e rvop" where
  "do_mulhu = RVOP 4 (set_rd (\<lambda>ir pc rv. mulhu32 (x1 ir rv) (x2 ir rv)))"
definition do_div :: "'e rvop" where
  "do_div = RVOP 4 (set_rd (\<lambda>ir pc rv. div32 (x1 ir rv) (x2 ir rv)))"
definition do_divu :: "'e rvop" where
  "do_divu = RVOP 4 (set_rd (\<lambda>ir pc rv. divu32 (x1 ir rv) (x2 ir rv)))"
definition do_rem :: "'e rvop" where
  "do_rem = RVOP 4 (set_rd (\<lambda>ir pc rv. rem32 (x1 ir rv) (x2 ir rv)))"
definition do_remu :: "'e rvop" where
  "do_remu = RVOP 4 (set_rd (\<lambda>ir pc rv. remu32 (x1 ir rv) (x2 ir rv)))"

section \<open>RV32A\<close>

definition do_lrw :: "'e riscv_io \<Rightarrow> 'e rvop" where
  "do_lrw io = RVOP 4 (\<lambda>lk ir cycle pc rv.
     let addr = x1 ir rv in
     exc_misalign 3 LOAD_MISALIGNED False addr cycle pc rv
       (if i_rd ir \<noteq> 0
        then (case io_read_w io addr rv of (v, rv) \<Rightarrow> Nextop (setX (i_rd ir) v rv) cycle pc)
        else Nextop rv cycle pc))"

definition do_scw :: "'e riscv_io \<Rightarrow> 'e rvop" where
  "do_scw io = RVOP 4 (\<lambda>lk ir cycle pc rv.
     let addr = x1 ir rv in
     exc_misalign 3 STORE_MISALIGNED False addr cycle pc rv
       (case io_write_w io addr (x2 ir rv) rv of
          None \<Rightarrow> Abort
        | Some rv \<Rightarrow> Nextop (setX (i_rd ir) 0 rv) cycle pc))"

text \<open>The common shape of the read-modify-write operations; \<^term>\<open>f value1 value2\<close> is the word stored.\<close>

definition amo :: "'e riscv_io \<Rightarrow> (u32 \<Rightarrow> u32 \<Rightarrow> u32) \<Rightarrow> 'e rvop" where
  "amo io f lk ir cycle pc rv =
     (let addr = x1 ir rv in
      exc_misalign 3 LOAD_MISALIGNED False addr cycle pc rv
        (case io_read_w io addr rv of (value1, rv) \<Rightarrow>
           let value2 = x2 ir rv in
           store_w io addr (f value1 value2) cycle pc (setX_nz (i_rd ir) value1 rv)))"

definition do_amoswapw :: "'e riscv_io \<Rightarrow> 'e rvop" where
  "do_amoswapw io = RVOP 4 (amo io (\<lambda>a b. b))"
definition do_amoaddw :: "'e riscv_io \<Rightarrow> 'e rvop" where
  "do_amoaddw io = RVOP 4 (amo io (\<lambda>a b. a + b))"
definition do_amoxorw :: "'e riscv_io \<Rightarrow> 'e rvop" where
  "do_amoxorw io = RVOP 4 (amo io (\<lambda>a b. a XOR b))"
definition do_amoandw :: "'e riscv_io \<Rightarrow> 'e rvop" where
  "do_amoandw io = RVOP 4 (amo io (\<lambda>a b. a AND b))"
definition do_amoorw :: "'e riscv_io \<Rightarrow> 'e rvop" where
  "do_amoorw io = RVOP 4 (amo io (\<lambda>a b. a OR b))"
definition do_amominw :: "'e riscv_io \<Rightarrow> 'e rvop" where
  "do_amominw io = RVOP 4 (amo io (\<lambda>a b. if a <s b then a else b))"
definition do_amomaxw :: "'e riscv_io \<Rightarrow> 'e rvop" where
  "do_amomaxw io = RVOP 4 (amo io (\<lambda>a b. if b <s a then a else b))"
definition do_amominuw :: "'e riscv_io \<Rightarrow> 'e rvop" where
  "do_amominuw io = RVOP 4 (amo io (\<lambda>a b. if a < b then a else b))"
definition do_amomaxuw :: "'e riscv_io \<Rightarrow> 'e rvop" where
  "do_amomaxuw io = RVOP 4 (amo io (\<lambda>a b. if b < a then a else b))"

section \<open>Multiplication and division follow the instruction set\<close>

lemma high_half:
  fixes x y :: u64 and n :: int
  assumes "x * y = word_of_int n"
  shows "(ucast (drop_bit 32 (x * y)) :: u32) = word_of_int (n div 2 ^ 32)"
proof (rule bit_word_eqI)
  fix i assume "i < LENGTH(32)"
  then show "bit (ucast (drop_bit 32 (x * y)) :: u32) i = bit (word_of_int (n div 2 ^ 32) :: u32) i"
    unfolding assms drop_bit_eq_div[symmetric] by (simp add: bit_simps)
qed

lemma scast_64: "(scast a :: u64) = word_of_int (sint a)" for a :: u32
  by (rule scast_eq)

lemma ucast_64: "(ucast a :: u64) = word_of_int (uint a)" for a :: u32
  by (rule ucast_eq)

lemma mul_high:
  "mulh32 a b = word_of_int ((sint a * sint b) div 2 ^ 32)"
  "mulhsu32 a b = word_of_int ((sint a * uint b) div 2 ^ 32)"
  "mulhu32 a b = word_of_int ((uint a * uint b) div 2 ^ 32)"
  unfolding mulh32_def mulhsu32_def mulhu32_def Let_def scast_64 ucast_64
  by (rule high_half, rule wi_hom_mult)+

lemma mul_low: "mul32 a b = a * b"
proof -
  have *: "(ucast (word_of_int n AND (push_bit 32 1 - 1) :: u64) :: u32) = word_of_int n" for n
  proof (rule bit_word_eqI)
    fix i assume "i < LENGTH(32)"
    moreover have "bit (push_bit 32 1 - 1 :: u64) i \<longleftrightarrow> i < 32"
      by (subst bit_run[where k = 0 and m = 32]) (simp_all add: push_bit_eq_mult)
    ultimately show "bit (ucast (word_of_int n AND (push_bit 32 1 - 1) :: u64) :: u32) i = bit (word_of_int n :: u32) i"
      by (simp add: bit_simps)
  qed
  have "word_of_int (sint a * sint b) = a * b"
    by (metis scast_eq scast_id wi_hom_mult)
  then show ?thesis
    unfolding mul32_def Let_def scast_64 wi_hom_mult * .
qed

lemma c_div_rem: "c_div a b * b + c_rem a b = a"
proof -
  have "\<bar>a\<bar> = \<bar>a\<bar> div \<bar>b\<bar> * \<bar>b\<bar> + \<bar>a\<bar> mod \<bar>b\<bar>" by simp
  then have "sgn a * \<bar>a\<bar> = sgn a * (\<bar>a\<bar> div \<bar>b\<bar> * (sgn b * b)) + sgn a * (\<bar>a\<bar> mod \<bar>b\<bar>)"
    by (metis abs_sgn distrib_left mult.commute)
  then show ?thesis
    using sgn_mult_abs[of a] by (simp add: c_div_def c_rem_def algebra_simps)
qed

lemma c_rem_bound: "b \<noteq> 0 \<Longrightarrow> \<bar>c_rem a b\<bar> < \<bar>b\<bar>"
  by (auto simp: c_rem_def abs_mult abs_sgn_eq)

lemma c_rem_sgn: "c_rem a b = 0 \<or> sgn (c_rem a b) = sgn a"
proof (cases "b = 0")
  case False
  then have "0 \<le> \<bar>a\<bar> mod \<bar>b\<bar>" by simp
  then have "\<bar>a\<bar> mod \<bar>b\<bar> = 0 \<or> sgn (\<bar>a\<bar> mod \<bar>b\<bar>) = 1" by (auto simp: sgn_if)
  then show ?thesis by (auto simp: c_rem_def sgn_mult)
qed (auto simp: c_rem_def sgn_mult)

lemma c_div_abs: "\<bar>c_div a b\<bar> \<le> \<bar>a\<bar>"
proof (cases "b = 0")
  case False
  then have "\<bar>a\<bar> div \<bar>b\<bar> \<le> \<bar>a\<bar>" using zdiv_mono2[of "\<bar>a\<bar>" 1 "\<bar>b\<bar>"] by simp
  then show ?thesis by (auto simp: c_div_def abs_mult abs_sgn_eq pos_imp_zdiv_nonneg_iff)
qed (simp add: c_div_def)

lemma sint_eqI: "- 0x80000000 \<le> n \<Longrightarrow> n < 0x80000000 \<Longrightarrow> sint (word_of_int n :: u32) = n"
  by (simp add: sint_sbintrunc' signed_take_bit_int_eq_self)

lemma sint_bounds: "- 0x80000000 \<le> sint a" "sint a < 0x80000000" for a :: u32
  using sint_ge[of a] sint_lt[of a] by simp_all

lemma sint_inv: "sint a = n \<Longrightarrow> a = word_of_int n" for a :: u32
  by (metis scast_eq scast_id)

lemma sint_nz: "b \<noteq> 0 \<Longrightarrow> sint b \<noteq> 0" for b :: u32
  using sint_inv[of b 0] by auto

lemma c_div_no_overflow:
  fixes a b :: u32
  assumes "b \<noteq> 0" "\<not> (sint b = - 1 \<and> a = 0x80000000)"
  shows "sint (word_of_int (c_div (sint a) (sint b)) :: u32) = c_div (sint a) (sint b)"
proof -
  have "c_div (sint a) (sint b) \<noteq> 0x80000000"
  proof
    assume *: "c_div (sint a) (sint b) = 0x80000000"
    with c_div_abs[of "sint a" "sint b"] sint_bounds[of a] have a: "sint a = - 0x80000000" by linarith
    have r: "0x80000000 * sint b + c_rem (sint a) (sint b) = sint a" using c_div_rem[of "sint a" "sint b"] * by simp
    have "sint b \<noteq> 0" using assms(1) by (rule sint_nz)
    from c_rem_bound[OF this, of "sint a"] r a have "sint b = - 1" by linarith
    moreover have "a = 0x80000000" using sint_inv[OF a] by simp
    ultimately show False using assms(2) by blast
  qed
  with c_div_abs[of "sint a" "sint b"] sint_bounds[of a] show ?thesis
    by (intro sint_eqI) linarith+
qed

lemma c_rem_no_overflow:
  fixes a b :: u32
  assumes "b \<noteq> 0"
  shows "sint (word_of_int (c_rem (sint a) (sint b)) :: u32) = c_rem (sint a) (sint b)"
  using c_rem_bound[OF sint_nz[OF assms], of "sint a"] sint_bounds[of b] by (intro sint_eqI) auto

lemma div_rem_identity: "div32 a b * b + rem32 a b = a"
proof -
  have "word_of_int (c_div (sint a) (sint b)) * b + word_of_int (c_rem (sint a) (sint b)) = a"
    using arg_cong[OF c_div_rem[of "sint a" "sint b"], of "word_of_int :: int \<Rightarrow> u32"]
    by (simp add: wi_hom_syms)
  moreover have "b = - 1" if "sint b = -1" using sint_inv[OF that] by simp
  ultimately show ?thesis by (auto simp: div32_def rem32_def)
qed

lemma rem32_bound:
  assumes "b \<noteq> 0"
  shows "\<bar>sint (rem32 a b)\<bar> < \<bar>sint b\<bar>" "rem32 a b = 0 \<or> sgn (sint (rem32 a b)) = sgn (sint a)"
  using c_rem_bound[OF sint_nz[OF assms], of "sint a"] c_rem_sgn[of "sint a" "sint b"] assms sint_nz[OF assms]
  by (auto simp: rem32_def c_rem_no_overflow)

lemma div32_sint:
  assumes "b \<noteq> 0" "\<not> (a = 0x80000000 \<and> b = - 1)"
  shows "sint (div32 a b) = c_div (sint a) (sint b)"
proof -
  have "\<not> (sint b = - 1 \<and> a = 0x80000000)" using assms(2) sint_inv[of b "- 1"] by auto
  with assms(1) show ?thesis unfolding div32_def by (auto simp: c_div_no_overflow)
qed

lemma div32_overflow: "div32 0x80000000 (- 1) = 0x80000000" "rem32 0x80000000 (- 1) = 0"
  by (simp_all add: div32_def rem32_def)

section \<open>Properties\<close>

text \<open>
  C35: the M extension computes what the instruction set prescribes for all operands: the low and the
  three high halves of the exact product; quotient and remainder satisfy the division identity for every
  divisor, zero and overflow included, with the prescribed special values; otherwise the signed
  quotient is truncated, the remainder is smaller than the divisor in absolute value and has the sign
  of the dividend.
\<close>

theorem m_extension_spec:
  "mul32 a b = a * b
   \<and> mulh32 a b = word_of_int ((sint a * sint b) div 2 ^ 32)
   \<and> mulhsu32 a b = word_of_int ((sint a * uint b) div 2 ^ 32)
   \<and> mulhu32 a b = word_of_int ((uint a * uint b) div 2 ^ 32)
   \<and> div32 a b * b + rem32 a b = a \<and> divu32 a b * b + remu32 a b = a
   \<and> div32 a 0 = - 1 \<and> rem32 a 0 = a \<and> divu32 a 0 = - 1 \<and> remu32 a 0 = a
   \<and> div32 0x80000000 (- 1) = 0x80000000 \<and> rem32 0x80000000 (- 1) = 0
   \<and> (b \<noteq> 0 \<longrightarrow> remu32 a b < b \<and> \<bar>sint (rem32 a b)\<bar> < \<bar>sint b\<bar>
        \<and> (rem32 a b = 0 \<or> sgn (sint (rem32 a b)) = sgn (sint a)))
   \<and> (b \<noteq> 0 \<and> \<not> (a = 0x80000000 \<and> b = - 1) \<longrightarrow> sint (div32 a b) = c_div (sint a) (sint b))"
  using word_mod_div_equality[of a b]
  by (auto simp: mul_low mul_high div_rem_identity divu32_def remu32_def rem32_bound div32_sint
    div32_def[of _ 0] rem32_def[of _ 0] div32_overflow word_mod_less_divisor word_neq_0_conv)

theorem m_extension_spec_witness:
  "sint (div32 (- 7) 2) = - 3 \<and> rem32 (- 7) 2 = - 1 \<and> mulhu32 0xFFFFFFFF 2 = 1"
  using m_extension_spec[of "- 7" 2] m_extension_spec[of "0xFFFFFFFF" 2] by (simp add: c_div_def rem32_def c_rem_def)

end
