(* ===== verification/Rv_Exec_Zb.thy ===== *)
theory Rv_Exec_Zb
  imports Rv_Exec
begin

text \<open>
  The instruction functions of the bit-manipulation extensions Zba, Zbb, Zbc and Zbs, and the bit
  counting helpers of \<^verbatim>\<open>common.h\<close>.  With GCC and Clang the helpers are compiler builtins; the first
  three definitions are what their documentation says.  The versions for other compilers are modelled
  too and compared with them.
\<close>

section \<open>Bit counting\<close>

definition rv_clz :: "u32 \<Rightarrow> nat" where
  "rv_clz v = length (takeWhile (\<lambda>i. \<not> bit v i) (rev [0..<32]))"

definition rv_ctz :: "u32 \<Rightarrow> nat" where
  "rv_ctz v = length (takeWhile (\<lambda>i. \<not> bit v i) [0..<32])"

definition rv_popcount :: "u32 \<Rightarrow> nat" where
  "rv_popcount v = length (filter (bit v) [0..<32])"

definition ilog2 :: "u32 \<Rightarrow> nat" where
  "ilog2 x = 31 - rv_clz x"

definition mul_debruijn_log :: "nat list" where
  "mul_debruijn_log = [0, 9, 1, 10, 13, 21, 2, 29, 11, 14, 16, 18, 22, 25, 3, 30,
     8, 12, 20, 28, 15, 17, 24, 7, 19, 27, 23, 6, 26, 5, 4, 31]"

definition rv_clz_generic :: "u32 \<Rightarrow> nat" where
  "rv_clz_generic v =
     (let v = v OR drop_bit 1 v; v = v OR drop_bit 2 v; v = v OR drop_bit 4 v;
          v = v OR drop_bit 8 v; v = v OR drop_bit 16 v in
      mul_debruijn_log ! unat (drop_bit 27 (v * 0x07C4ACDD)))"

definition mul_debruijn_ctz :: "nat list" where
  "mul_debruijn_ctz = [0, 1, 28, 2, 29, 14, 24, 3, 30, 22, 20, 15, 25, 17, 4, 8,
     31, 27, 13, 23, 21, 19, 16, 7, 26, 12, 18, 6, 11, 5, 10, 9]"

definition rv_ctz_generic :: "u32 \<Rightarrow> nat" where
  "rv_ctz_generic v = mul_debruijn_ctz ! unat (drop_bit 27 ((v AND - v) * 0x077CB531))"

section \<open>Zba\<close>

definition do_sh1add :: "'e rvop" where
  "do_sh1add = RVOP 4 (set_rd (\<lambda>ir pc rv. push_bit 1 (x1 ir rv) + x2 ir rv))"
definition do_sh2add :: "'e rvop" where
  "do_sh2add = RVOP 4 (set_rd (\<lambda>ir pc rv. push_bit 2 (x1 ir rv) + x2 ir rv))"
definition do_sh3add :: "'e rvop" where
  "do_sh3add = RVOP 4 (set_rd (\<lambda>ir pc rv. push_bit 3 (x1 ir rv) + x2 ir rv))"

section \<open>Zbb\<close>

definition do_andn :: "'e rvop" where
  "do_andn = RVOP 4 (set_rd (\<lambda>ir pc rv. x1 ir rv AND NOT (x2 ir rv)))"
definition do_orn :: "'e rvop" where
  "do_orn = RVOP 4 (set_rd (\<lambda>ir pc rv. x1 ir rv OR NOT (x2 ir rv)))"
definition do_xnor :: "'e rvop" where
  "do_xnor = RVOP 4 (set_rd (\<lambda>ir pc rv. NOT (x1 ir rv XOR x2 ir rv)))"

definition clz32 :: "u32 \<Rightarrow> u32" where
  "clz32 x = (if x \<noteq> 0 then of_nat (rv_clz x) else 32)"

definition ctz32 :: "u32 \<Rightarrow> u32" where
  "ctz32 x = (if x \<noteq> 0 then of_nat (rv_ctz x) else 32)"

definition do_clz :: "'e rvop" where
  "do_clz = RVOP 4 (set_rd (\<lambda>ir pc rv. clz32 (x1 ir rv)))"
definition do_ctz :: "'e rvop" where
  "do_ctz = RVOP 4 (set_rd (\<lambda>ir pc rv. ctz32 (x1 ir rv)))"
definition do_cpop :: "'e rvop" where
  "do_cpop = RVOP 4 (set_rd (\<lambda>ir pc rv. of_nat (rv_popcount (x1 ir rv))))"

definition do_max :: "'e rvop" where
  "do_max = RVOP 4 (set_rd (\<lambda>ir pc rv. if x2 ir rv <s x1 ir rv then x1 ir rv else x2 ir rv))"
definition do_min :: "'e rvop" where
  "do_min = RVOP 4 (set_rd (\<lambda>ir pc rv. if x1 ir rv <s x2 ir rv then x1 ir rv else x2 ir rv))"
definition do_maxu :: "'e rvop" where
  "do_maxu = RVOP 4 (set_rd (\<lambda>ir pc rv. if x2 ir rv < x1 ir rv then x1 ir rv else x2 ir rv))"
definition do_minu :: "'e rvop" where
  "do_minu = RVOP 4 (set_rd (\<lambda>ir pc rv. if x1 ir rv < x2 ir rv then x1 ir rv else x2 ir rv))"

text \<open>The two sign extensions write the destination first and then test the source register, which may
  be the same register.\<close>

definition do_sextb :: "'e rvop" where
  "do_sextb = RVOP 4 (\<lambda>lk ir cycle pc rv.
     let rv = setX (i_rd ir) (x1 ir rv AND 0xff) rv;
         rv = (if x1 ir rv AND push_bit 7 1 \<noteq> 0
               then setX (i_rd ir) (X rv (i_rd ir) OR 0xffffff00) rv else rv) in
     Nextop rv cycle pc)"

definition do_sexth :: "'e rvop" where
  "do_sexth = RVOP 4 (\<lambda>lk ir cycle pc rv.
     let rv = setX (i_rd ir) (x1 ir rv AND 0xffff) rv;
         rv = (if x1 ir rv AND push_bit 15 1 \<noteq> 0
               then setX (i_rd ir) (X rv (i_rd ir) OR 0xffff0000) rv else rv) in
     Nextop rv cycle pc)"

definition do_zexth :: "'e rvop" where
  "do_zexth = RVOP 4 (set_rd (\<lambda>ir pc rv. x1 ir rv AND 0xffff))"

text \<open>A rotation by 0 shifts by 32, which C leaves undefined: there is no result, and the function that asks for one
  aborts.\<close>

definition rol32 :: "u32 \<Rightarrow> u32 \<Rightarrow> u32 option" where
  "rol32 x y = (let shamt = unat (y AND 0x1f) in
     if shamt = 0 then None else Some (push_bit shamt x OR drop_bit (32 - shamt) x))"

definition ror32 :: "u32 \<Rightarrow> u32 \<Rightarrow> u32 option" where
  "ror32 x y = (let shamt = unat (y AND 0x1f) in
     if shamt = 0 then None else Some (drop_bit shamt x OR push_bit (32 - shamt) x))"

definition set_rd_defined :: "(rv_insn \<Rightarrow> 'e riscv \<Rightarrow> u32 option) \<Rightarrow> 'e rvop" where
  "set_rd_defined f lk ir cycle pc rv = (case f ir rv of
     None \<Rightarrow> Abort
   | Some v \<Rightarrow> Nextop (setX (i_rd ir) v rv) cycle pc)"

definition do_rol :: "'e rvop" where
  "do_rol = RVOP 4 (set_rd_defined (\<lambda>ir rv. rol32 (x1 ir rv) (x2 ir rv)))"
definition do_ror :: "'e rvop" where
  "do_ror = RVOP 4 (set_rd_defined (\<lambda>ir rv. ror32 (x1 ir rv) (x2 ir rv)))"
definition do_rori :: "'e rvop" where
  "do_rori = RVOP 4 (set_rd_defined (\<lambda>ir rv. ror32 (x1 ir rv) (i_imm ir)))"

definition orcb32 :: "u32 \<Rightarrow> u32" where
  "orcb32 x = fold (\<lambda>i out. if x AND push_bit (i * 8) 0xff \<noteq> 0 then out OR push_bit (i * 8) 0xff else out)
     [0..<4] 0"

definition rev8_32 :: "u32 \<Rightarrow> u32" where
  "rev8_32 x = push_bit 24 (x AND 0xff) OR push_bit 8 (x AND 0xff00)
     OR drop_bit 8 (x AND 0xff0000) OR drop_bit 24 (x AND 0xff000000)"

definition do_orcb :: "'e rvop" where
  "do_orcb = RVOP 4 (set_rd (\<lambda>ir pc rv. orcb32 (x1 ir rv)))"
definition do_rev8 :: "'e rvop" where
  "do_rev8 = RVOP 4 (set_rd (\<lambda>ir pc rv. rev8_32 (x1 ir rv)))"

section \<open>Zbc\<close>

definition xor_loop :: "nat list \<Rightarrow> u32 \<Rightarrow> (nat \<Rightarrow> u32) \<Rightarrow> u32" where
  "xor_loop is b f = fold (\<lambda>i out. if drop_bit i b AND 1 \<noteq> 0 then out XOR f i else out) is 0"

definition clmul32 :: "u32 \<Rightarrow> u32 \<Rightarrow> u32" where
  "clmul32 a b = xor_loop [0..<32] b (\<lambda>i. push_bit i a)"

definition clmulh32 :: "u32 \<Rightarrow> u32 \<Rightarrow> u32" where
  "clmulh32 a b = xor_loop [1..<32] b (\<lambda>i. drop_bit (32 - i) a)"

definition clmulr32 :: "u32 \<Rightarrow> u32 \<Rightarrow> u32" where
  "clmulr32 a b = xor_loop [0..<32] b (\<lambda>i. drop_bit (32 - i - 1) a)"

definition do_clmul :: "'e rvop" where
  "do_clmul = RVOP 4 (set_rd (\<lambda>ir pc rv. clmul32 (x1 ir rv) (x2 ir rv)))"
definition do_clmulh :: "'e rvop" where
  "do_clmulh = RVOP 4 (set_rd (\<lambda>ir pc rv. clmulh32 (x1 ir rv) (x2 ir rv)))"
definition do_clmulr :: "'e rvop" where
  "do_clmulr = RVOP 4 (set_rd (\<lambda>ir pc rv. clmulr32 (x1 ir rv) (x2 ir rv)))"

section \<open>Zbs\<close>

definition bit_index :: "u32 \<Rightarrow> nat" where
  "bit_index y = unat (y AND (32 - 1))"

definition do_bclr :: "'e rvop" where
  "do_bclr = RVOP 4 (set_rd (\<lambda>ir pc rv. x1 ir rv AND NOT (push_bit (bit_index (x2 ir rv)) 1)))"
definition do_bclri :: "'e rvop" where
  "do_bclri = RVOP 4 (set_rd (\<lambda>ir pc rv. x1 ir rv AND NOT (push_bit (bit_index (i_imm ir)) 1)))"
definition do_bext :: "'e rvop" where
  "do_bext = RVOP 4 (set_rd (\<lambda>ir pc rv. drop_bit (bit_index (x2 ir rv)) (x1 ir rv) AND 1))"
definition do_bexti :: "'e rvop" where
  "do_bexti = RVOP 4 (set_rd (\<lambda>ir pc rv. drop_bit (bit_index (i_imm ir)) (x1 ir rv) AND 1))"
definition do_binv :: "'e rvop" where
  "do_binv = RVOP 4 (set_rd (\<lambda>ir pc rv. x1 ir rv XOR push_bit (bit_index (x2 ir rv)) 1))"
definition do_binvi :: "'e rvop" where
  "do_binvi = RVOP 4 (set_rd (\<lambda>ir pc rv. x1 ir rv XOR push_bit (bit_index (i_imm ir)) 1))"
definition do_bset :: "'e rvop" where
  "do_bset = RVOP 4 (set_rd (\<lambda>ir pc rv. x1 ir rv OR push_bit (bit_index (x2 ir rv)) 1))"
definition do_bseti :: "'e rvop" where
  "do_bseti = RVOP 4 (set_rd (\<lambda>ir pc rv. x1 ir rv OR push_bit (bit_index (i_imm ir)) 1))"

section \<open>Carry-less products\<close>

lemma bit_xor_fold:
  fixes f :: "nat \<Rightarrow> u32"
  shows "bit (fold (\<lambda>i out. if P i then out XOR f i else out) xs acc) n
    \<longleftrightarrow> (bit acc n \<noteq> odd (length (filter (\<lambda>i. P i \<and> bit (f i) n) xs)))"
  by (induction xs arbitrary: acc) (auto simp: bit_simps)

lemma drop_and_1: "drop_bit i b AND 1 \<noteq> 0 \<longleftrightarrow> bit b i" for b :: u32
  by (simp add: bit_iff_odd_drop_bit and_one_eq odd_iff_mod_2_eq_one)

text \<open>The coefficients of the product of two binary polynomials.\<close>

definition poly_coeff :: "u32 \<Rightarrow> u32 \<Rightarrow> nat \<Rightarrow> bool" where
  "poly_coeff a b k = odd (card {i. i \<le> k \<and> bit b i \<and> bit a (k - i)})"

lemma bit_xor_loop:
  assumes "distinct is" and "\<And>i. bit b i \<and> i \<le> k \<and> bit a (k - i) \<longleftrightarrow> i \<in> set is \<and> bit b i \<and> bit (f i) n"
  shows "bit (xor_loop is b f) n \<longleftrightarrow> poly_coeff a b k"
proof -
  have "card {i. i \<le> k \<and> bit b i \<and> bit a (k - i)} = length (filter (\<lambda>i. bit b i \<and> bit (f i) n) is)"
    using assms(2) by (subst distinct_card[symmetric]) (auto simp: assms(1) intro!: arg_cong[where f = card])
  then show ?thesis by (simp add: xor_loop_def drop_and_1 bit_xor_fold poly_coeff_def)
qed

lemma bit_less_32: "bit x i \<Longrightarrow> i < 32" for x :: u32
  using bit_imp_le_length[of x i] by simp

lemma clmul_coeff:
  assumes "n < 32"
  shows "bit (clmul32 a b) n \<longleftrightarrow> poly_coeff a b n"
    and "bit (clmulh32 a b) n \<longleftrightarrow> poly_coeff a b (n + 32)"
    and "bit (clmulr32 a b) n \<longleftrightarrow> poly_coeff a b (n + 31)"
proof -
  show "bit (clmul32 a b) n \<longleftrightarrow> poly_coeff a b n"
    unfolding clmul32_def using assms by (intro bit_xor_loop) (auto simp: bit_simps dest: bit_less_32)
  have h: "n + 32 - i = 32 - i + n" "n + 31 - i = 32 - i - 1 + n" if "i < 32" for i
    using that by linarith+
  show "bit (clmulh32 a b) n \<longleftrightarrow> poly_coeff a b (n + 32)"
    unfolding clmulh32_def
  proof (rule bit_xor_loop)
    fix i
    show "bit b i \<and> i \<le> n + 32 \<and> bit a (n + 32 - i) \<longleftrightarrow> i \<in> set [1..<32] \<and> bit b i \<and> bit (drop_bit (32 - i) a) n"
      using h(1)[of i] bit_less_32[of b i] bit_less_32[of a "n + 32"] by (cases "i = 0") (auto simp: bit_simps)
  qed simp
  show "bit (clmulr32 a b) n \<longleftrightarrow> poly_coeff a b (n + 31)"
    unfolding clmulr32_def
  proof (rule bit_xor_loop)
    fix i
    show "bit b i \<and> i \<le> n + 31 \<and> bit a (n + 31 - i) \<longleftrightarrow> i \<in> set [0..<32] \<and> bit b i \<and> bit (drop_bit (32 - i - 1) a) n"
      using h(2)[of i] bit_less_32[of b i] by (auto simp: bit_simps)
  qed simp
qed

section \<open>Counting zeros\<close>

lemma takeWhile_spec:
  assumes "x \<in> set xs" "P x"
  shows "length (takeWhile (\<lambda>i. \<not> P i) xs) < length xs \<and> P (xs ! length (takeWhile (\<lambda>i. \<not> P i) xs))
    \<and> (\<forall>j < length (takeWhile (\<lambda>i. \<not> P i) xs). \<not> P (xs ! j))"
proof -
  let ?n = "length (takeWhile (\<lambda>i. \<not> P i) xs)"
  have "?n \<noteq> length xs" using assms by (metis length_takeWhile_le takeWhile_eq_all_conv takeWhile_eq_take take_all_iff)
  then have "?n < length xs" using length_takeWhile_le[of "\<lambda>i. \<not> P i" xs] by linarith
  moreover from this have "P (xs ! ?n)" using nth_length_takeWhile[of "\<lambda>i. \<not> P i" xs] by simp
  moreover have "\<not> P (xs ! j)" if "j < ?n" for j
    using that by (metis nth_mem set_takeWhileD takeWhile_nth)
  ultimately show ?thesis by blast
qed

lemma ex_bit: "x \<noteq> 0 \<Longrightarrow> \<exists>i < 32. bit x i" for x :: u32
  using bit_word_eqI[of x 0] by auto

lemma rv_ctz_spec:
  assumes "x \<noteq> 0"
  shows "rv_ctz x < 32" "bit x (rv_ctz x)" "i < rv_ctz x \<Longrightarrow> \<not> bit x i"
proof -
  obtain i where "i < 32" "bit x i" using ex_bit[OF assms] by blast
  then have *: "i \<in> set [0..<32]" "bit x i" by simp_all
  from takeWhile_spec[of i "[0..<32]" "bit x", OF *]
  show 1: "rv_ctz x < 32" and "bit x (rv_ctz x)" and "i < rv_ctz x \<Longrightarrow> \<not> bit x i" for i
    by (auto simp: rv_ctz_def simp del: upt_Suc)
qed

lemma rv_clz_spec:
  assumes "x \<noteq> 0"
  shows "rv_clz x < 32" "bit x (31 - rv_clz x)" "31 - rv_clz x < i \<Longrightarrow> \<not> bit x i"
proof -
  obtain i where "i < 32" "bit x i" using ex_bit[OF assms] by blast
  then have *: "i \<in> set (rev [0..<32])" "bit x i" by simp_all
  note t = takeWhile_spec[of i "rev [0..<32]" "bit x", OF *]
  from t show 1: "rv_clz x < 32" by (simp add: rv_clz_def)
  have r: "rev [0..<32] ! j = 31 - j" if "j < 32" for j
    using that by (simp add: rev_nth del: upt_Suc)
  from t show "bit x (31 - rv_clz x)" using r[OF 1] by (simp add: rv_clz_def)
  have z: "\<not> bit x (31 - j)" if "j < rv_clz x" for j
    using t that 1 r[of j] by (auto simp: rv_clz_def)
  show "\<not> bit x i" if "31 - rv_clz x < i" for i
    using z[of "31 - i"] that 1 bit_less_32[of x i] by (cases "i < 32") auto
qed

text \<open>The fallback versions for other compilers.\<close>

lemma odd_and_neg: "odd w \<Longrightarrow> w AND - w = 1" for w :: u32
proof (rule bit_word_eqI)
  fix i assume "odd w"
  then have e: "even (NOT w)" by simp
  have "- w = NOT w + 1" by (simp add: minus_eq_not_plus_1)
  also have "\<dots> = NOT w OR 1" using e by (simp add: or_one_eq)
  finally show "bit (w AND - w) i = bit (1 :: u32) i"
    using \<open>odd w\<close> by (auto simp: bit_simps bit_0)
qed

lemma lowest_bit: "v \<noteq> 0 \<Longrightarrow> v AND - v = push_bit (rv_ctz v) 1" for v :: u32
proof -
  assume v: "v \<noteq> 0"
  define w where "w = drop_bit (rv_ctz v) v"
  have "rv_ctz v \<le> n" if "bit v n" for n using rv_ctz_spec(3)[OF v] that by (meson not_le)
  then have vw: "v = push_bit (rv_ctz v) w"
    by (intro bit_word_eqI) (auto simp: w_def bit_simps)
  have "odd w" using rv_ctz_spec(2)[OF v] by (simp add: w_def bit_iff_odd_drop_bit)
  have "v AND - v = push_bit (rv_ctz v) (w AND - w)"
    by (subst (1 2) vw) (simp add: push_bit_and push_bit_minus)
  with odd_and_neg[OF \<open>odd w\<close>] show ?thesis by simp
qed

lemma debruijn_ctz:
  "list_all (\<lambda>k. mul_debruijn_ctz ! unat (drop_bit 27 (push_bit k 1 * 0x077CB531 :: u32)) = k) [0..<32]"
  by code_simp

lemma debruijn_log:
  "list_all (\<lambda>k. mul_debruijn_log ! unat (drop_bit 27 (mask (Suc k) * 0x07C4ACDD :: u32)) = k) [0..<32]"
  by code_simp

lemma rv_ctz_generic_eq: "v \<noteq> 0 \<Longrightarrow> rv_ctz_generic v = rv_ctz v"
  using debruijn_ctz rv_ctz_spec(1)[of v]
  by (simp add: rv_ctz_generic_def lowest_bit list_all_iff del: upt_Suc)

lemma smear:
  fixes v x :: u32
  assumes "\<And>i. bit v i \<longleftrightarrow> (\<exists>j<m. bit x (i + j))"
  shows "bit (v OR drop_bit m v) i \<longleftrightarrow> (\<exists>j<2 * m. bit x (i + j))"
proof
  assume "\<exists>j<2 * m. bit x (i + j)"
  then obtain j where j: "j < 2 * m" "bit x (i + j)" by blast
  show "bit (v OR drop_bit m v) i"
  proof (cases "j < m")
    case False
    with j have "j - m < m" "bit x (m + i + (j - m))" by (auto simp: algebra_simps)
    then show ?thesis using assms[of "m + i"] by (auto simp: bit_simps)
  qed (use j assms in \<open>auto simp: bit_simps\<close>)
next
  assume "bit (v OR drop_bit m v) i"
  then consider j where "j < m" "bit x (i + j)" | j where "j < m" "bit x (m + i + j)"
    by (auto simp: bit_simps assms)
  then show "\<exists>j<2 * m. bit x (i + j)"
  proof cases
    case (1 j)
    then show ?thesis by (intro exI[of _ j]) auto
  next
    case (2 j)
    then show ?thesis by (intro exI[of _ "m + j"]) (auto simp: algebra_simps)
  qed
qed

lemma rv_clz_generic_eq:
  assumes "v \<noteq> 0"
  shows "rv_clz_generic v = 31 - rv_clz v"
proof -
  let ?n = "31 - rv_clz v"
  have 0: "bit v i \<longleftrightarrow> (\<exists>j<1. bit v (i + j))" for i by simp
  note 1 = smear[OF 0, simplified] note 2 = smear[OF 1, simplified]
  note 3 = smear[OF 2, simplified] note 4 = smear[OF 3, simplified] note 5 = smear[OF 4, simplified]
  let ?w = "v OR drop_bit 1 v" let ?w = "?w OR drop_bit 2 ?w"
  let ?w = "?w OR drop_bit 4 ?w" let ?w = "?w OR drop_bit 8 ?w" let ?w = "?w OR drop_bit 16 ?w"
  have "bit ?w i \<longleftrightarrow> i \<le> ?n" for i
  proof -
    have "bit ?w i \<longleftrightarrow> (\<exists>j<32. bit v (i + j))" using 5[of i] by simp
    also have "\<dots> \<longleftrightarrow> i \<le> ?n"
    proof
      assume "\<exists>j<32. bit v (i + j)"
      then obtain j where "bit v (i + j)" by blast
      then have "\<not> ?n < i + j" using rv_clz_spec(3)[OF assms] by blast
      then show "i \<le> ?n" by simp
    next
      assume "i \<le> ?n"
      then obtain j where "?n = i + j" using le_Suc_ex by blast
      then show "\<exists>j<32. bit v (i + j)"
        using rv_clz_spec(2)[OF assms] by (intro exI[of _ j]) auto
    qed
    finally show ?thesis .
  qed
  then have "?w = mask (Suc ?n)"
    by (intro bit_word_eqI) (auto simp: bit_mask_iff less_Suc_eq_le)
  moreover have "?n \<in> set [0..<32]" by simp
  then have "mul_debruijn_log ! unat (drop_bit 27 (mask (Suc ?n) * 0x07C4ACDD :: u32)) = ?n"
    using debruijn_log unfolding list_all_iff by blast
  ultimately show ?thesis unfolding rv_clz_generic_def Let_def by metis
qed

section \<open>Rotations and bytes\<close>

lemma rotate_defined: "ror32 x y = None \<longleftrightarrow> y AND 0x1f = 0" "rol32 x y = None \<longleftrightarrow> y AND 0x1f = 0"
  by (simp_all add: ror32_def rol32_def Let_def unat_eq_0)

lemma bit_rotate:
  assumes "i < 32"
  shows "ror32 x y = Some r \<Longrightarrow> bit r i \<longleftrightarrow> bit x ((i + unat (y AND 0x1f)) mod 32)"
    and "rol32 x y = Some r \<Longrightarrow> bit r i \<longleftrightarrow> bit x ((i + (32 - unat (y AND 0x1f))) mod 32)"
proof -
  define s where "s = unat (y AND 0x1f)"
  have s: "s < 32" using word_and_less_mask[of 5 y] by (simp add: s_def word_less_nat_alt mask_eq_exp_minus_1)
  show "bit r i \<longleftrightarrow> bit x ((i + unat (y AND 0x1f)) mod 32)" if "ror32 x y = Some r"
    using that unfolding ror32_def Let_def s_def[symmetric] using assms s
    by (auto simp: bit_simps mod_if not_less bit_high algebra_simps split: if_splits)
  show "bit r i \<longleftrightarrow> bit x ((i + (32 - unat (y AND 0x1f))) mod 32)" if "rol32 x y = Some r"
    using that unfolding rol32_def Let_def s_def[symmetric] using assms s
    by (auto simp: bit_simps mod_if not_less bit_high algebra_simps split: if_splits)
qed

lemma bit_push_ff: "bit (push_bit k 0xff :: u32) i \<longleftrightarrow> k \<le> i \<and> i < k + 8 \<and> i < 32"
proof -
  have f: "bit (0xff :: u32) n \<longleftrightarrow> n < 8" for n
    by (subst bit_run[where k = 0 and m = 8]) auto
  have "bit (push_bit k 0xff :: u32) i \<longleftrightarrow> k \<le> i \<and> i < 32 \<and> i - k < 8"
    unfolding bit_push_bit_iff f by simp
  then show ?thesis by auto
qed

lemma byte_nonzero:
  "x AND push_bit k 0xff \<noteq> 0 \<longleftrightarrow> (\<exists>j. k \<le> j \<and> j < k + 8 \<and> bit x j)" for x :: u32
proof
  assume "x AND push_bit k 0xff \<noteq> 0"
  then obtain j where "j < 32" "bit (x AND push_bit k 0xff) j" using ex_bit by blast
  then show "\<exists>j. k \<le> j \<and> j < k + 8 \<and> bit x j" unfolding bit_and_iff bit_push_ff by blast
next
  assume "\<exists>j. k \<le> j \<and> j < k + 8 \<and> bit x j"
  then obtain j where "bit (x AND push_bit k 0xff) j"
    unfolding bit_and_iff bit_push_ff using bit_less_32 by blast
  then show "x AND push_bit k 0xff \<noteq> 0" by auto
qed

lemma bit_or_fold:
  fixes f :: "nat \<Rightarrow> u32"
  shows "bit (fold (\<lambda>i out. if P i then out OR f i else out) xs acc) n
    \<longleftrightarrow> bit acc n \<or> (\<exists>i \<in> set xs. P i \<and> bit (f i) n)"
  by (induction xs arbitrary: acc) (auto simp: bit_simps)

lemma bit_orcb:
  assumes "i < 32"
  shows "bit (orcb32 x) i \<longleftrightarrow> (\<exists>j. j div 8 = i div 8 \<and> bit x j)"
proof -
  have *: "bit (orcb32 x) i \<longleftrightarrow> (\<exists>k\<in>set [0..<4]. (\<exists>j. k * 8 \<le> j \<and> j < k * 8 + 8 \<and> bit x j)
      \<and> k * 8 \<le> i \<and> i < k * 8 + 8 \<and> i < 32)"
    unfolding orcb32_def bit_or_fold byte_nonzero bit_push_ff by (simp only: bit_0_eq bot_apply bot_bool_def simp_thms)
  have e: "j div 8 = k" if "k * 8 \<le> j" "j < k * 8 + 8" for j k :: nat
    using that by (intro div_nat_eqI) auto
  show ?thesis
  proof
    assume "bit (orcb32 x) i"
    then show "\<exists>j. j div 8 = i div 8 \<and> bit x j" unfolding * using e by metis
  next
    assume "\<exists>j. j div 8 = i div 8 \<and> bit x j"
    then obtain j where j: "j div 8 = i div 8" "bit x j" by blast
    have "i div 8 \<in> set [0..<4]" using assms by (simp del: upt_Suc)
    moreover have "i div 8 * 8 \<le> j" "j < i div 8 * 8 + 8" using j(1) by linarith+
    ultimately show "bit (orcb32 x) i" unfolding * using j(2) assms
      by (intro bexI[of _ "i div 8"] conjI exI[of _ j]) auto
  qed
qed

lemma bit_rev8:
  assumes "i < 32"
  shows "bit (rev8_32 x) i \<longleftrightarrow> bit x (8 * (3 - i div 8) + i mod 8)"
proof -
  have m: "bit (0xff :: u32) n \<longleftrightarrow> n < 8" "bit (0xff00 :: u32) n \<longleftrightarrow> 8 \<le> n \<and> n < 16"
    "bit (0xff0000 :: u32) n \<longleftrightarrow> 16 \<le> n \<and> n < 24" "bit (0xff000000 :: u32) n \<longleftrightarrow> 24 \<le> n \<and> n < 32" for n
    using bit_run[of "0xff :: u32" 8 0 n] bit_run[of "0xff00 :: u32" 8 8 n]
      bit_run[of "0xff0000 :: u32" 8 16 n] bit_run[of "0xff000000 :: u32" 8 24 n]
    by (simp_all only: ) simp_all
  define q r where "q = i div 8" and "r = i mod 8"
  have i: "i = 8 * q + r" "q < 4" "r < 8" using assms by (simp_all add: q_def r_def)
  have *: "bit (rev8_32 x) i \<longleftrightarrow> (24 \<le> i \<and> i - 24 < 8 \<and> bit x (i - 24))
     \<or> (8 \<le> i \<and> 8 \<le> i - 8 \<and> i - 8 < 16 \<and> bit x (i - 8))
     \<or> (16 \<le> 8 + i \<and> 8 + i < 24 \<and> bit x (8 + i)) \<or> (24 \<le> 24 + i \<and> 24 + i < 32 \<and> bit x (24 + i))"
    unfolding rev8_32_def bit_or_iff bit_push_bit_iff bit_drop_bit_eq comp_def bit_and_iff m
    using assms by auto
  from i consider "q = 0" | "q = 1" | "q = 2" | "q = 3" by linarith
  then show ?thesis
    unfolding * q_def[symmetric] r_def[symmetric] using i(3) unfolding i(1)
    by cases auto
qed
section \<open>Properties\<close>

text \<open>
  C36: CLMUL, CLMULH and CLMULR are the low half, the high half and the reversed half (bits 31 to 62) of the
  product of their operands as polynomials over the two-element field: bit \<^term>\<open>n\<close> is the parity of the
  number of ways to write the degree as a sum of degrees present in the operands.
\<close>

theorem carryless_product:
  assumes "n < 32"
  shows "(bit (clmul32 a b) n \<longleftrightarrow> poly_coeff a b n)
    \<and> (bit (clmulh32 a b) n \<longleftrightarrow> poly_coeff a b (n + 32))
    \<and> (bit (clmulr32 a b) n \<longleftrightarrow> poly_coeff a b (n + 31))"
  using clmul_coeff[OF assms] by blast

theorem carryless_product_witness:
  "bit (clmul32 3 3) 2 \<and> \<not> bit (clmul32 3 3) 1 \<and> poly_coeff 3 3 2"
proof -
  have "clmul32 3 3 = 5" by code_simp
  then show ?thesis using carryless_product[of 2 3 3] by (simp add: bit_simps)
qed

text \<open>
  C37: the Zbb unary and rotate instructions.  CLZ and CTZ locate the highest and the lowest set bit and give 32
  on zero; CPOP counts the set bits; ROR and ROL rotate by the operand modulo 32, except that a rotation by 0 has no
  result (the code shifts by 32 there, which is undefined); REV8 reverses the bytes; ORC.B sets exactly the bytes that are not zero.
\<close>

theorem zbb_spec:
  assumes "i < 32"
  shows "clz32 0 = 32 \<and> ctz32 0 = 32
    \<and> (x \<noteq> 0 \<longrightarrow> unat (clz32 x) < 32 \<and> bit x (31 - unat (clz32 x)) \<and> (\<forall>j > 31 - unat (clz32 x). \<not> bit x j)
         \<and> unat (ctz32 x) < 32 \<and> bit x (unat (ctz32 x)) \<and> (\<forall>j < unat (ctz32 x). \<not> bit x j))
    \<and> rv_popcount x = card {j. bit x j}
    \<and> (ror32 x y = None \<longleftrightarrow> y AND 0x1f = 0) \<and> (rol32 x y = None \<longleftrightarrow> y AND 0x1f = 0)
    \<and> (\<forall>r. ror32 x y = Some r \<longrightarrow> (bit r i \<longleftrightarrow> bit x ((i + unat (y AND 0x1f)) mod 32)))
    \<and> (\<forall>r. rol32 x y = Some r \<longrightarrow> (bit r i \<longleftrightarrow> bit x ((i + (32 - unat (y AND 0x1f))) mod 32)))
    \<and> (bit (rev8_32 x) i \<longleftrightarrow> bit x (8 * (3 - i div 8) + i mod 8))
    \<and> (bit (orcb32 x) i \<longleftrightarrow> (\<exists>j. j div 8 = i div 8 \<and> bit x j))"
proof -
  have *: "unat (clz32 x) = rv_clz x" "unat (ctz32 x) = rv_ctz x" if "x \<noteq> 0"
    using rv_clz_spec(1)[OF that] rv_ctz_spec(1)[OF that] that
    by (simp_all add: clz32_def ctz32_def unat_of_nat)
  have "rv_popcount x = card {j. bit x j}"
    unfolding rv_popcount_def
    by (subst distinct_card[symmetric]) (auto intro!: arg_cong[where f = card] dest: bit_less_32)
  moreover have "clz32 0 = 32 \<and> ctz32 0 = 32" by (simp add: clz32_def ctz32_def)
  moreover have "x \<noteq> 0 \<longrightarrow> unat (clz32 x) < 32 \<and> bit x (31 - unat (clz32 x)) \<and> (\<forall>j > 31 - unat (clz32 x). \<not> bit x j)
         \<and> unat (ctz32 x) < 32 \<and> bit x (unat (ctz32 x)) \<and> (\<forall>j < unat (ctz32 x). \<not> bit x j)"
    using rv_clz_spec[of x] rv_ctz_spec[of x] * by simp
  ultimately show ?thesis
    using bit_rotate[OF assms, of x y] rotate_defined[of x y] bit_rev8[OF assms, of x] bit_orcb[OF assms, of x] by blast
qed

theorem zbb_spec_witness:
  "bit (0x10 :: u32) (31 - unat (clz32 0x10)) \<and> (\<exists>r. ror32 1 1 = Some r \<and> bit r 31) \<and> bit (rev8_32 1) 24"
  using zbb_spec[of 31 "0x10" 0] zbb_spec[of 31 1 1] zbb_spec[of 24 1 1] by auto

text \<open>
  C38: of the helpers for compilers without builtins, the trailing-zero count agrees with the builtin, but the
  leading-zero count returns the index of the highest set bit, 31 minus the number of leading zeros.
\<close>

theorem generic_bit_counts:
  assumes "v \<noteq> 0"
  shows "rv_ctz_generic v = rv_ctz v \<and> rv_clz_generic v = ilog2 v"
  using rv_ctz_generic_eq[OF assms] rv_clz_generic_eq[OF assms] by (simp add: ilog2_def)

theorem generic_bit_counts_witness: "rv_clz_generic 1 = 0 \<and> rv_clz 1 = 31 \<and> rv_ctz_generic 8 = 3"
proof -
  have "rv_clz 1 = 31" "rv_ctz 8 = 3" by code_simp+
  then show ?thesis using generic_bit_counts[of 1] generic_bit_counts[of 8] by (simp add: ilog2_def)
qed

end
