(* ===== verification/Softfp.thy ===== *)
theory Softfp
  imports Rv_Machine
begin

text \<open>
  Floating-point support: the helpers of \<^verbatim>\<open>softfp.h\<close> and the comparisons of the bundled
  Berkeley SoftFloat library (\<^verbatim>\<open>softfloat/source/f32_*.c\<close>, with the RISC-V specialisation).  A
  \<^verbatim>\<open>float32_t\<close> is its 32-bit pattern.  A library function returns its result together with the
  exception flags it raises, which \<^verbatim>\<open>sf_call\<close> adds to the library's sticky flags.  The rounding
  arithmetic (addition to fused multiply-add, square root and the conversions) is a parameter, the
  record \<^verbatim>\<open>softfloat\<close>: functions of the rounding mode and the operands.
\<close>

section \<open>Patterns and classes\<close>

definition FMASK_SIGN :: u32 where "FMASK_SIGN = 0x80000000"
definition FMASK_EXPN :: u32 where "FMASK_EXPN = 0x7F800000"
definition FMASK_FRAC :: u32 where "FMASK_FRAC = 0x007FFFFF"
definition FMASK_QNAN :: u32 where "FMASK_QNAN = 0x00400000"
definition FFLAG_INVALID_OP :: u32 where "FFLAG_INVALID_OP = 0x10"
definition FFLAG_DIV_BY_ZERO :: u32 where "FFLAG_DIV_BY_ZERO = 0x8"
definition FFLAG_OVERFLOW :: u32 where "FFLAG_OVERFLOW = 0x4"
definition FFLAG_UNDERFLOW :: u32 where "FFLAG_UNDERFLOW = 0x2"
definition FFLAG_INEXACT :: u32 where "FFLAG_INEXACT = 0x1"
definition RV_NAN :: u32 where "RV_NAN = 0x7FC00000"

lemmas fmasks = FMASK_SIGN_def FMASK_EXPN_def FMASK_FRAC_def FMASK_QNAN_def RV_NAN_def
lemmas fflags = FFLAG_INVALID_OP_def FFLAG_DIV_BY_ZERO_def FFLAG_OVERFLOW_def FFLAG_UNDERFLOW_def
  FFLAG_INEXACT_def

definition calc_fclass :: "u32 \<Rightarrow> u32" where
  "calc_fclass f =
     (let sign = f AND FMASK_SIGN; expn = f AND FMASK_EXPN; frac = f AND FMASK_FRAC in
      if expn \<noteq> 0 then
        if expn \<noteq> FMASK_EXPN then (if sign \<noteq> 0 then 0x002 else 0x040)
        else if frac \<noteq> 0 then (if frac AND FMASK_QNAN \<noteq> 0 then 0x200 else 0x100)
        else if sign = 0 then 0x080 else 0x001
      else if frac \<noteq> 0 then (if sign \<noteq> 0 then 0x004 else 0x020)
      else (if sign \<noteq> 0 then 0x008 else 0x010))"

definition is_nan :: "u32 \<Rightarrow> bool" where
  "is_nan f = (let expn = f AND FMASK_EXPN; frac = f AND FMASK_FRAC in expn = FMASK_EXPN \<and> frac \<noteq> 0)"

section \<open>Flags and rounding mode\<close>

definition softfloat_flag_inexact :: u8 where "softfloat_flag_inexact = 1"
definition softfloat_flag_underflow :: u8 where "softfloat_flag_underflow = 2"
definition softfloat_flag_overflow :: u8 where "softfloat_flag_overflow = 4"
definition softfloat_flag_infinite :: u8 where "softfloat_flag_infinite = 8"
definition softfloat_flag_invalid :: u8 where "softfloat_flag_invalid = 16"

lemmas sf_flags = softfloat_flag_inexact_def softfloat_flag_underflow_def softfloat_flag_overflow_def
  softfloat_flag_infinite_def softfloat_flag_invalid_def

definition flag_if :: "u8 \<Rightarrow> u8 \<Rightarrow> u32 \<Rightarrow> u32 \<Rightarrow> u32" where
  "flag_if flags b f csr = (if flags AND b \<noteq> 0 then csr OR f else csr)"

definition set_fflag :: "'e riscv \<Rightarrow> 'e riscv" where
  "set_fflag rv =
     (let e = softfloat_exceptionFlags rv in
      rv\<lparr>csr_fcsr :=
           flag_if e softfloat_flag_inexact FFLAG_INEXACT
             (flag_if e softfloat_flag_underflow FFLAG_UNDERFLOW
               (flag_if e softfloat_flag_overflow FFLAG_OVERFLOW
                 (flag_if e softfloat_flag_infinite FFLAG_DIV_BY_ZERO
                   (flag_if e softfloat_flag_invalid FFLAG_INVALID_OP (csr_fcsr rv))))),
         softfloat_exceptionFlags := 0\<rparr>)"

text \<open>The five rounding modes have the same numbers in the instruction and in the library; any other
  number reaches \<^verbatim>\<open>__UNREACHABLE\<close>, \<^const>\<open>None\<close> here.\<close>

definition set_rounding_mode :: "u8 \<Rightarrow> 'e riscv \<Rightarrow> 'e riscv option" where
  "set_rounding_mode rm rv =
     (let frm = drop_bit 5 (csr_fcsr rv) AND NOT 8;
          rm = (if rm = 7 then ucast frm else rm) in
      if rm \<le> 4 then Some (rv\<lparr>softfloat_roundingMode := rm\<rparr>) else None)"

section \<open>Library comparisons\<close>

definition isNaNF32UI :: "u32 \<Rightarrow> bool" where
  "isNaNF32UI a \<longleftrightarrow> NOT a AND 0x7F800000 = 0 \<and> a AND 0x007FFFFF \<noteq> 0"

definition softfloat_isSigNaNF32UI :: "u32 \<Rightarrow> bool" where
  "softfloat_isSigNaNF32UI a \<longleftrightarrow> a AND 0x7FC00000 = 0x7F800000 \<and> a AND 0x003FFFFF \<noteq> 0"

definition signF32UI :: "u32 \<Rightarrow> bool" where
  "signF32UI a = (drop_bit 31 a \<noteq> 0)"

definition f32_eq :: "u32 \<Rightarrow> u32 \<Rightarrow> bool \<times> u8" where
  "f32_eq a b =
     (if isNaNF32UI a \<or> isNaNF32UI b
      then (False, if softfloat_isSigNaNF32UI a \<or> softfloat_isSigNaNF32UI b then softfloat_flag_invalid else 0)
      else (a = b \<or> push_bit 1 (a OR b) = 0, 0))"

text \<open>The comparison both \<^verbatim>\<open>f32_lt\<close> and \<^verbatim>\<open>f32_lt_quiet\<close> make of two numbers.\<close>

definition lt_bits :: "u32 \<Rightarrow> u32 \<Rightarrow> bool" where
  "lt_bits a b =
     (let signA = signF32UI a; signB = signF32UI b in
      if signA \<noteq> signB then signA \<and> push_bit 1 (a OR b) \<noteq> 0
      else a \<noteq> b \<and> (signA \<noteq> (a < b)))"

definition f32_lt :: "u32 \<Rightarrow> u32 \<Rightarrow> bool \<times> u8" where
  "f32_lt a b = (if isNaNF32UI a \<or> isNaNF32UI b then (False, softfloat_flag_invalid) else (lt_bits a b, 0))"

definition f32_le :: "u32 \<Rightarrow> u32 \<Rightarrow> bool \<times> u8" where
  "f32_le a b =
     (if isNaNF32UI a \<or> isNaNF32UI b then (False, softfloat_flag_invalid)
      else let signA = signF32UI a; signB = signF32UI b in
        (if signA \<noteq> signB then signA \<or> push_bit 1 (a OR b) = 0
         else a = b \<or> (signA \<noteq> (a < b)), 0))"

definition f32_lt_quiet :: "u32 \<Rightarrow> u32 \<Rightarrow> bool \<times> u8" where
  "f32_lt_quiet a b =
     (if isNaNF32UI a \<or> isNaNF32UI b
      then (False, if softfloat_isSigNaNF32UI a \<or> softfloat_isSigNaNF32UI b then softfloat_flag_invalid else 0)
      else (lt_bits a b, 0))"

definition f32_isSignalingNaN :: "u32 \<Rightarrow> bool" where
  "f32_isSignalingNaN a = softfloat_isSigNaNF32UI a"

section \<open>The rounding arithmetic\<close>

record softfloat =
  f32_mulAdd :: "u8 \<Rightarrow> u32 \<Rightarrow> u32 \<Rightarrow> u32 \<Rightarrow> u32 \<times> u8"
  f32_add :: "u8 \<Rightarrow> u32 \<Rightarrow> u32 \<Rightarrow> u32 \<times> u8"
  f32_sub :: "u8 \<Rightarrow> u32 \<Rightarrow> u32 \<Rightarrow> u32 \<times> u8"
  f32_mul :: "u8 \<Rightarrow> u32 \<Rightarrow> u32 \<Rightarrow> u32 \<times> u8"
  f32_div :: "u8 \<Rightarrow> u32 \<Rightarrow> u32 \<Rightarrow> u32 \<times> u8"
  f32_sqrt :: "u8 \<Rightarrow> u32 \<Rightarrow> u32 \<times> u8"
  f32_to_i32 :: "u8 \<Rightarrow> u32 \<Rightarrow> u32 \<times> u8"
  f32_to_ui32 :: "u8 \<Rightarrow> u32 \<Rightarrow> u32 \<times> u8"
  i32_to_f32 :: "u8 \<Rightarrow> u32 \<Rightarrow> u32 \<times> u8"
  ui32_to_f32 :: "u8 \<Rightarrow> u32 \<Rightarrow> u32 \<times> u8"

definition raise_flags :: "u8 \<Rightarrow> 'e riscv \<Rightarrow> 'e riscv" where
  "raise_flags fl rv = rv\<lparr>softfloat_exceptionFlags := softfloat_exceptionFlags rv OR fl\<rparr>"

definition sf_call :: "(u8 \<Rightarrow> u32 \<times> u8) \<Rightarrow> 'e riscv \<Rightarrow> u32 \<times> 'e riscv" where
  "sf_call f rv = (case f (softfloat_roundingMode rv) of (v, fl) \<Rightarrow> (v, raise_flags fl rv))"

definition sf_test :: "bool \<times> u8 \<Rightarrow> 'e riscv \<Rightarrow> bool \<times> 'e riscv" where
  "sf_test r rv = (fst r, raise_flags (snd r) rv)"

end
