(* ===== verification/Rv_Exec_F.thy ===== *)
theory Rv_Exec_F
  imports Rv_Exec Softfp
begin

text \<open>
  The instruction functions of the F extension.  The first argument of an arithmetic one is the record of
  library functions.  A rounding mode the switch of \<^verbatim>\<open>set_rounding_mode\<close> does not list is
  unreachable code in the source and aborts here.
\<close>

definition f1 :: "rv_insn \<Rightarrow> 'e riscv \<Rightarrow> u32" where "f1 ir rv = F rv (i_rs1 ir)"
definition f2 :: "rv_insn \<Rightarrow> 'e riscv \<Rightarrow> u32" where "f2 ir rv = F rv (i_rs2 ir)"
definition f3 :: "rv_insn \<Rightarrow> 'e riscv \<Rightarrow> u32" where "f3 ir rv = F rv (i_rs3 ir)"

definition do_flw :: "'e riscv_io \<Rightarrow> 'e rvop" where
  "do_flw io = RVOP 4 (\<lambda>lk ir cycle pc rv.
     let addr = x1 ir rv + i_imm ir in
     exc_misalign 3 LOAD_MISALIGNED False addr cycle pc rv
       (case io_read_w io addr rv of (v, rv) \<Rightarrow> Nextop (setF (i_rd ir) v rv) cycle pc))"

definition do_fsw :: "'e riscv_io \<Rightarrow> 'e rvop" where
  "do_fsw io = RVOP 4 (\<lambda>lk ir cycle pc rv.
     let addr = x1 ir rv + i_imm ir in
     exc_misalign 3 STORE_MISALIGNED False addr cycle pc rv
       (store_w io addr (f2 ir rv) cycle pc rv))"

text \<open>The common shape of the rounding instructions with a floating-point result: set the rounding mode,
  call the library, write the result, collect the flags.\<close>

definition fp_op :: "(rv_insn \<Rightarrow> 'e riscv \<Rightarrow> u8 \<Rightarrow> u32 \<times> u8) \<Rightarrow> 'e rvop" where
  "fp_op f lk ir cycle pc rv =
     (case set_rounding_mode (i_rm ir) rv of
        None \<Rightarrow> Abort
      | Some rv \<Rightarrow>
          (case sf_call (f ir rv) rv of (v, rv) \<Rightarrow> Nextop (set_fflag (setF (i_rd ir) v rv)) cycle pc))"

definition do_fmadds :: "softfloat \<Rightarrow> 'e rvop" where
  "do_fmadds sf = RVOP 4 (fp_op (\<lambda>ir rv rm. f32_mulAdd sf rm (f1 ir rv) (f2 ir rv) (f3 ir rv)))"
definition do_fmsubs :: "softfloat \<Rightarrow> 'e rvop" where
  "do_fmsubs sf = RVOP 4 (fp_op (\<lambda>ir rv rm.
     f32_mulAdd sf rm (f1 ir rv) (f2 ir rv) (f3 ir rv XOR FMASK_SIGN)))"
definition do_fnmsubs :: "softfloat \<Rightarrow> 'e rvop" where
  "do_fnmsubs sf = RVOP 4 (fp_op (\<lambda>ir rv rm.
     f32_mulAdd sf rm (f1 ir rv XOR FMASK_SIGN) (f2 ir rv) (f3 ir rv)))"
definition do_fnmadds :: "softfloat \<Rightarrow> 'e rvop" where
  "do_fnmadds sf = RVOP 4 (fp_op (\<lambda>ir rv rm.
     f32_mulAdd sf rm (f1 ir rv XOR FMASK_SIGN) (f2 ir rv) (f3 ir rv XOR FMASK_SIGN)))"
definition do_fadds :: "softfloat \<Rightarrow> 'e rvop" where
  "do_fadds sf = RVOP 4 (fp_op (\<lambda>ir rv rm. f32_add sf rm (f1 ir rv) (f2 ir rv)))"
definition do_fsubs :: "softfloat \<Rightarrow> 'e rvop" where
  "do_fsubs sf = RVOP 4 (fp_op (\<lambda>ir rv rm. f32_sub sf rm (f1 ir rv) (f2 ir rv)))"
definition do_fmuls :: "softfloat \<Rightarrow> 'e rvop" where
  "do_fmuls sf = RVOP 4 (fp_op (\<lambda>ir rv rm. f32_mul sf rm (f1 ir rv) (f2 ir rv)))"
definition do_fdivs :: "softfloat \<Rightarrow> 'e rvop" where
  "do_fdivs sf = RVOP 4 (fp_op (\<lambda>ir rv rm. f32_div sf rm (f1 ir rv) (f2 ir rv)))"
definition do_fsqrts :: "softfloat \<Rightarrow> 'e rvop" where
  "do_fsqrts sf = RVOP 4 (fp_op (\<lambda>ir rv rm. f32_sqrt sf rm (f1 ir rv)))"

text \<open>Sign injection and moves, without the library.\<close>

definition set_fd :: "(rv_insn \<Rightarrow> 'e riscv \<Rightarrow> u32) \<Rightarrow> 'e rvop" where
  "set_fd f lk ir cycle pc rv = Nextop (setF (i_rd ir) (f ir rv) rv) cycle pc"

definition do_fsgnjs :: "'e rvop" where
  "do_fsgnjs = RVOP 4 (set_fd (\<lambda>ir rv. (f1 ir rv AND NOT FMASK_SIGN) OR (f2 ir rv AND FMASK_SIGN)))"
definition do_fsgnjns :: "'e rvop" where
  "do_fsgnjns = RVOP 4 (set_fd (\<lambda>ir rv. (f1 ir rv AND NOT FMASK_SIGN) OR (NOT (f2 ir rv) AND FMASK_SIGN)))"
definition do_fsgnjxs :: "'e rvop" where
  "do_fsgnjxs = RVOP 4 (set_fd (\<lambda>ir rv. f1 ir rv XOR (f2 ir rv AND FMASK_SIGN)))"

text \<open>Minimum and maximum.  The comparisons may raise the library's invalid flag, which these two leave for
  the next instruction that collects flags.\<close>

definition signal_nan :: "rv_insn \<Rightarrow> 'e riscv \<Rightarrow> 'e riscv" where
  "signal_nan ir rv =
     (if f32_isSignalingNaN (f1 ir rv) \<or> f32_isSignalingNaN (f2 ir rv)
      then rv\<lparr>csr_fcsr := csr_fcsr rv OR FFLAG_INVALID_OP\<rparr> else rv)"

text \<open>\<^verbatim>\<open>a < b || (a == b && sign)\<close> with C's short-circuit evaluation.\<close>

definition less_or_signed_eq :: "u32 \<Rightarrow> u32 \<Rightarrow> u32 \<Rightarrow> u32 \<Rightarrow> u32 \<Rightarrow> 'e riscv \<Rightarrow> bool \<times> 'e riscv" where
  "less_or_signed_eq a b c d s rv =
     (case sf_test (f32_lt_quiet a b) rv of
        (True, rv) \<Rightarrow> (True, rv)
      | (False, rv) \<Rightarrow>
          (case sf_test (f32_eq c d) rv of (e, rv) \<Rightarrow> (e \<and> s AND FMASK_SIGN \<noteq> 0, rv)))"

definition select_f :: "rv_insn \<Rightarrow> bool \<Rightarrow> 'e riscv \<Rightarrow> 'e riscv" where
  "select_f ir first rv =
     setF (i_rd ir)
       (if is_nan (f1 ir rv) \<and> is_nan (f2 ir rv) then RV_NAN
        else if first \<or> is_nan (f2 ir rv) then f1 ir rv else f2 ir rv) rv"

definition do_fmins :: "'e rvop" where
  "do_fmins = RVOP 4 (\<lambda>lk ir cycle pc rv.
     case less_or_signed_eq (f1 ir rv) (f2 ir rv) (f1 ir rv) (f2 ir rv) (f1 ir rv) (signal_nan ir rv) of
       (is_less, rv) \<Rightarrow> Nextop (select_f ir is_less rv) cycle pc)"

definition do_fmaxs :: "'e rvop" where
  "do_fmaxs = RVOP 4 (\<lambda>lk ir cycle pc rv.
     case less_or_signed_eq (f2 ir rv) (f1 ir rv) (f1 ir rv) (f2 ir rv) (f2 ir rv) (signal_nan ir rv) of
       (is_greater, rv) \<Rightarrow> Nextop (select_f ir is_greater rv) cycle pc)"

text \<open>Conversions to an integer register.\<close>

definition fp_to_int :: "(u8 \<Rightarrow> u32 \<Rightarrow> u32 \<times> u8) \<Rightarrow> 'e rvop" where
  "fp_to_int f lk ir cycle pc rv =
     (case set_rounding_mode (i_rm ir) rv of
        None \<Rightarrow> Abort
      | Some rv \<Rightarrow>
          (case sf_call (\<lambda>rm. f rm (f1 ir rv)) rv of
             (ret, rv) \<Rightarrow> Nextop (set_fflag (setX_nz (i_rd ir) ret rv)) cycle pc))"

definition do_fcvtws :: "softfloat \<Rightarrow> 'e rvop" where "do_fcvtws sf = RVOP 4 (fp_to_int (f32_to_i32 sf))"
definition do_fcvtwus :: "softfloat \<Rightarrow> 'e rvop" where "do_fcvtwus sf = RVOP 4 (fp_to_int (f32_to_ui32 sf))"

definition do_fmvxw :: "'e rvop" where
  "do_fmvxw = RVOP 4 (\<lambda>lk ir cycle pc rv. Nextop (setX_nz (i_rd ir) (f1 ir rv) rv) cycle pc)"

definition fp_compare :: "(u32 \<Rightarrow> u32 \<Rightarrow> bool \<times> u8) \<Rightarrow> 'e rvop" where
  "fp_compare f lk ir cycle pc rv =
     (case sf_test (f (f1 ir rv) (f2 ir rv)) rv of
        (r, rv) \<Rightarrow> Nextop (set_fflag (setX_nz (i_rd ir) (if r then 1 else 0) rv)) cycle pc)"

definition do_feqs :: "'e rvop" where "do_feqs = RVOP 4 (fp_compare f32_eq)"
definition do_flts :: "'e rvop" where "do_flts = RVOP 4 (fp_compare f32_lt)"
definition do_fles :: "'e rvop" where "do_fles = RVOP 4 (fp_compare f32_le)"

definition do_fclasss :: "'e rvop" where
  "do_fclasss = RVOP 4 (\<lambda>lk ir cycle pc rv.
     Nextop (setX_nz (i_rd ir) (calc_fclass (f1 ir rv)) rv) cycle pc)"

definition do_fcvtsw :: "softfloat \<Rightarrow> 'e rvop" where
  "do_fcvtsw sf = RVOP 4 (fp_op (\<lambda>ir rv rm. i32_to_f32 sf rm (x1 ir rv)))"
definition do_fcvtswu :: "softfloat \<Rightarrow> 'e rvop" where
  "do_fcvtswu sf = RVOP 4 (fp_op (\<lambda>ir rv rm. ui32_to_f32 sf rm (x1 ir rv)))"

definition do_fmvwx :: "'e rvop" where
  "do_fmvwx = RVOP 4 (set_fd (\<lambda>ir rv. x1 ir rv))"

end
