(* ===== verification/Rv_Exec_C.thy ===== *)
theory Rv_Exec_C
  imports Rv_Exec_F
begin

text \<open>
  The instruction functions of the C extension, which the build without the Tensix extension decodes.
  The macro advances the program counter by 2 for all of them.
\<close>

definition rv_reg_ra :: u8 where "rv_reg_ra = 1"
definition rv_reg_sp :: u8 where "rv_reg_sp = 2"

definition do_caddi4spn :: "'e rvop" where
  "do_caddi4spn = RVOP 2 (set_rd (\<lambda>ir pc rv. X rv rv_reg_sp + ucast (ucast (i_imm ir) :: u16)))"

text \<open>The loads and stores differ in the base register, the register file and the flag recorded if they
  trap: the floating-point ones record that the instruction is not compressed.\<close>

definition c_load :: "'e riscv_io \<Rightarrow> bool \<Rightarrow> (rv_insn \<Rightarrow> u8) \<Rightarrow> (u8 \<Rightarrow> u32 \<Rightarrow> 'e riscv \<Rightarrow> 'e riscv) \<Rightarrow> 'e rvop" where
  "c_load io compress base put lk ir cycle pc rv =
     (let addr = X rv (base ir) + i_imm ir in
      exc_misalign 3 LOAD_MISALIGNED compress addr cycle pc rv
        (case io_read_w io addr rv of (v, rv) \<Rightarrow> Nextop (put (i_rd ir) v rv) cycle pc))"

definition c_store :: "'e riscv_io \<Rightarrow> bool \<Rightarrow> (rv_insn \<Rightarrow> u8) \<Rightarrow> (rv_insn \<Rightarrow> 'e riscv \<Rightarrow> u32) \<Rightarrow> 'e rvop" where
  "c_store io compress base get lk ir cycle pc rv =
     (let addr = X rv (base ir) + i_imm ir in
      exc_misalign 3 STORE_MISALIGNED compress addr cycle pc rv
        (store_w io addr (get ir rv) cycle pc rv))"

definition do_clw :: "'e riscv_io \<Rightarrow> 'e rvop" where
  "do_clw io = RVOP 2 (c_load io True i_rs1 setX)"
definition do_csw :: "'e riscv_io \<Rightarrow> 'e rvop" where
  "do_csw io = RVOP 2 (c_store io True i_rs1 x2)"

definition do_cnop :: "'e rvop" where
  "do_cnop = RVOP 2 (\<lambda>lk ir cycle pc rv. Nextop rv cycle pc)"

definition do_caddi :: "'e rvop" where
  "do_caddi = RVOP 2 (set_rd (\<lambda>ir pc rv. X rv (i_rd ir) + scast (ucast (i_imm ir) :: u16)))"

definition do_cjal :: "'e rvop" where
  "do_cjal = RVOP 2 (\<lambda>lk ir cycle pc rv.
     jump_taken lk cycle (pc + i_imm ir) (setX rv_reg_ra (pc + 2) rv))"

definition do_cli :: "'e rvop" where
  "do_cli = RVOP 2 (set_rd (\<lambda>ir pc rv. i_imm ir))"
definition do_caddi16sp :: "'e rvop" where
  "do_caddi16sp = RVOP 2 (set_rd (\<lambda>ir pc rv. X rv (i_rd ir) + i_imm ir))"
definition do_clui :: "'e rvop" where
  "do_clui = RVOP 2 (set_rd (\<lambda>ir pc rv. i_imm ir))"

text \<open>Three instructions update \<^verbatim>\<open>rs1\<close> in place.\<close>

definition upd_rs1 :: "(rv_insn \<Rightarrow> u32 \<Rightarrow> u32) \<Rightarrow> 'e rvop" where
  "upd_rs1 f lk ir cycle pc rv = Nextop (setX (i_rs1 ir) (f ir (x1 ir rv)) rv) cycle pc"

definition do_csrli :: "'e rvop" where
  "do_csrli = RVOP 2 (upd_rs1 (\<lambda>ir x. drop_bit (unat (i_shamt ir)) x))"

definition csrai32 :: "nat \<Rightarrow> u32 \<Rightarrow> u32" where
  "csrai32 shamt x =
     (let msk = 0x80000000 AND x in
      fold (\<lambda>i v. v OR drop_bit i msk) [0..<shamt] (drop_bit shamt x))"

definition do_csrai :: "'e rvop" where
  "do_csrai = RVOP 2 (upd_rs1 (\<lambda>ir x. csrai32 (unat (i_shamt ir)) x))"

definition do_candi :: "'e rvop" where
  "do_candi = RVOP 2 (upd_rs1 (\<lambda>ir x. x AND i_imm ir))"

definition do_csub :: "'e rvop" where
  "do_csub = RVOP 2 (set_rd (\<lambda>ir pc rv. x1 ir rv - x2 ir rv))"
definition do_cxor :: "'e rvop" where
  "do_cxor = RVOP 2 (set_rd (\<lambda>ir pc rv. x1 ir rv XOR x2 ir rv))"
definition do_cor :: "'e rvop" where
  "do_cor = RVOP 2 (set_rd (\<lambda>ir pc rv. x1 ir rv OR x2 ir rv))"
definition do_cand :: "'e rvop" where
  "do_cand = RVOP 2 (set_rd (\<lambda>ir pc rv. x1 ir rv AND x2 ir rv))"

definition do_cj :: "'e rvop" where
  "do_cj = RVOP 2 (\<lambda>lk ir cycle pc rv. jump_taken lk cycle (pc + i_imm ir) rv)"

text \<open>The two conditional branches follow their chain pointers on both sides.\<close>

definition c_branch :: "(u32 \<Rightarrow> bool) \<Rightarrow> 'e rvop" where
  "c_branch untaken_if lk ir cycle pc rv =
     (if untaken_if (x1 ir rv) then
        let rv = rv\<lparr>is_branch_taken := False\<rparr> in
        (case branch_untaken lk of
           None \<Rightarrow> Nextop rv cycle pc
         | Some b \<Rightarrow> Tail b (rv\<lparr>last_pc := pc + 2\<rparr>) cycle (pc + 2))
      else jump_taken lk cycle (pc + i_imm ir) (rv\<lparr>is_branch_taken := True\<rparr>))"

definition do_cbeqz :: "'e rvop" where "do_cbeqz = RVOP 2 (c_branch (\<lambda>x. x \<noteq> 0))"
definition do_cbnez :: "'e rvop" where "do_cbnez = RVOP 2 (c_branch (\<lambda>x. x = 0))"

definition do_cslli :: "'e rvop" where
  "do_cslli = RVOP 2 (set_rd (\<lambda>ir pc rv. push_bit (unat (ucast (i_imm ir) :: u8)) (X rv (i_rd ir))))"

definition do_clwsp :: "'e riscv_io \<Rightarrow> 'e rvop" where
  "do_clwsp io = RVOP 2 (c_load io True (\<lambda>_. rv_reg_sp) setX)"

definition do_cjr :: "'e rvop" where
  "do_cjr = RVOP 2 (\<lambda>lk ir cycle pc rv. Lookup rv cycle (x1 ir rv))"

definition do_cmv :: "'e rvop" where
  "do_cmv = RVOP 2 (set_rd (\<lambda>ir pc rv. x2 ir rv))"

definition do_cebreak :: "'e rvop" where
  "do_cebreak = RVOP 2 (\<lambda>lk ir cycle pc rv.
     Return True (ebreak_handler (rv\<lparr>compressed := True, csr_cycle := cycle, PC := pc\<rparr>)))"

definition do_cjalr :: "'e rvop" where
  "do_cjalr = RVOP 2 (\<lambda>lk ir cycle pc rv.
     let jump_to = x1 ir rv in Lookup (setX rv_reg_ra (pc + 2) rv) cycle jump_to)"

definition do_cadd :: "'e rvop" where
  "do_cadd = RVOP 2 (set_rd (\<lambda>ir pc rv. x1 ir rv + x2 ir rv))"

definition do_cswsp :: "'e riscv_io \<Rightarrow> 'e rvop" where
  "do_cswsp io = RVOP 2 (c_store io True (\<lambda>_. rv_reg_sp) x2)"

definition do_cflwsp :: "'e riscv_io \<Rightarrow> 'e rvop" where
  "do_cflwsp io = RVOP 2 (c_load io False (\<lambda>_. rv_reg_sp) setF)"
definition do_cfswsp :: "'e riscv_io \<Rightarrow> 'e rvop" where
  "do_cfswsp io = RVOP 2 (c_store io False (\<lambda>_. rv_reg_sp) f2)"
definition do_cflw :: "'e riscv_io \<Rightarrow> 'e rvop" where
  "do_cflw io = RVOP 2 (c_load io False i_rs1 setF)"
definition do_cfsw :: "'e riscv_io \<Rightarrow> 'e rvop" where
  "do_cfsw io = RVOP 2 (c_store io False i_rs1 f2)"

section \<open>The shift loop\<close>

text \<open>C.SRAI shifts logically and then copies the sign bit in a loop; that is the arithmetic shift.\<close>

lemma csrai32_arith:
  assumes "n < 32"
  shows "csrai32 n x = signed_drop_bit n x"
proof (rule bit_word_eqI)
  fix i assume i: "i < LENGTH(32)"
  have f: "bit (fold (\<lambda>i v. v OR drop_bit i m) js acc) k \<longleftrightarrow> bit acc k \<or> (\<exists>j \<in> set js. bit m (j + k))"
    for acc m :: u32 and js k
    by (induction js arbitrary: acc) (auto simp: bit_simps)
  have s: "bit (0x80000000 AND x) k \<longleftrightarrow> k = 31 \<and> bit x 31" for k
    using bit_run[of "0x80000000 :: u32" 1 31 k] by (cases "k = 31") (auto simp: bit_and_iff)
  show "bit (csrai32 n x) i = bit (signed_drop_bit n x) i"
    unfolding csrai32_def Let_def f s bit_signed_drop_bit_iff bit_drop_bit_eq comp_def
    using assms i by (auto simp: bit_high intro!: bexI[of _ "31 - i"])
qed

end
