(* ===== verification/Rv_Dispatch.thy ===== *)
theory Rv_Dispatch
  imports Rv_Exec_MA Rv_Exec_Zb Rv_Exec_C
begin

text \<open>
  The remaining instruction functions of \<^verbatim>\<open>emulate.c\<close> (the five fused instructions, the Tensix
  instruction and the load from a mailbox), the dispatch table, and the execution of the nodes of a
  basic block.  The Tensix functions an instruction function calls are the components of a record, like
  the memory callbacks: \<^verbatim>\<open>tt_step_direct\<close> is the pair of calls \<^verbatim>\<open>tensix_set_direct\<close> and
  \<^verbatim>\<open>tensix_step_direct\<close>, and \<^verbatim>\<open>tt_stalled\<close> the test of the core's mailbox stall flag.
\<close>

record 'e machine_ops =
  m_sf :: softfloat
  m_io :: "'e riscv_io"
  tt_step_direct :: "'e \<Rightarrow> u32 \<Rightarrow> int \<Rightarrow> (bool \<times> 'e) option"
  tt_stalled :: "'e \<Rightarrow> int \<Rightarrow> bool"

section \<open>Fused instructions\<close>

text \<open>The operands of a fused instruction; reading past the array is undefined in C and aborts here.\<close>

definition with_fuse :: "rv_insn \<Rightarrow> (opcode_fuse_t list \<Rightarrow> 'e outcome) \<Rightarrow> 'e outcome" where
  "with_fuse ir body =
     (if length (i_fuse ir) < unat (i_imm2 ir) then Abort else body (take (unat (i_imm2 ir)) (i_fuse ir)))"

definition do_fuse1 :: "'e rvop" where
  "do_fuse1 lk ir cycle pc rv = with_fuse ir (\<lambda>fs.
     Nextop (fold (\<lambda>f. setX (f_rd f) (f_imm f)) fs rv) (cycle + ucast (i_imm2 ir)) (pc + i_imm2 ir * 4))"

definition do_fuse2 :: "'e rvop" where
  "do_fuse2 lk ir cycle pc rv =
     (let rv = setX (i_rd ir) (i_imm ir) rv;
          rv = setX (i_rs2 ir) (X rv (i_rd ir) + X rv (i_rs1 ir)) rv in
      Nextop rv (cycle + 2) (pc + 8))"

fun fuse3_loop :: "'e riscv_io \<Rightarrow> opcode_fuse_t list \<Rightarrow> u64 \<Rightarrow> u32 \<Rightarrow> 'e riscv \<Rightarrow> 'e outcome" where
  "fuse3_loop io [] cycle pc rv = Nextop rv cycle pc"
| "fuse3_loop io (f # fs) cycle pc rv =
     (let addr = X rv (f_rs1 f) + f_imm f in
      exc_misalign 3 STORE_MISALIGNED False addr cycle pc rv
        (case io_write_w io addr (X rv (f_rs2 f)) rv of
           None \<Rightarrow> Abort
         | Some rv \<Rightarrow> fuse3_loop io fs cycle pc rv))"

fun fuse4_loop :: "'e riscv_io \<Rightarrow> opcode_fuse_t list \<Rightarrow> u64 \<Rightarrow> u32 \<Rightarrow> 'e riscv \<Rightarrow> 'e outcome" where
  "fuse4_loop io [] cycle pc rv = Nextop rv cycle pc"
| "fuse4_loop io (f # fs) cycle pc rv =
     (let addr = X rv (f_rs1 f) + f_imm f in
      exc_misalign 3 LOAD_MISALIGNED False addr cycle pc rv
        (case io_read_w io addr rv of (v, rv) \<Rightarrow> fuse4_loop io fs cycle pc (setX (f_rd f) v rv)))"

fun fuse5_loop :: "opcode_fuse_t list \<Rightarrow> 'e riscv \<Rightarrow> 'e riscv option" where
  "fuse5_loop [] rv = Some rv"
| "fuse5_loop (f # fs) rv =
     (case shift_func (f_opcode f) (X rv (f_rs1 f)) (f_imm f) of
        None \<Rightarrow> None
      | Some v \<Rightarrow> fuse5_loop fs (setX (f_rd f) v rv))"

definition advance :: "u32 \<Rightarrow> 'e outcome \<Rightarrow> 'e outcome" where
  "advance n r = (case r of Nextop rv cycle pc \<Rightarrow> Nextop rv cycle (pc + n) | r \<Rightarrow> r)"

definition do_fuse3 :: "'e riscv_io \<Rightarrow> 'e rvop" where
  "do_fuse3 io lk ir cycle pc rv = with_fuse ir (\<lambda>fs.
     advance (i_imm2 ir * 4) (fuse3_loop io fs (cycle + ucast (i_imm2 ir)) pc rv))"

definition do_fuse4 :: "'e riscv_io \<Rightarrow> 'e rvop" where
  "do_fuse4 io lk ir cycle pc rv = with_fuse ir (\<lambda>fs.
     advance (i_imm2 ir * 4) (fuse4_loop io fs (cycle + ucast (i_imm2 ir)) pc rv))"

definition do_fuse5 :: "'e rvop" where
  "do_fuse5 lk ir cycle pc rv = with_fuse ir (\<lambda>fs.
     case fuse5_loop fs rv of
       None \<Rightarrow> Abort
     | Some rv \<Rightarrow> Nextop rv (cycle + ucast (i_imm2 ir)) (pc + i_imm2 ir * 4))"

section \<open>Tensix instructions and mailbox loads\<close>

definition do_ttinsn :: "'e machine_ops \<Rightarrow> 'e rvop" where
  "do_ttinsn M lk ir cycle pc rv =
     (let cycle = cycle + 1; insn = i_imm ir in
      case (if has_tensix rv then tt_step_direct M (env rv) insn (core_id rv) else Some (False, env rv)) of
        None \<Rightarrow> Abort
      | Some (True, e) \<Rightarrow> Return True (rv\<lparr>env := e, csr_cycle := cycle, PC := pc + 4\<rparr>)
      | Some (False, e) \<Rightarrow> Return False (rv\<lparr>env := e, csr_cycle := cycle, PC := pc\<rparr>))"

definition do_lw_mailbox :: "'e machine_ops \<Rightarrow> 'e rvop" where
  "do_lw_mailbox M lk ir cycle pc rv =
     (let cycle = cycle + 1; rs1_val = x1 ir rv; addr = rs1_val + i_imm ir in
      case io_read_w (m_io M) addr rv of (v, rv) \<Rightarrow>
        let rv = setX (i_rd ir) v rv in
        if tt_stalled M (env rv) (core_id rv)
        then Return False ((setX (i_rs1 ir) rs1_val rv)\<lparr>csr_cycle := cycle, PC := pc\<rparr>)
        else Return True (rv\<lparr>csr_cycle := cycle, PC := pc + 4\<rparr>))"

section \<open>The dispatch table\<close>

text \<open>A build without system emulation has no entry for SRET, which its decoder does not accept.\<close>

definition no_entry :: "'e rvop" where
  "no_entry lk ir cycle pc rv = Abort"

primrec do_base :: "'e riscv_io \<Rightarrow> rv_base \<Rightarrow> 'e rvop" where
  "do_base io rv_insn_nop = do_nop"
| "do_base io rv_insn_lui = do_lui"
| "do_base io rv_insn_auipc = do_auipc"
| "do_base io rv_insn_jal = do_jal"
| "do_base io rv_insn_jalr = do_jalr"
| "do_base io rv_insn_beq = do_beq"
| "do_base io rv_insn_bne = do_bne"
| "do_base io rv_insn_blt = do_blt"
| "do_base io rv_insn_bge = do_bge"
| "do_base io rv_insn_bltu = do_bltu"
| "do_base io rv_insn_bgeu = do_bgeu"
| "do_base io rv_insn_lb = do_lb io"
| "do_base io rv_insn_lh = do_lh io"
| "do_base io rv_insn_lw = do_lw io"
| "do_base io rv_insn_lbu = do_lbu io"
| "do_base io rv_insn_lhu = do_lhu io"
| "do_base io rv_insn_sb = do_sb io"
| "do_base io rv_insn_sh = do_sh io"
| "do_base io rv_insn_sw = do_sw io"
| "do_base io rv_insn_addi = do_addi"
| "do_base io rv_insn_slti = do_slti"
| "do_base io rv_insn_sltiu = do_sltiu"
| "do_base io rv_insn_xori = do_xori"
| "do_base io rv_insn_ori = do_ori"
| "do_base io rv_insn_andi = do_andi"
| "do_base io rv_insn_slli = do_slli"
| "do_base io rv_insn_srli = do_srli"
| "do_base io rv_insn_srai = do_srai"
| "do_base io rv_insn_add = do_add"
| "do_base io rv_insn_sub = do_sub"
| "do_base io rv_insn_sll = do_sll"
| "do_base io rv_insn_slt = do_slt"
| "do_base io rv_insn_sltu = do_sltu"
| "do_base io rv_insn_xor = do_xor"
| "do_base io rv_insn_srl = do_srl"
| "do_base io rv_insn_sra = do_sra"
| "do_base io rv_insn_or = do_or"
| "do_base io rv_insn_and = do_and"
| "do_base io rv_insn_fence = do_fence"
| "do_base io rv_insn_ecall = do_ecall io"
| "do_base io rv_insn_ebreak = do_ebreak"

primrec do_priv :: "rv_priv \<Rightarrow> 'e rvop" where
  "do_priv rv_insn_wfi = do_wfi"
| "do_priv rv_insn_uret = do_uret"
| "do_priv rv_insn_sret = no_entry"
| "do_priv rv_insn_hret = do_hret"
| "do_priv rv_insn_mret = do_mret"
| "do_priv rv_insn_sfencevma = do_sfencevma"

primrec do_zi :: "rv_zi \<Rightarrow> 'e rvop" where
  "do_zi rv_insn_fencei = do_fencei"
| "do_zi rv_insn_csrrw = do_csrrw"
| "do_zi rv_insn_csrrs = do_csrrs"
| "do_zi rv_insn_csrrc = do_csrrc"
| "do_zi rv_insn_csrrwi = do_csrrwi"
| "do_zi rv_insn_csrrsi = do_csrrsi"
| "do_zi rv_insn_csrrci = do_csrrci"

primrec do_zb :: "rv_zb \<Rightarrow> 'e rvop" where
  "do_zb rv_insn_sh1add = do_sh1add"
| "do_zb rv_insn_sh2add = do_sh2add"
| "do_zb rv_insn_sh3add = do_sh3add"
| "do_zb rv_insn_andn = do_andn"
| "do_zb rv_insn_orn = do_orn"
| "do_zb rv_insn_xnor = do_xnor"
| "do_zb rv_insn_clz = do_clz"
| "do_zb rv_insn_ctz = do_ctz"
| "do_zb rv_insn_cpop = do_cpop"
| "do_zb rv_insn_max = do_max"
| "do_zb rv_insn_maxu = do_maxu"
| "do_zb rv_insn_min = do_min"
| "do_zb rv_insn_minu = do_minu"
| "do_zb rv_insn_sextb = do_sextb"
| "do_zb rv_insn_sexth = do_sexth"
| "do_zb rv_insn_zexth = do_zexth"
| "do_zb rv_insn_rol = do_rol"
| "do_zb rv_insn_ror = do_ror"
| "do_zb rv_insn_rori = do_rori"
| "do_zb rv_insn_orcb = do_orcb"
| "do_zb rv_insn_rev8 = do_rev8"
| "do_zb rv_insn_clmul = do_clmul"
| "do_zb rv_insn_clmulh = do_clmulh"
| "do_zb rv_insn_clmulr = do_clmulr"
| "do_zb rv_insn_bclr = do_bclr"
| "do_zb rv_insn_bclri = do_bclri"
| "do_zb rv_insn_bext = do_bext"
| "do_zb rv_insn_bexti = do_bexti"
| "do_zb rv_insn_binv = do_binv"
| "do_zb rv_insn_binvi = do_binvi"
| "do_zb rv_insn_bset = do_bset"
| "do_zb rv_insn_bseti = do_bseti"

primrec do_m :: "rv_m \<Rightarrow> 'e rvop" where
  "do_m rv_insn_mul = do_mul"
| "do_m rv_insn_mulh = do_mulh"
| "do_m rv_insn_mulhsu = do_mulhsu"
| "do_m rv_insn_mulhu = do_mulhu"
| "do_m rv_insn_div = do_div"
| "do_m rv_insn_divu = do_divu"
| "do_m rv_insn_rem = do_rem"
| "do_m rv_insn_remu = do_remu"

primrec do_a :: "'e riscv_io \<Rightarrow> rv_a \<Rightarrow> 'e rvop" where
  "do_a io rv_insn_lrw = do_lrw io"
| "do_a io rv_insn_scw = do_scw io"
| "do_a io rv_insn_amoswapw = do_amoswapw io"
| "do_a io rv_insn_amoaddw = do_amoaddw io"
| "do_a io rv_insn_amoxorw = do_amoxorw io"
| "do_a io rv_insn_amoandw = do_amoandw io"
| "do_a io rv_insn_amoorw = do_amoorw io"
| "do_a io rv_insn_amominw = do_amominw io"
| "do_a io rv_insn_amomaxw = do_amomaxw io"
| "do_a io rv_insn_amominuw = do_amominuw io"
| "do_a io rv_insn_amomaxuw = do_amomaxuw io"

primrec do_f :: "softfloat \<Rightarrow> 'e riscv_io \<Rightarrow> rv_f \<Rightarrow> 'e rvop" where
  "do_f sf io rv_insn_flw = do_flw io"
| "do_f sf io rv_insn_fsw = do_fsw io"
| "do_f sf io rv_insn_fmadds = do_fmadds sf"
| "do_f sf io rv_insn_fmsubs = do_fmsubs sf"
| "do_f sf io rv_insn_fnmsubs = do_fnmsubs sf"
| "do_f sf io rv_insn_fnmadds = do_fnmadds sf"
| "do_f sf io rv_insn_fadds = do_fadds sf"
| "do_f sf io rv_insn_fsubs = do_fsubs sf"
| "do_f sf io rv_insn_fmuls = do_fmuls sf"
| "do_f sf io rv_insn_fdivs = do_fdivs sf"
| "do_f sf io rv_insn_fsqrts = do_fsqrts sf"
| "do_f sf io rv_insn_fsgnjs = do_fsgnjs"
| "do_f sf io rv_insn_fsgnjns = do_fsgnjns"
| "do_f sf io rv_insn_fsgnjxs = do_fsgnjxs"
| "do_f sf io rv_insn_fmins = do_fmins"
| "do_f sf io rv_insn_fmaxs = do_fmaxs"
| "do_f sf io rv_insn_fcvtws = do_fcvtws sf"
| "do_f sf io rv_insn_fcvtwus = do_fcvtwus sf"
| "do_f sf io rv_insn_fmvxw = do_fmvxw"
| "do_f sf io rv_insn_feqs = do_feqs"
| "do_f sf io rv_insn_flts = do_flts"
| "do_f sf io rv_insn_fles = do_fles"
| "do_f sf io rv_insn_fclasss = do_fclasss"
| "do_f sf io rv_insn_fcvtsw = do_fcvtsw sf"
| "do_f sf io rv_insn_fcvtswu = do_fcvtswu sf"
| "do_f sf io rv_insn_fmvwx = do_fmvwx"

primrec do_c :: "'e riscv_io \<Rightarrow> rv_c \<Rightarrow> 'e rvop" where
  "do_c io rv_insn_caddi4spn = do_caddi4spn"
| "do_c io rv_insn_clw = do_clw io"
| "do_c io rv_insn_csw = do_csw io"
| "do_c io rv_insn_cnop = do_cnop"
| "do_c io rv_insn_caddi = do_caddi"
| "do_c io rv_insn_cjal = do_cjal"
| "do_c io rv_insn_cli = do_cli"
| "do_c io rv_insn_caddi16sp = do_caddi16sp"
| "do_c io rv_insn_clui = do_clui"
| "do_c io rv_insn_csrli = do_csrli"
| "do_c io rv_insn_csrai = do_csrai"
| "do_c io rv_insn_candi = do_candi"
| "do_c io rv_insn_csub = do_csub"
| "do_c io rv_insn_cxor = do_cxor"
| "do_c io rv_insn_cor = do_cor"
| "do_c io rv_insn_cand = do_cand"
| "do_c io rv_insn_cj = do_cj"
| "do_c io rv_insn_cbeqz = do_cbeqz"
| "do_c io rv_insn_cbnez = do_cbnez"
| "do_c io rv_insn_cslli = do_cslli"
| "do_c io rv_insn_clwsp = do_clwsp io"
| "do_c io rv_insn_cjr = do_cjr"
| "do_c io rv_insn_cmv = do_cmv"
| "do_c io rv_insn_cebreak = do_cebreak"
| "do_c io rv_insn_cjalr = do_cjalr"
| "do_c io rv_insn_cadd = do_cadd"
| "do_c io rv_insn_cswsp = do_cswsp io"
| "do_c io rv_insn_cflwsp = do_cflwsp io"
| "do_c io rv_insn_cfswsp = do_cfswsp io"
| "do_c io rv_insn_cflw = do_cflw io"
| "do_c io rv_insn_cfsw = do_cfsw io"

primrec do_fuse :: "'e riscv_io \<Rightarrow> rv_fuse \<Rightarrow> 'e rvop" where
  "do_fuse io rv_insn_fuse1 = do_fuse1"
| "do_fuse io rv_insn_fuse2 = do_fuse2"
| "do_fuse io rv_insn_fuse3 = do_fuse3 io"
| "do_fuse io rv_insn_fuse4 = do_fuse4 io"
| "do_fuse io rv_insn_fuse5 = do_fuse5"

primrec dispatch_table :: "'e machine_ops \<Rightarrow> rv_opcode \<Rightarrow> 'e rvop" where
  "dispatch_table M (Base b) = do_base (m_io M) b"
| "dispatch_table M (Priv p) = do_priv p"
| "dispatch_table M (Zi z) = do_zi z"
| "dispatch_table M (Zb z) = do_zb z"
| "dispatch_table M (RvM m) = do_m m"
| "dispatch_table M (RvA a) = do_a (m_io M) a"
| "dispatch_table M (RvF f) = do_f (m_sf M) (m_io M) f"
| "dispatch_table M (RvC c) = do_c (m_io M) c"
| "dispatch_table M rv_insn_ttinsn = do_ttinsn M"
| "dispatch_table M (Fused f) = do_fuse (m_io M) f"

definition impl :: "'e machine_ops \<Rightarrow> 'e rvop" where
  "impl M lk ir =
     (if i_mailbox ir then do_lw_mailbox M lk ir else dispatch_table M (i_opcode ir) lk ir)"

section \<open>Running the nodes of a block\<close>

definition no_links :: links where
  "no_links = \<lparr>branch_taken = None, branch_untaken = None\<rparr>"

text \<open>A node that falls through calls the next one; the last one has none and ends the block.  Only the
  last node of a block is ever linked to other blocks.\<close>

fun exec_nodes :: "'e machine_ops \<Rightarrow> links \<Rightarrow> rv_insn list \<Rightarrow> u64 \<Rightarrow> u32 \<Rightarrow> 'e riscv \<Rightarrow> 'e outcome" where
  "exec_nodes M lk [] cycle pc rv = End_op rv cycle pc"
| "exec_nodes M lk (ir # irs) cycle pc rv =
     (case impl M (if irs = [] then lk else no_links) ir cycle pc rv of
        Nextop rv cycle pc \<Rightarrow> exec_nodes M lk irs cycle pc rv
      | r \<Rightarrow> r)"

text \<open>A machine with an empty environment, for examples.\<close>

definition unit_ops :: "unit machine_ops" where
  "unit_ops = \<lparr>m_sf = \<lparr>f32_mulAdd = (\<lambda>_ _ _ _. (0, 0)), f32_add = (\<lambda>_ _ _. (0, 0)), f32_sub = (\<lambda>_ _ _. (0, 0)),
       f32_mul = (\<lambda>_ _ _. (0, 0)), f32_div = (\<lambda>_ _ _. (0, 0)), f32_sqrt = (\<lambda>_ _. (0, 0)),
       f32_to_i32 = (\<lambda>_ _. (0, 0)), f32_to_ui32 = (\<lambda>_ _. (0, 0)), i32_to_f32 = (\<lambda>_ _. (0, 0)),
       ui32_to_f32 = (\<lambda>_ _. (0, 0))\<rparr>,
     m_io = \<lparr>mem_ifetch = \<lambda>_ _. 0x13, mem_read_w = \<lambda>_ _. (0, ()), mem_read_s = \<lambda>_ _. 0, mem_read_b = \<lambda>_ _. 0,
       mem_write_w = \<lambda>_ _ _. Some (), mem_write_s = \<lambda>_ _ _. (), mem_write_b = \<lambda>_ _ _. (), on_ecall = \<lambda>rv. rv\<rparr>,
     tt_step_direct = \<lambda>_ _ _. Some (True, ()), tt_stalled = \<lambda>_ _. False\<rparr>"

end
