(* ===== verification/Constopt.thy ===== *)
theory Constopt
  imports Rv_Dispatch
begin

text \<open>
  Constant folding inside a basic block: the functions \<^verbatim>\<open>constopt_<inst>\<close> of \<^verbatim>\<open>rv32_constopt.c\<close> and \<^verbatim>\<open>optimize_constant\<close> of \<^verbatim>\<open>emulate.c\<close>.  A function rewrites the node and updates what
  is known about the registers.  A folded node loads its result as a constant, with the opcode LUI (or
  C.LUI, for compressed instructions).
\<close>

section \<open>Knowledge about registers\<close>

record constopt_info =
  is_constant :: "u8 \<Rightarrow> bool"
  const_val :: "u8 \<Rightarrow> u32"

type_synonym constopt = "rv_insn \<Rightarrow> constopt_info \<Rightarrow> rv_insn \<times> constopt_info"

definition known :: "u8 \<Rightarrow> u32 \<Rightarrow> constopt_info \<Rightarrow> constopt_info" where
  "known r v info = info\<lparr>is_constant := (is_constant info)(r := True), const_val := (const_val info)(r := v)\<rparr>"

definition unknown :: "u8 \<Rightarrow> constopt_info \<Rightarrow> constopt_info" where
  "unknown r info = info\<lparr>is_constant := (is_constant info)(r := False)\<rparr>"

text \<open>The shapes the functions share: leave everything; forget the destination; replace the node by a
  constant load; fold an operation of a register and the immediate, of two registers, of the
  destination, or of \<^verbatim>\<open>rs1\<close> in place.\<close>

definition keep :: constopt where
  "keep ir info = (ir, info)"

definition forget_rd :: constopt where
  "forget_rd ir info = (ir, unknown (i_rd ir) info)"

definition forget_rd_nz :: constopt where
  "forget_rd_nz ir info = (ir, if i_rd ir \<noteq> 0 then unknown (i_rd ir) info else info)"

definition to_const :: "rv_opcode \<Rightarrow> u32 \<Rightarrow> constopt" where
  "to_const opc v ir info =
     (ir\<lparr>i_imm := v, i_opcode := opc, i_mailbox := False\<rparr>, known (i_rd ir) v info)"

definition fold_imm :: "(u32 \<Rightarrow> u32 \<Rightarrow> u32) \<Rightarrow> constopt" where
  "fold_imm f ir info =
     (if is_constant info (i_rs1 ir)
      then to_const (Base rv_insn_lui) (f (const_val info (i_rs1 ir)) (i_imm ir)) ir info
      else (ir, unknown (i_rd ir) info))"

definition fold_reg :: "rv_opcode \<Rightarrow> (u32 \<Rightarrow> u32 \<Rightarrow> u32) \<Rightarrow> constopt" where
  "fold_reg opc f ir info =
     (if is_constant info (i_rs1 ir) \<and> is_constant info (i_rs2 ir)
      then to_const opc (f (const_val info (i_rs1 ir)) (const_val info (i_rs2 ir))) ir info
      else (ir, unknown (i_rd ir) info))"

definition fold_rd :: "(u32 \<Rightarrow> u32 \<Rightarrow> u32) \<Rightarrow> constopt" where
  "fold_rd f ir info =
     (if is_constant info (i_rd ir)
      then to_const (RvC rv_insn_clui) (f (const_val info (i_rd ir)) (i_imm ir)) ir info
      else (ir, info))"

definition fold_rs1 :: "(rv_insn \<Rightarrow> u32 \<Rightarrow> u32) \<Rightarrow> constopt" where
  "fold_rs1 f ir info =
     (if is_constant info (i_rs1 ir)
      then to_const (RvC rv_insn_clui) (f ir (const_val info (i_rs1 ir))) (ir\<lparr>i_rd := i_rs1 ir\<rparr>) info
      else (ir, info))"

text \<open>A branch on two constants becomes a jump: to the next instruction if it is not taken.\<close>

definition opt_branch_func :: "(u32 \<Rightarrow> u32 \<Rightarrow> bool) \<Rightarrow> constopt" where
  "opt_branch_func cond ir info =
     (if is_constant info (i_rs1 ir) \<and> is_constant info (i_rs2 ir) then
        let ir = (if cond (const_val info (i_rs1 ir)) (const_val info (i_rs2 ir)) then ir\<lparr>i_imm := 4\<rparr> else ir) in
        (ir\<lparr>i_opcode := Base rv_insn_jal, i_mailbox := False\<rparr>, info)
      else (ir, info))"

text \<open>The product of \<^verbatim>\<open>constopt_mulhu\<close> is computed in \<^verbatim>\<open>int64_t\<close> and shifted arithmetically.\<close>

definition mulhu_signed :: "u32 \<Rightarrow> u32 \<Rightarrow> u32" where
  "mulhu_signed x y = ucast (signed_drop_bit 32 ((ucast x :: u64) * ucast y))"

section \<open>The functions\<close>

subsection \<open>RV32I\<close>

definition constopt_lui :: constopt where
  "constopt_lui ir info = (ir, known (i_rd ir) (i_imm ir) info)"
definition constopt_auipc :: constopt where
  "constopt_auipc ir info = to_const (Base rv_insn_lui) (i_imm ir + i_pc ir) ir info"
definition constopt_jal :: constopt where
  "constopt_jal ir info = (ir, if i_rd ir \<noteq> 0 then known (i_rd ir) (i_pc ir + 4) info else info)"
definition constopt_jalr :: constopt where
  "constopt_jalr ir info = (ir, if i_rd ir \<noteq> 0 then known (i_rd ir) (i_pc ir + 4) info else info)"
definition constopt_beq :: constopt where
  "constopt_beq = opt_branch_func (\<lambda>x y. x \<noteq> y)"
definition constopt_bne :: constopt where
  "constopt_bne = opt_branch_func (\<lambda>x y. x = y)"
definition constopt_blt :: constopt where
  "constopt_blt = opt_branch_func (\<lambda>x y. y \<le>s x)"
definition constopt_bge :: constopt where
  "constopt_bge = opt_branch_func (\<lambda>x y. x <s y)"
definition constopt_bltu :: constopt where
  "constopt_bltu = opt_branch_func (\<lambda>x y. x \<ge> y)"
definition constopt_bgeu :: constopt where
  "constopt_bgeu = opt_branch_func (\<lambda>x y. x < y)"
definition constopt_addi :: constopt where
  "constopt_addi = fold_imm (\<lambda>x imm. imm + x)"
definition constopt_slti :: constopt where
  "constopt_slti = fold_imm (\<lambda>x imm. if x <s imm then 1 else 0)"
definition constopt_sltiu :: constopt where
  "constopt_sltiu = fold_imm (\<lambda>x imm. if x < imm then 1 else 0)"
definition constopt_xori :: constopt where
  "constopt_xori = fold_imm (\<lambda>x imm. imm XOR x)"
definition constopt_ori :: constopt where
  "constopt_ori = fold_imm (\<lambda>x imm. imm OR x)"
definition constopt_andi :: constopt where
  "constopt_andi = fold_imm (\<lambda>x imm. imm AND x)"
definition constopt_slli :: constopt where
  "constopt_slli = fold_imm (\<lambda>x imm. push_bit (unat (imm AND 0x1f)) x)"
definition constopt_srli :: constopt where
  "constopt_srli = fold_imm (\<lambda>x imm. drop_bit (unat (imm AND 0x1f)) x)"
definition constopt_srai :: constopt where
  "constopt_srai = fold_imm (\<lambda>x imm. signed_drop_bit (unat (imm AND 0x1f)) x)"
definition constopt_add :: constopt where
  "constopt_add = fold_reg (Base rv_insn_lui) (\<lambda>x y. x + y)"
definition constopt_sub :: constopt where
  "constopt_sub = fold_reg (Base rv_insn_lui) (\<lambda>x y. x - y)"
definition constopt_sll :: constopt where
  "constopt_sll = fold_reg (Base rv_insn_lui) (\<lambda>x y. push_bit (unat (y AND 0x1f)) x)"
definition constopt_slt :: constopt where
  "constopt_slt = fold_reg (Base rv_insn_lui) (\<lambda>x y. if x <s y then 1 else 0)"
definition constopt_sltu :: constopt where
  "constopt_sltu = fold_reg (Base rv_insn_lui) (\<lambda>x y. if x < y then 1 else 0)"
definition constopt_xor :: constopt where
  "constopt_xor = fold_reg (Base rv_insn_lui) (\<lambda>x y. x XOR y)"
definition constopt_srl :: constopt where
  "constopt_srl = fold_reg (Base rv_insn_lui) (\<lambda>x y. drop_bit (unat (y AND 0x1f)) x)"
definition constopt_sra :: constopt where
  "constopt_sra = fold_reg (Base rv_insn_lui) (\<lambda>x y. signed_drop_bit (unat (y AND 0x1f)) x)"
definition constopt_or :: constopt where
  "constopt_or = fold_reg (Base rv_insn_lui) (\<lambda>x y. x OR y)"
definition constopt_and :: constopt where
  "constopt_and = fold_reg (Base rv_insn_lui) (\<lambda>x y. x AND y)"

subsection \<open>RV32M\<close>

definition constopt_mul :: constopt where
  "constopt_mul = fold_reg (Base rv_insn_lui) (\<lambda>x y. mul32 x y)"
definition constopt_mulh :: constopt where
  "constopt_mulh = fold_reg (Base rv_insn_lui) (\<lambda>x y. mulh32 x y)"
definition constopt_mulhsu :: constopt where
  "constopt_mulhsu = fold_reg (Base rv_insn_lui) (\<lambda>x y. mulhsu32 x y)"
definition constopt_mulhu :: constopt where
  "constopt_mulhu = fold_reg (Base rv_insn_lui) (\<lambda>x y. mulhu_signed x y)"
definition constopt_div :: constopt where
  "constopt_div = fold_reg (Base rv_insn_lui) (\<lambda>x y. div32 x y)"
definition constopt_divu :: constopt where
  "constopt_divu = fold_reg (Base rv_insn_lui) (\<lambda>x y. divu32 x y)"
definition constopt_rem :: constopt where
  "constopt_rem = fold_reg (Base rv_insn_lui) (\<lambda>x y. rem32 x y)"
definition constopt_remu :: constopt where
  "constopt_remu = fold_reg (Base rv_insn_lui) (\<lambda>x y. remu32 x y)"

subsection \<open>RV32C\<close>

definition constopt_caddi4spn :: constopt where
  "constopt_caddi4spn ir info =
     (if is_constant info rv_reg_sp
      then to_const (RvC rv_insn_clui) (const_val info rv_reg_sp + ucast (ucast (i_imm ir) :: u16)) ir info
      else (ir, unknown (i_rd ir) info))"
definition constopt_caddi :: constopt where
  "constopt_caddi = fold_rd (\<lambda>x imm. x + scast (ucast imm :: u16))"
definition constopt_cjal :: constopt where
  "constopt_cjal ir info = (ir, known rv_reg_ra (i_pc ir + 2) info)"
definition constopt_cli :: constopt where
  "constopt_cli ir info = (ir, known (i_rd ir) (i_imm ir) info)"
definition constopt_caddi16sp :: constopt where
  "constopt_caddi16sp = fold_rd (\<lambda>x imm. x + imm)"
definition constopt_clui :: constopt where
  "constopt_clui ir info = (ir, known (i_rd ir) (i_imm ir) info)"
definition constopt_csrli :: constopt where
  "constopt_csrli = fold_rs1 (\<lambda>ir x. drop_bit (unat (i_shamt ir)) x)"
definition constopt_csrai :: constopt where
  "constopt_csrai = fold_rs1 (\<lambda>ir x. csrai32 (unat (i_shamt ir)) x)"
definition constopt_candi :: constopt where
  "constopt_candi = fold_rs1 (\<lambda>ir x. x AND i_imm ir)"
definition constopt_csub :: constopt where
  "constopt_csub = fold_reg (RvC rv_insn_clui) (\<lambda>x y. x - y)"
definition constopt_cxor :: constopt where
  "constopt_cxor = fold_reg (RvC rv_insn_clui) (\<lambda>x y. x XOR y)"
definition constopt_cor :: constopt where
  "constopt_cor = fold_reg (RvC rv_insn_clui) (\<lambda>x y. x OR y)"
definition constopt_cand :: constopt where
  "constopt_cand = fold_reg (RvC rv_insn_clui) (\<lambda>x y. x AND y)"
definition constopt_cbeqz :: constopt where
  "constopt_cbeqz ir info =
     (if is_constant info (i_rs1 ir) then
        let ir = (if const_val info (i_rs1 ir) \<noteq> 0 then ir\<lparr>i_imm := 2\<rparr> else ir) in
        (ir\<lparr>i_opcode := RvC rv_insn_cj, i_mailbox := False\<rparr>, info)
      else (ir, info))"
definition constopt_cbnez :: constopt where
  "constopt_cbnez ir info =
     (if is_constant info (i_rs1 ir) then
        let ir = (if const_val info (i_rs1 ir) = 0 then ir\<lparr>i_imm := 2\<rparr> else ir) in
        (ir\<lparr>i_opcode := RvC rv_insn_cj, i_mailbox := False\<rparr>, info)
      else (ir, info))"
definition constopt_cslli :: constopt where
  "constopt_cslli = fold_rd (\<lambda>x imm. push_bit (unat (ucast imm :: u8)) x)"
definition constopt_cmv :: constopt where
  "constopt_cmv ir info =
     (if is_constant info (i_rs2 ir) then to_const (RvC rv_insn_clui) (const_val info (i_rs2 ir)) ir info
      else (ir, unknown (i_rd ir) info))"
definition constopt_cjalr :: constopt where
  "constopt_cjalr ir info =
     (ir, info\<lparr>is_constant := (is_constant info)(rv_reg_ra := True),
               const_val := (const_val info)(i_rd ir := i_pc ir + 2)\<rparr>)"
definition constopt_cadd :: constopt where
  "constopt_cadd = fold_reg (RvC rv_insn_clui) (\<lambda>x y. x + y)"

section \<open>The table and the pass\<close>

text \<open>The functions with an empty body and those that only forget the destination stand in the table by their
  shape.  It has no entry for SRET in this build, nor for the fused instructions, which are introduced later;
  \<^verbatim>\<open>keep\<close> stands there.\<close>

primrec constopt_base_table :: "rv_base \<Rightarrow> constopt" where
  "constopt_base_table rv_insn_nop = keep"
| "constopt_base_table rv_insn_lui = constopt_lui"
| "constopt_base_table rv_insn_auipc = constopt_auipc"
| "constopt_base_table rv_insn_jal = constopt_jal"
| "constopt_base_table rv_insn_jalr = constopt_jalr"
| "constopt_base_table rv_insn_beq = constopt_beq"
| "constopt_base_table rv_insn_bne = constopt_bne"
| "constopt_base_table rv_insn_blt = constopt_blt"
| "constopt_base_table rv_insn_bge = constopt_bge"
| "constopt_base_table rv_insn_bltu = constopt_bltu"
| "constopt_base_table rv_insn_bgeu = constopt_bgeu"
| "constopt_base_table rv_insn_lb = forget_rd"
| "constopt_base_table rv_insn_lh = forget_rd"
| "constopt_base_table rv_insn_lw = forget_rd"
| "constopt_base_table rv_insn_lbu = forget_rd"
| "constopt_base_table rv_insn_lhu = forget_rd"
| "constopt_base_table rv_insn_sb = keep"
| "constopt_base_table rv_insn_sh = keep"
| "constopt_base_table rv_insn_sw = keep"
| "constopt_base_table rv_insn_addi = constopt_addi"
| "constopt_base_table rv_insn_slti = constopt_slti"
| "constopt_base_table rv_insn_sltiu = constopt_sltiu"
| "constopt_base_table rv_insn_xori = constopt_xori"
| "constopt_base_table rv_insn_ori = constopt_ori"
| "constopt_base_table rv_insn_andi = constopt_andi"
| "constopt_base_table rv_insn_slli = constopt_slli"
| "constopt_base_table rv_insn_srli = constopt_srli"
| "constopt_base_table rv_insn_srai = constopt_srai"
| "constopt_base_table rv_insn_add = constopt_add"
| "constopt_base_table rv_insn_sub = constopt_sub"
| "constopt_base_table rv_insn_sll = constopt_sll"
| "constopt_base_table rv_insn_slt = constopt_slt"
| "constopt_base_table rv_insn_sltu = constopt_sltu"
| "constopt_base_table rv_insn_xor = constopt_xor"
| "constopt_base_table rv_insn_srl = constopt_srl"
| "constopt_base_table rv_insn_sra = constopt_sra"
| "constopt_base_table rv_insn_or = constopt_or"
| "constopt_base_table rv_insn_and = constopt_and"
| "constopt_base_table rv_insn_fence = keep"
| "constopt_base_table rv_insn_ecall = keep"
| "constopt_base_table rv_insn_ebreak = keep"

primrec constopt_priv_table :: "rv_priv \<Rightarrow> constopt" where
  "constopt_priv_table rv_insn_wfi = keep"
| "constopt_priv_table rv_insn_uret = keep"
| "constopt_priv_table rv_insn_sret = keep"
| "constopt_priv_table rv_insn_hret = keep"
| "constopt_priv_table rv_insn_mret = keep"
| "constopt_priv_table rv_insn_sfencevma = keep"

primrec constopt_zi_table :: "rv_zi \<Rightarrow> constopt" where
  "constopt_zi_table rv_insn_fencei = keep"
| "constopt_zi_table rv_insn_csrrw = forget_rd"
| "constopt_zi_table rv_insn_csrrs = forget_rd"
| "constopt_zi_table rv_insn_csrrc = forget_rd"
| "constopt_zi_table rv_insn_csrrwi = forget_rd"
| "constopt_zi_table rv_insn_csrrsi = forget_rd"
| "constopt_zi_table rv_insn_csrrci = forget_rd"

primrec constopt_m_table :: "rv_m \<Rightarrow> constopt" where
  "constopt_m_table rv_insn_mul = constopt_mul"
| "constopt_m_table rv_insn_mulh = constopt_mulh"
| "constopt_m_table rv_insn_mulhsu = constopt_mulhsu"
| "constopt_m_table rv_insn_mulhu = constopt_mulhu"
| "constopt_m_table rv_insn_div = constopt_div"
| "constopt_m_table rv_insn_divu = constopt_divu"
| "constopt_m_table rv_insn_rem = constopt_rem"
| "constopt_m_table rv_insn_remu = constopt_remu"

primrec constopt_a_table :: "rv_a \<Rightarrow> constopt" where
  "constopt_a_table rv_insn_lrw = forget_rd_nz"
| "constopt_a_table rv_insn_scw = keep"
| "constopt_a_table rv_insn_amoswapw = forget_rd_nz"
| "constopt_a_table rv_insn_amoaddw = forget_rd_nz"
| "constopt_a_table rv_insn_amoxorw = forget_rd_nz"
| "constopt_a_table rv_insn_amoandw = forget_rd_nz"
| "constopt_a_table rv_insn_amoorw = forget_rd_nz"
| "constopt_a_table rv_insn_amominw = forget_rd_nz"
| "constopt_a_table rv_insn_amomaxw = forget_rd_nz"
| "constopt_a_table rv_insn_amominuw = forget_rd_nz"
| "constopt_a_table rv_insn_amomaxuw = forget_rd_nz"

primrec constopt_f_table :: "rv_f \<Rightarrow> constopt" where
  "constopt_f_table rv_insn_flw = keep"
| "constopt_f_table rv_insn_fsw = keep"
| "constopt_f_table rv_insn_fmadds = keep"
| "constopt_f_table rv_insn_fmsubs = keep"
| "constopt_f_table rv_insn_fnmsubs = keep"
| "constopt_f_table rv_insn_fnmadds = keep"
| "constopt_f_table rv_insn_fadds = keep"
| "constopt_f_table rv_insn_fsubs = keep"
| "constopt_f_table rv_insn_fmuls = keep"
| "constopt_f_table rv_insn_fdivs = keep"
| "constopt_f_table rv_insn_fsqrts = keep"
| "constopt_f_table rv_insn_fsgnjs = keep"
| "constopt_f_table rv_insn_fsgnjns = keep"
| "constopt_f_table rv_insn_fsgnjxs = keep"
| "constopt_f_table rv_insn_fmins = keep"
| "constopt_f_table rv_insn_fmaxs = keep"
| "constopt_f_table rv_insn_fcvtws = forget_rd_nz"
| "constopt_f_table rv_insn_fcvtwus = forget_rd_nz"
| "constopt_f_table rv_insn_fmvxw = forget_rd_nz"
| "constopt_f_table rv_insn_feqs = forget_rd_nz"
| "constopt_f_table rv_insn_flts = forget_rd_nz"
| "constopt_f_table rv_insn_fles = forget_rd_nz"
| "constopt_f_table rv_insn_fclasss = forget_rd_nz"
| "constopt_f_table rv_insn_fcvtsw = keep"
| "constopt_f_table rv_insn_fcvtswu = keep"
| "constopt_f_table rv_insn_fmvwx = keep"

primrec constopt_c_table :: "rv_c \<Rightarrow> constopt" where
  "constopt_c_table rv_insn_caddi4spn = constopt_caddi4spn"
| "constopt_c_table rv_insn_clw = forget_rd"
| "constopt_c_table rv_insn_csw = keep"
| "constopt_c_table rv_insn_cnop = keep"
| "constopt_c_table rv_insn_caddi = constopt_caddi"
| "constopt_c_table rv_insn_cjal = constopt_cjal"
| "constopt_c_table rv_insn_cli = constopt_cli"
| "constopt_c_table rv_insn_caddi16sp = constopt_caddi16sp"
| "constopt_c_table rv_insn_clui = constopt_clui"
| "constopt_c_table rv_insn_csrli = constopt_csrli"
| "constopt_c_table rv_insn_csrai = constopt_csrai"
| "constopt_c_table rv_insn_candi = constopt_candi"
| "constopt_c_table rv_insn_csub = constopt_csub"
| "constopt_c_table rv_insn_cxor = constopt_cxor"
| "constopt_c_table rv_insn_cor = constopt_cor"
| "constopt_c_table rv_insn_cand = constopt_cand"
| "constopt_c_table rv_insn_cj = keep"
| "constopt_c_table rv_insn_cbeqz = constopt_cbeqz"
| "constopt_c_table rv_insn_cbnez = constopt_cbnez"
| "constopt_c_table rv_insn_cslli = constopt_cslli"
| "constopt_c_table rv_insn_clwsp = forget_rd"
| "constopt_c_table rv_insn_cjr = keep"
| "constopt_c_table rv_insn_cmv = constopt_cmv"
| "constopt_c_table rv_insn_cebreak = keep"
| "constopt_c_table rv_insn_cjalr = constopt_cjalr"
| "constopt_c_table rv_insn_cadd = constopt_cadd"
| "constopt_c_table rv_insn_cswsp = keep"
| "constopt_c_table rv_insn_cflwsp = keep"
| "constopt_c_table rv_insn_cfswsp = keep"
| "constopt_c_table rv_insn_cflw = keep"
| "constopt_c_table rv_insn_cfsw = keep"

primrec constopt_zb_table :: "rv_zb \<Rightarrow> constopt" where
  "constopt_zb_table rv_insn_sh1add = forget_rd_nz"
| "constopt_zb_table rv_insn_sh2add = forget_rd_nz"
| "constopt_zb_table rv_insn_sh3add = forget_rd_nz"
| "constopt_zb_table rv_insn_andn = forget_rd_nz"
| "constopt_zb_table rv_insn_orn = forget_rd_nz"
| "constopt_zb_table rv_insn_xnor = forget_rd_nz"
| "constopt_zb_table rv_insn_clz = forget_rd_nz"
| "constopt_zb_table rv_insn_ctz = forget_rd_nz"
| "constopt_zb_table rv_insn_cpop = forget_rd_nz"
| "constopt_zb_table rv_insn_max = forget_rd_nz"
| "constopt_zb_table rv_insn_maxu = forget_rd_nz"
| "constopt_zb_table rv_insn_min = forget_rd_nz"
| "constopt_zb_table rv_insn_minu = forget_rd_nz"
| "constopt_zb_table rv_insn_sextb = forget_rd_nz"
| "constopt_zb_table rv_insn_sexth = forget_rd_nz"
| "constopt_zb_table rv_insn_zexth = forget_rd_nz"
| "constopt_zb_table rv_insn_rol = forget_rd_nz"
| "constopt_zb_table rv_insn_ror = forget_rd_nz"
| "constopt_zb_table rv_insn_rori = forget_rd_nz"
| "constopt_zb_table rv_insn_orcb = forget_rd_nz"
| "constopt_zb_table rv_insn_rev8 = forget_rd_nz"
| "constopt_zb_table rv_insn_clmul = forget_rd_nz"
| "constopt_zb_table rv_insn_clmulh = forget_rd_nz"
| "constopt_zb_table rv_insn_clmulr = forget_rd_nz"
| "constopt_zb_table rv_insn_bclr = forget_rd_nz"
| "constopt_zb_table rv_insn_bclri = forget_rd_nz"
| "constopt_zb_table rv_insn_bext = forget_rd_nz"
| "constopt_zb_table rv_insn_bexti = forget_rd_nz"
| "constopt_zb_table rv_insn_binv = forget_rd_nz"
| "constopt_zb_table rv_insn_binvi = forget_rd_nz"
| "constopt_zb_table rv_insn_bset = forget_rd_nz"
| "constopt_zb_table rv_insn_bseti = forget_rd_nz"

primrec constopt_table :: "rv_opcode \<Rightarrow> constopt" where
  "constopt_table (Base b) = constopt_base_table b"
| "constopt_table (Priv p) = constopt_priv_table p"
| "constopt_table (Zi z) = constopt_zi_table z"
| "constopt_table (Zb z) = constopt_zb_table z"
| "constopt_table (RvM m) = constopt_m_table m"
| "constopt_table (RvA a) = constopt_a_table a"
| "constopt_table (RvF f) = constopt_f_table f"
| "constopt_table (RvC c) = constopt_c_table c"
| "constopt_table rv_insn_ttinsn = keep"
| "constopt_table (Fused f) = keep"

definition start_info :: constopt_info where
  "start_info = \<lparr>is_constant = (\<lambda>r. r = 0), const_val = (\<lambda>_. 0)\<rparr>"

fun opt_nodes :: "rv_insn list \<Rightarrow> constopt_info \<Rightarrow> rv_insn list" where
  "opt_nodes [] info = []"
| "opt_nodes (ir # irs) info =
     (case constopt_table (i_opcode ir) ir info of (ir', info') \<Rightarrow> ir' # opt_nodes irs info')"

text \<open>The pass asserts that \<^verbatim>\<open>x0\<close> holds 0 when the block is translated.\<close>

definition optimize_constant :: "'e riscv \<Rightarrow> rv_insn list \<Rightarrow> rv_insn list option" where
  "optimize_constant rv irs = (if X rv 0 = 0 then Some (opt_nodes irs start_info) else None)"

lemmas constopt_shapes = keep_def forget_rd_def forget_rd_nz_def to_const_def fold_imm_def fold_reg_def fold_rd_def
  fold_rs1_def opt_branch_func_def known_def unknown_def

lemmas constopt_base_defs = constopt_lui_def constopt_auipc_def constopt_jal_def constopt_jalr_def
  constopt_beq_def constopt_bne_def constopt_blt_def constopt_bge_def constopt_bltu_def constopt_bgeu_def
  constopt_addi_def constopt_slti_def constopt_sltiu_def constopt_xori_def constopt_ori_def
  constopt_andi_def constopt_slli_def constopt_srli_def constopt_srai_def constopt_add_def
  constopt_sub_def constopt_sll_def constopt_slt_def constopt_sltu_def constopt_xor_def constopt_srl_def
  constopt_sra_def constopt_or_def constopt_and_def

lemmas constopt_m_defs = constopt_mul_def constopt_mulh_def constopt_mulhsu_def constopt_mulhu_def
  constopt_div_def constopt_divu_def constopt_rem_def constopt_remu_def

lemmas constopt_c_defs = constopt_caddi4spn_def constopt_caddi_def constopt_cjal_def constopt_cli_def
  constopt_caddi16sp_def constopt_clui_def constopt_csrli_def constopt_csrai_def constopt_candi_def
  constopt_csub_def constopt_cxor_def constopt_cor_def constopt_cand_def constopt_cbeqz_def
  constopt_cbnez_def constopt_cslli_def constopt_cmv_def constopt_cjalr_def constopt_cadd_def

end
