(* ===== verification/Bytes.thy ===== *)
theory Bytes
  imports Prelude
begin

text \<open>
  Byte-addressed memory regions.  The sources hold a region as an \<^verbatim>\<open>uint8_t\<close> pointer and read or
  write it through \<^verbatim>\<open>uint16_t\<close>/\<^verbatim>\<open>uint32_t\<close> pointer casts on a little-endian host; here a region is a
  function from byte offsets, and the casts are the accessors below.
\<close>

type_synonym region = "u32 \<Rightarrow> u8"

definition ld16 :: "region \<Rightarrow> u32 \<Rightarrow> u16" where
  "ld16 m a = ucast (m a) OR push_bit 8 (ucast (m (a + 1)))"

definition ld32 :: "region \<Rightarrow> u32 \<Rightarrow> u32" where
  "ld32 m a = ucast (m a) OR push_bit 8 (ucast (m (a + 1)))
     OR push_bit 16 (ucast (m (a + 2))) OR push_bit 24 (ucast (m (a + 3)))"

definition st16 :: "region \<Rightarrow> u32 \<Rightarrow> u16 \<Rightarrow> region" where
  "st16 m a v = m(a := ucast v, a + 1 := ucast (drop_bit 8 v))"

definition st32 :: "region \<Rightarrow> u32 \<Rightarrow> u32 \<Rightarrow> region" where
  "st32 m a v = m(a := ucast v, a + 1 := ucast (drop_bit 8 v),
                  a + 2 := ucast (drop_bit 16 v), a + 3 := ucast (drop_bit 24 v))"

lemma ld16_st16 [simp]: "ld16 (st16 m a v) a = v"
  by (rule bit_word_eqI) (auto simp: ld16_def st16_def bit_simps)

lemma u8_bit_high [simp]: "8 \<le> n \<Longrightarrow> \<not> bit x n" for x :: u8
  by (auto dest: bit_imp_le_length)

lemma ld32_st32 [simp]: "ld32 (st32 m a v) a = v"
proof (rule bit_word_eqI)
  fix n assume "n < LENGTH(32)"
  then consider "n < 8" | "8 \<le> n" "n < 16" | "16 \<le> n" "n < 24" | "24 \<le> n" "n < 32"
    by force
  then show "bit (ld32 (st32 m a v) a) n = bit v n"
    by cases (auto simp: ld32_def st32_def bit_simps)
qed

lemma st32_ld32 [simp]: "st32 m a (ld32 m a) = m"
proof -
  have "ucast (ld32 m a) = m a" "ucast (drop_bit 8 (ld32 m a)) = m (a + 1)"
    "ucast (drop_bit 16 (ld32 m a)) = m (a + 2)" "ucast (drop_bit 24 (ld32 m a)) = m (a + 3)"
    by (rule bit_word_eqI, simp add: ld32_def bit_simps)+
  then show ?thesis by (simp add: st32_def)
qed

lemma st32_other:
  "b \<notin> {a, a + 1, a + 2, a + 3} \<Longrightarrow> st32 m a v b = m b"
  by (simp add: st32_def)

text \<open>Two aligned words are the same or do not overlap.\<close>

lemma aligned_unat:
  fixes a :: u32
  assumes "a AND 3 = 0"
  shows "unat a mod 4 = 0"
proof -
  have "a AND 3 = take_bit 2 a"
    by (simp add: take_bit_eq_mask mask_eq_exp_minus_1)
  with assms have "unat (take_bit 2 a) = 0" by simp
  then show ?thesis by (simp add: take_bit_eq_mod unat_mod)
qed

lemma aligned_unat_add:
  fixes a i :: u32
  assumes "a AND 3 = 0" "i < 4"
  shows "unat (a + i) = unat a + unat i" "unat i < 4"
proof -
  show i: "unat i < 4" using assms(2) by (simp add: word_less_nat_alt)
  have "unat a < 4294967296" using unsigned_less[of a] by simp
  moreover have "unat a mod 4 = 0" by (rule aligned_unat) fact
  ultimately have "unat a + unat i < 4294967296" using i by presburger
  then show "unat (a + i) = unat a + unat i" by (simp add: unat_word_ariths)
qed

lemma aligned_add_neq:
  fixes a b :: u32
  assumes "a AND 3 = 0" "b AND 3 = 0" "a \<noteq> b" "i < 4" "j < 4"
  shows "a + i \<noteq> b + j"
proof
  assume "a + i = b + j"
  then have "unat a + unat i = unat b + unat j"
    using assms by (metis aligned_unat_add(1))
  moreover have "unat a mod 4 = 0" "unat b mod 4 = 0" "unat i < 4" "unat j < 4"
    using assms aligned_unat aligned_unat_add(2) by blast+
  ultimately have "unat a = unat b" by presburger
  with assms(3) show False by (simp add: word_unat_eq_iff)
qed

lemma ld32_st32_other:
  assumes "a AND 3 = 0" "b AND 3 = 0" "a \<noteq> b"
  shows "ld32 (st32 m a v) b = ld32 m b"
proof -
  have "b + j \<noteq> a + i" if "i < 4" "j < 4" for i j
    using aligned_add_neq[of b a j i] assms that by auto
  from this[of 0 0] this[of 1 0] this[of 2 0] this[of 3 0]
    this[of 0 1] this[of 1 1] this[of 2 1] this[of 3 1]
    this[of 0 2] this[of 1 2] this[of 2 2] this[of 3 2]
    this[of 0 3] this[of 1 3] this[of 2 3] this[of 3 3]
  show ?thesis by (simp add: ld32_def st32_other)
qed

end
