(* ===== verification/Rv_Isa.thy ===== *)
theory Rv_Isa
  imports Decode_Encode Rv_Dispatch Bytes
begin

text \<open>
  A reference semantics of RV32IM, written from the instruction set manual over integers and a byte
  memory, and the proof that the emulator's decoder and instruction functions implement it.

  What the proof needs of memory is the locale \<^verbatim>\<open>core_memory\<close>: on the addresses that are plain
  memory for a core, the callbacks read and write an array of bytes.
\<close>

section \<open>Reference semantics\<close>

record isa =
  ireg :: "5 word \<Rightarrow> u32"
  ipc :: u32
  imem :: region

text \<open>An instruction completes, or faults with a cause and a trap value in the state it started from.\<close>

datatype isa_result = Done isa | Fault u32 u32 isa

definition wr :: "5 word \<Rightarrow> u32 \<Rightarrow> isa \<Rightarrow> isa" where
  "wr rd v s = (if rd = 0 then s else s\<lparr>ireg := (ireg s)(rd := v)\<rparr>)"

definition step4 :: "isa \<Rightarrow> isa" where
  "step4 s = s\<lparr>ipc := ipc s + 4\<rparr>"

definition isa_op :: "rv_base \<Rightarrow> u32 \<Rightarrow> u32 \<Rightarrow> u32" where
  "isa_op op a b = (case op of
     rv_insn_add \<Rightarrow> word_of_int (sint a + sint b)
   | rv_insn_sub \<Rightarrow> word_of_int (sint a - sint b)
   | rv_insn_sll \<Rightarrow> word_of_int (uint a * 2 ^ nat (uint b mod 32))
   | rv_insn_slt \<Rightarrow> of_bool (sint a < sint b)
   | rv_insn_sltu \<Rightarrow> of_bool (uint a < uint b)
   | rv_insn_xor \<Rightarrow> a XOR b
   | rv_insn_srl \<Rightarrow> word_of_int (uint a div 2 ^ nat (uint b mod 32))
   | rv_insn_sra \<Rightarrow> word_of_int (sint a div 2 ^ nat (uint b mod 32))
   | rv_insn_or \<Rightarrow> a OR b
   | _ \<Rightarrow> a AND b)"

text \<open>The register-immediate form computes what the register-register form does.\<close>

definition reg_form :: "rv_base \<Rightarrow> rv_base" where
  "reg_form op = (case op of
     rv_insn_addi \<Rightarrow> rv_insn_add | rv_insn_slti \<Rightarrow> rv_insn_slt | rv_insn_sltiu \<Rightarrow> rv_insn_sltu
   | rv_insn_xori \<Rightarrow> rv_insn_xor | rv_insn_ori \<Rightarrow> rv_insn_or | rv_insn_andi \<Rightarrow> rv_insn_and
   | rv_insn_slli \<Rightarrow> rv_insn_sll | rv_insn_srli \<Rightarrow> rv_insn_srl | _ \<Rightarrow> rv_insn_sra)"

definition isa_muldiv :: "rv_m \<Rightarrow> u32 \<Rightarrow> u32 \<Rightarrow> u32" where
  "isa_muldiv op a b = (case op of
     rv_insn_mul \<Rightarrow> word_of_int (sint a * sint b)
   | rv_insn_mulh \<Rightarrow> word_of_int ((sint a * sint b) div 2 ^ 32)
   | rv_insn_mulhsu \<Rightarrow> word_of_int ((sint a * uint b) div 2 ^ 32)
   | rv_insn_mulhu \<Rightarrow> word_of_int ((uint a * uint b) div 2 ^ 32)
   | rv_insn_div \<Rightarrow> if b = 0 then - 1 else word_of_int (c_div (sint a) (sint b))
   | rv_insn_divu \<Rightarrow> if b = 0 then - 1 else word_of_int (uint a div uint b)
   | rv_insn_rem \<Rightarrow> if b = 0 then a else word_of_int (c_rem (sint a) (sint b))
   | rv_insn_remu \<Rightarrow> if b = 0 then a else word_of_int (uint a mod uint b))"

definition isa_cond :: "rv_base \<Rightarrow> u32 \<Rightarrow> u32 \<Rightarrow> bool" where
  "isa_cond op a b = (case op of
     rv_insn_beq \<Rightarrow> a = b
   | rv_insn_bne \<Rightarrow> a \<noteq> b
   | rv_insn_blt \<Rightarrow> sint a < sint b
   | rv_insn_bge \<Rightarrow> sint b \<le> sint a
   | rv_insn_bltu \<Rightarrow> uint a < uint b
   | _ \<Rightarrow> uint b \<le> uint a)"

definition access_size :: "rv_base \<Rightarrow> int" where
  "access_size op = (if op \<in> {rv_insn_lw, rv_insn_sw} then 4
     else if op \<in> {rv_insn_lh, rv_insn_lhu, rv_insn_sh} then 2 else 1)"

text \<open>A little-endian load from an array of bytes, and a store of the low bytes of a word.\<close>

definition isa_load :: "rv_base \<Rightarrow> region \<Rightarrow> u32 \<Rightarrow> u32" where
  "isa_load op m a = (case op of
     rv_insn_lb \<Rightarrow> word_of_int (sint (m a))
   | rv_insn_lbu \<Rightarrow> word_of_int (uint (m a))
   | rv_insn_lh \<Rightarrow> word_of_int (sint (word_cat (m (a + 1)) (m a) :: u16))
   | rv_insn_lhu \<Rightarrow> word_of_int (uint (word_cat (m (a + 1)) (m a) :: u16))
   | _ \<Rightarrow> word_cat (word_cat (m (a + 3)) (m (a + 2)) :: u16) (word_cat (m (a + 1)) (m a) :: u16))"

definition isa_byte :: "u32 \<Rightarrow> nat \<Rightarrow> u8" where
  "isa_byte v i = word_of_int (uint v div 2 ^ (8 * i))"

definition isa_store :: "rv_base \<Rightarrow> region \<Rightarrow> u32 \<Rightarrow> u32 \<Rightarrow> region" where
  "isa_store op m a v = (case op of
     rv_insn_sb \<Rightarrow> m(a := isa_byte v 0)
   | rv_insn_sh \<Rightarrow> m(a := isa_byte v 0, a + 1 := isa_byte v 1)
   | _ \<Rightarrow> m(a := isa_byte v 0, a + 1 := isa_byte v 1, a + 2 := isa_byte v 2, a + 3 := isa_byte v 3))"

fun isa_step :: "asm \<Rightarrow> isa \<Rightarrow> isa_result" where
  "isa_step (Upper op rd imm) s =
     Done (step4 (wr rd (push_bit 12 (ucast imm) + (if op = rv_insn_auipc then ipc s else 0)) s))"
| "isa_step (Jal rd imm) s = Done ((wr rd (ipc s + 4) s)\<lparr>ipc := ipc s + scast imm\<rparr>)"
| "isa_step (Jalr rd rs1 imm) s =
     Done ((wr rd (ipc s + 4) s)\<lparr>ipc := (ireg s rs1 + scast imm) AND NOT 1\<rparr>)"
| "isa_step (Branch op rs1 rs2 imm) s =
     (if isa_cond op (ireg s rs1) (ireg s rs2) then Done (s\<lparr>ipc := ipc s + scast imm\<rparr>) else Done (step4 s))"
| "isa_step (Load op rd rs1 imm) s =
     (let a = ireg s rs1 + scast imm in
      if uint a mod access_size op \<noteq> 0 then Fault LOAD_MISALIGNED a s
      else Done (step4 (wr rd (isa_load op (imem s) a) s)))"
| "isa_step (Store op rs1 rs2 imm) s =
     (let a = ireg s rs1 + scast imm in
      if uint a mod access_size op \<noteq> 0 then Fault STORE_MISALIGNED a s
      else Done (step4 (s\<lparr>imem := isa_store op (imem s) a (ireg s rs2)\<rparr>)))"
| "isa_step (OpImm op rd rs1 imm) s =
     Done (step4 (wr rd (isa_op (reg_form op) (ireg s rs1) (scast imm)) s))"
| "isa_step (ShiftImm op rd rs1 sh) s =
     Done (step4 (wr rd (isa_op (reg_form op) (ireg s rs1) (ucast sh)) s))"
| "isa_step (Op op rd rs1 rs2) s = Done (step4 (wr rd (isa_op op (ireg s rs1) (ireg s rs2)) s))"
| "isa_step (MulDiv op rd rs1 rs2) s =
     Done (step4 (wr rd (isa_muldiv op (ireg s rs1) (ireg s rs2)) s))"

text \<open>The address a load or a store accesses.\<close>

fun isa_addr :: "asm \<Rightarrow> isa \<Rightarrow> u32 option" where
  "isa_addr (Load op rd rs1 imm) s = Some (ireg s rs1 + scast imm)"
| "isa_addr (Store op rs1 rs2 imm) s = Some (ireg s rs1 + scast imm)"
| "isa_addr _ s = None"

text \<open>Running a list of instructions in sequence.\<close>

fun isa_run :: "asm list \<Rightarrow> isa \<Rightarrow> isa_result" where
  "isa_run [] s = Done s"
| "isa_run (a # as) s = (case isa_step a s of Done s' \<Rightarrow> isa_run as s' | r \<Rightarrow> r)"

text \<open>Instructions that do not transfer control.\<close>

fun straight :: "asm \<Rightarrow> bool" where
  "straight (Jal _ _) = False"
| "straight (Jalr _ _ _) = False"
| "straight (Branch _ _ _ _) = False"
| "straight _ = True"

text \<open>A load to \<^verbatim>\<open>x0\<close> is excluded: the emulator writes its value to the register.\<close>

fun load_ok :: "asm \<Rightarrow> bool" where
  "load_ok (Load op rd rs1 imm) = (rd \<noteq> 0)"
| "load_ok _ = True"

text \<open>The accesses of a run are all in a given set of addresses.\<close>

fun run_within :: "(u32 \<Rightarrow> bool) \<Rightarrow> asm list \<Rightarrow> isa \<Rightarrow> bool" where
  "run_within P [] s = True"
| "run_within P (a # as) s =
     ((case isa_addr a s of None \<Rightarrow> True | Some x \<Rightarrow> P x)
      \<and> (case isa_step a s of Done s' \<Rightarrow> run_within P as s' | _ \<Rightarrow> True))"

section \<open>The operations agree\<close>

lemma shamt_5: "unat (x AND 0x1f) = nat (uint x mod 32)" for x :: u32
proof -
  have "x AND 0x1f = take_bit 5 x" by (simp add: take_bit_eq_mask mask_eq_exp_minus_1)
  then show ?thesis by (simp add: take_bit_eq_mod uint_mod unat_eq_nat_uint)
qed

lemma push_isa: "push_bit n x = word_of_int (uint x * 2 ^ n)" for x :: u32
  by (simp add: push_bit_eq_mult wi_hom_syms)

lemma drop_isa: "drop_bit n x = word_of_int (uint x div 2 ^ n)" for x :: u32
  by (rule bit_word_eqI) (simp add: bit_simps drop_bit_eq_div[symmetric])

lemma sdrop_isa: "signed_drop_bit n x = word_of_int (sint x div 2 ^ n)" for x :: u32
  by (rule bit_word_eqI) (simp add: bit_simps drop_bit_eq_div[symmetric] bit_sint_iff)

lemma wi_sint: "word_of_int (sint x) = x" for x :: u32 by (metis scast_eq scast_id)

lemma isa_op_simps:
  "isa_op rv_insn_add a b = a + b"
  "isa_op rv_insn_sub a b = a - b"
  "isa_op rv_insn_sll a b = push_bit (unat (b AND 0x1f)) a"
  "isa_op rv_insn_slt a b = (if a <s b then 1 else 0)"
  "isa_op rv_insn_sltu a b = (if a < b then 1 else 0)"
  "isa_op rv_insn_xor a b = a XOR b"
  "isa_op rv_insn_srl a b = drop_bit (unat (b AND 0x1f)) a"
  "isa_op rv_insn_sra a b = signed_drop_bit (unat (b AND 0x1f)) a"
  "isa_op rv_insn_or a b = a OR b"
  "isa_op rv_insn_and a b = a AND b"
  unfolding isa_op_def shamt_5 push_isa drop_isa sdrop_isa
  by (simp_all add: wi_hom_syms wi_sint word_sless_alt word_less_def)

lemma isa_muldiv_simps:
  "isa_muldiv rv_insn_mul = mul32" "isa_muldiv rv_insn_mulh = mulh32"
  "isa_muldiv rv_insn_mulhsu = mulhsu32" "isa_muldiv rv_insn_mulhu = mulhu32"
  "isa_muldiv rv_insn_div = div32" "isa_muldiv rv_insn_divu = divu32"
  "isa_muldiv rv_insn_rem = rem32" "isa_muldiv rv_insn_remu = remu32"
proof -
  have ov: "a = 0x80000000 \<Longrightarrow> sint a = - 0x80000000" for a :: u32 by simp
  show "isa_muldiv rv_insn_mul = mul32" "isa_muldiv rv_insn_mulh = mulh32"
    "isa_muldiv rv_insn_mulhsu = mulhsu32" "isa_muldiv rv_insn_mulhu = mulhu32"
    by (intro ext; simp add: isa_muldiv_def mul_high mul_low wi_hom_syms wi_sint)+
  show "isa_muldiv rv_insn_divu = divu32" "isa_muldiv rv_insn_remu = remu32"
    by (intro ext; simp add: isa_muldiv_def divu32_def remu32_def word_div_def word_mod_def)+
  show "isa_muldiv rv_insn_div = div32" "isa_muldiv rv_insn_rem = rem32"
    by (intro ext; auto simp: isa_muldiv_def div32_def rem32_def c_div_def c_rem_def ov)+
qed

lemma isa_cond_simps:
  "isa_cond rv_insn_beq a b \<longleftrightarrow> a = b" "isa_cond rv_insn_bne a b \<longleftrightarrow> a \<noteq> b"
  "isa_cond rv_insn_blt a b \<longleftrightarrow> \<not> b \<le>s a" "isa_cond rv_insn_bge a b \<longleftrightarrow> \<not> a <s b"
  "isa_cond rv_insn_bltu a b \<longleftrightarrow> \<not> a \<ge> b" "isa_cond rv_insn_bgeu a b \<longleftrightarrow> \<not> a < b"
  by (auto simp: isa_cond_def word_sless_alt word_sle_eq word_less_def word_le_def)

lemma isa_load_simps:
  "isa_load rv_insn_lb m a = sign_extend_b (ucast (m a))"
  "isa_load rv_insn_lbu m a = ucast (m a)"
  "isa_load rv_insn_lh m a = sign_extend_h (ucast (ld16 m a))"
  "isa_load rv_insn_lhu m a = ucast (ld16 m a)"
  "isa_load rv_insn_lw m a = ld32 m a"
proof -
  have c: "(word_cat (m (a + 1)) (m a) :: u16) = ld16 m a"
    by (rule bit_word_eqI) (auto simp: ld16_def bit_simps bit_word_cat_iff)
  have uu: "ucast (ucast x :: u32) = x" "ucast (ucast y :: u32) = y" for x :: u8 and y :: u16
    by (rule bit_word_eqI, simp add: bit_simps)+
  show "isa_load rv_insn_lb m a = sign_extend_b (ucast (m a))" "isa_load rv_insn_lbu m a = ucast (m a)"
     "isa_load rv_insn_lh m a = sign_extend_h (ucast (ld16 m a))"
  "isa_load rv_insn_lhu m a = ucast (ld16 m a)"
    unfolding isa_load_def sign_extend_b_def sign_extend_h_def rv_base.case c uu by simp_all
  show "isa_load rv_insn_lw m a = ld32 m a"
    unfolding isa_load_def rv_base.case ld32_def
    by (rule u32_eqI) (simp add: bit_simps bit_word_cat_iff)
qed

lemma isa_store_simps:
  "isa_store rv_insn_sb m a v = m(a := ucast v)"
  "isa_store rv_insn_sh m a v = st16 m a (ucast v)"
  "isa_store rv_insn_sw m a v = st32 m a v"
proof -
  have b: "isa_byte v i = ucast (drop_bit (8 * i) v)" for i
    unfolding isa_byte_def drop_isa by (rule bit_word_eqI) (simp add: bit_simps)
  show "isa_store rv_insn_sb m a v = m(a := ucast v)"
  "isa_store rv_insn_sw m a v = st32 m a v"
    by (simp_all add: isa_store_def b st32_def)
  have "ucast (drop_bit 8 (ucast v :: u16)) = (ucast (drop_bit 8 v) :: u8)"
    by (rule bit_word_eqI) (simp add: bit_simps)
  moreover have "ucast (ucast v :: u16) = (ucast v :: u8)"
    by (rule bit_word_eqI) (simp add: bit_simps)
  ultimately show "isa_store rv_insn_sh m a v = st16 m a (ucast v)"
    by (simp add: isa_store_def b st16_def)
qed

lemma misaligned_isa:
  "uint a mod 4 = 0 \<longleftrightarrow> a AND 3 = 0" "uint a mod 2 = 0 \<longleftrightarrow> a AND 1 = 0" "uint a mod 2 = 1 \<longleftrightarrow> a AND 1 \<noteq> 0"
  for a :: u32
proof -
  have "a AND 3 = take_bit 2 a" "a AND 1 = take_bit 1 a" by (simp_all add: take_bit_eq_mask mask_eq_exp_minus_1)
  moreover have "uint (take_bit 2 a) = uint a mod 4" "uint (take_bit 1 a) = uint a mod 2"
    by (simp_all add: take_bit_eq_mod uint_mod)
  ultimately show "uint a mod 4 = 0 \<longleftrightarrow> a AND 3 = 0" and 2: "uint a mod 2 = 0 \<longleftrightarrow> a AND 1 = 0"
    by (metis uint_0_iff)+
  then show "uint a mod 2 = 1 \<longleftrightarrow> a AND 1 \<noteq> 0" by presburger
qed

lemma ucast_reg_inj [simp]: "(ucast r :: u8) = ucast q \<longleftrightarrow> r = q" for r q :: "5 word"
proof
  assume "(ucast r :: u8) = ucast q"
  then have "unat (ucast r :: u8) = unat (ucast q :: u8)" by simp
  then show "r = q" by (simp add: unat_ucast_up word_unat_eq_iff)
qed simp

section \<open>The emulator implements the reference\<close>

text \<open>The architectural state of a core; what \<^term>\<open>bytes\<close> gives is the memory as the core sees it.\<close>

definition isa_of :: "(int \<Rightarrow> 'e \<Rightarrow> region) \<Rightarrow> u32 \<Rightarrow> 'e riscv \<Rightarrow> isa" where
  "isa_of bytes pc rv = \<lparr>ireg = (\<lambda>r. X rv (ucast r)), ipc = pc, imem = bytes (core_id rv) (env rv)\<rparr>"

lemma isa_of_simps [simp]:
  "ireg (isa_of bytes pc rv) r = X rv (ucast r)" "ipc (isa_of bytes pc rv) = pc"
  "imem (isa_of bytes pc rv) = bytes (core_id rv) (env rv)"
  by (simp_all add: isa_of_def)

lemma isa_of_setX:
  "rd \<noteq> 0 \<Longrightarrow> isa_of bytes pc (setX (ucast rd) v rv) = wr rd v (isa_of bytes pc rv)"
  "isa_of bytes (pc + 4) rv = step4 (isa_of bytes pc rv)"
  by (auto simp: isa_of_def wr_def setX_def step4_def fun_eq_iff)

text \<open>Where an outcome leaves the core.  An instruction that does not transfer control must go on to the
  next node; the others may continue in any way.\<close>

fun lands :: "bool \<Rightarrow> 'e outcome \<Rightarrow> ('e riscv \<times> u64 \<times> u32) option" where
  "lands st (Nextop rv cycle pc) = Some (rv, cycle, pc)"
| "lands st (End_op rv cycle pc) = (if st then None else Some (rv, cycle, pc))"
| "lands st (Tail b rv cycle pc) = (if st then None else Some (rv, cycle, pc))"
| "lands st (Lookup rv cycle pc) = (if st then None else Some (rv, cycle, pc))"
| "lands st _ = None"

lemmas base_ops = do_lui_def do_auipc_def do_jal_def do_jalr_def do_beq_def do_bne_def do_blt_def
  do_bge_def do_bltu_def do_bgeu_def do_lb_def do_lh_def do_lw_def do_lbu_def do_lhu_def do_sb_def
  do_sh_def do_sw_def do_addi_def do_slti_def do_sltiu_def do_xori_def do_ori_def do_andi_def
  do_slli_def do_srli_def do_srai_def do_add_def do_sub_def do_sll_def do_slt_def do_sltu_def
  do_xor_def do_srl_def do_sra_def do_or_def do_and_def

lemmas m_ops = do_mul_def do_mulh_def do_mulhsu_def do_mulhu_def do_div_def do_divu_def do_rem_def
  do_remu_def

lemmas exec_unfold = asm_tables impl_def zero_insn_def base_ops m_ops RVOP_def set_rd_def x1_def x2_def
  Let_def

lemma shift_imm_amount:
  fixes sh :: "5 word" and hi :: "12 word"
  assumes "hi \<in> {0, 0x400}"
  shows "(ucast hi OR ucast sh :: u32) AND 0x1f = ucast sh AND 0x1f"
proof -
  have "(0x400 OR ucast sh :: u32) AND 0x1f = ucast sh AND 0x1f"
    by (rule u32_eqI) (simp add: bit_simps)
  with assms show ?thesis by auto
qed

lemma lands_cases:
  assumes "lands st out = Some (rv, c, pc)"
  obtains "out = Nextop rv c pc" | "\<not> st" "\<forall>rv c pc. out \<noteq> Nextop rv c pc" "lands False out = Some (rv, c, pc)"
  using assms by (cases out) (auto split: if_splits)

locale core_memory =
  fixes M :: "'e machine_ops" and bytes :: "int \<Rightarrow> 'e \<Rightarrow> region"
    and plain :: "int \<Rightarrow> u32 \<Rightarrow> bool" and good :: "'e \<Rightarrow> bool"
  assumes read_b: "good (env rv) \<Longrightarrow> plain (core_id rv) a \<Longrightarrow>
      mem_read_b (m_io M) rv a = bytes (core_id rv) (env rv) a"
    and read_s: "good (env rv) \<Longrightarrow> plain (core_id rv) a \<Longrightarrow> a AND 1 = 0 \<Longrightarrow>
      mem_read_s (m_io M) rv a = ld16 (bytes (core_id rv) (env rv)) a"
    and read_w: "good (env rv) \<Longrightarrow> plain (core_id rv) a \<Longrightarrow> a AND 3 = 0 \<Longrightarrow>
      mem_read_w (m_io M) rv a = (ld32 (bytes (core_id rv) (env rv)) a, env rv)"
    and write_b: "good (env rv) \<Longrightarrow> plain (core_id rv) a \<Longrightarrow>
      good (mem_write_b (m_io M) rv a b)
      \<and> bytes (core_id rv) (mem_write_b (m_io M) rv a b) = (bytes (core_id rv) (env rv))(a := b)"
    and write_s: "good (env rv) \<Longrightarrow> plain (core_id rv) a \<Longrightarrow> a AND 1 = 0 \<Longrightarrow>
      good (mem_write_s (m_io M) rv a h)
      \<and> bytes (core_id rv) (mem_write_s (m_io M) rv a h) = st16 (bytes (core_id rv) (env rv)) a h"
    and write_w: "good (env rv) \<Longrightarrow> plain (core_id rv) a \<Longrightarrow> a AND 3 = 0 \<Longrightarrow>
      \<exists>e. mem_write_w (m_io M) rv a v = Some e \<and> good e
        \<and> bytes (core_id rv) e = st32 (bytes (core_id rv) (env rv)) a v"
begin

definition core_ok :: "int \<Rightarrow> 'e riscv \<Rightarrow> bool" where
  "core_ok cid rv \<longleftrightarrow> X rv 0 = 0 \<and> \<not> allow_misalign rv \<and> good (env rv) \<and> core_id rv = cid"

definition implements :: "bool \<Rightarrow> int \<Rightarrow> u64 \<Rightarrow> isa_result \<Rightarrow> 'e outcome \<Rightarrow> bool" where
  "implements st cid cycle r out = (case r of
     Done s \<Rightarrow> \<exists>rv pc. lands st out = Some (rv, cycle, pc) \<and> isa_of bytes pc rv = s \<and> core_ok cid rv
   | Fault cause a s \<Rightarrow> \<exists>rv pc c. out = Return False
       (set_cause_and_tval_then_trap cause a (rv\<lparr>compressed := False, csr_cycle := c, PC := pc\<rparr>))
       \<and> isa_of bytes pc rv = s \<and> core_ok cid rv)"

lemma core_ok_setX: "rd \<noteq> 0 \<Longrightarrow> core_ok cid (setX (ucast rd) v rv) = core_ok cid rv" for rd :: "5 word"
  by (auto simp: core_ok_def setX_def)

lemma implements_reg:
  assumes "rd \<noteq> 0" "core_ok cid rv" "v = w"
  shows "implements st cid cycle (Done (step4 (wr rd v (isa_of bytes pc rv))))
    (Nextop (setX (ucast rd) w rv) cycle (pc + 4))"
  using assms by (auto simp: implements_def isa_of_setX core_ok_setX)

lemma implements_fault:
  assumes "core_ok cid rv"
  shows "implements st cid cycle (Fault cause a (isa_of bytes pc rv)) (Return False
    (set_cause_and_tval_then_trap cause a (rv\<lparr>compressed := False, csr_cycle := c, PC := pc\<rparr>)))"
  using assms unfolding implements_def by fastforce

lemma exec_computation:
  assumes "asm_ok a" "core_ok cid rv"
    and "case a of Op _ _ _ _ \<Rightarrow> True | OpImm _ _ _ _ \<Rightarrow> True | MulDiv _ _ _ _ \<Rightarrow> True | Upper _ _ _ \<Rightarrow> True
      | ShiftImm _ _ _ _ \<Rightarrow> True | _ \<Rightarrow> False"
  shows "implements True cid (cycle + 1) (isa_step a (isa_of bytes pc rv))
    (impl M lk ((denote a)\<lparr>i_pc := p\<rparr>) cycle pc rv)"
proof (cases a)
  case (MulDiv op rd rs1 rs2)
  with assms show ?thesis
    by (cases op) (auto simp: exec_unfold isa_muldiv_simps intro!: implements_reg)
next
  case (ShiftImm op rd rs1 sh)
  with assms shift_imm_amount[of "0x400" sh] show ?thesis
    by (auto simp: exec_unfold shift_op_def shift_func_def isa_op_simps reg_form_def intro!: implements_reg)
qed (use assms in \<open>auto simp: exec_unfold isa_op_simps reg_form_def intro!: implements_reg\<close>)

lemma exec_jump:
  assumes "asm_ok a" "core_ok cid rv" "\<not> straight a"
  shows "implements False cid (cycle + 1) (isa_step a (isa_of bytes pc rv))
    (impl M lk ((denote a)\<lparr>i_pc := p\<rparr>) cycle pc rv)"
  using assms
  by (cases a) (auto simp: exec_unfold branch_func_def jump_taken_def setX_nz_def setX_def wr_def fun_eq_iff
    core_ok_def isa_cond_simps implements_def isa_of_def step4_def split: option.splits)

lemma exec_load:
  assumes "asm_ok (Load op rd rs1 imm)" "rd \<noteq> 0" "core_ok cid rv" "plain cid (X rv (ucast rs1) + scast imm)"
  shows "implements True cid (cycle + 1) (isa_step (Load op rd rs1 imm) (isa_of bytes pc rv))
    (impl M lk ((denote (Load op rd rs1 imm))\<lparr>i_pc := p\<rparr>) cycle pc rv)"
proof -
  have g: "good (env rv)" "plain (core_id rv) (X rv (ucast rs1) + scast imm)" "\<not> allow_misalign rv"
    using assms by (auto simp: core_ok_def)
  show ?thesis
    using assms g(3) read_b[OF g(1,2)] read_s[OF g(1,2)] read_w[OF g(1,2)]
    by (auto simp: exec_unfold exc_misalign_def misaligned_isa access_size_def isa_load_simps io_read_w_def
      intro!: implements_reg implements_fault)
qed

lemma exec_store:
  assumes "asm_ok (Store op rs1 rs2 imm)" "core_ok cid rv" "plain cid (X rv (ucast rs1) + scast imm)"
  shows "implements True cid (cycle + 1) (isa_step (Store op rs1 rs2 imm) (isa_of bytes pc rv))
    (impl M lk ((denote (Store op rs1 rs2 imm))\<lparr>i_pc := p\<rparr>) cycle pc rv)"
proof -
  have g: "good (env rv)" "plain (core_id rv) (X rv (ucast rs1) + scast imm)" "\<not> allow_misalign rv"
    using assms by (auto simp: core_ok_def)
  have done': "implements True (core_id rv) (cycle + 1) (Done (step4 ((isa_of bytes pc rv)\<lparr>imem := m\<rparr>)))
      (Nextop (rv\<lparr>env := e\<rparr>) (cycle + 1) (pc + 4))" if "good e" "bytes (core_id rv) e = m" for e m
    using that assms(2) by (auto simp: implements_def isa_of_def step4_def core_ok_def)
  have cid: "cid = core_id rv" using assms(2) by (simp add: core_ok_def)
  show ?thesis
    using assms g(3) write_b[OF g(1,2)] write_s[OF g(1,2)] write_w[OF g(1,2), of "X rv (ucast rs2)"]
    unfolding cid
    by (auto simp: exec_unfold exc_misalign_def misaligned_isa access_size_def isa_store_simps io_write_w_def
      io_write_s_def io_write_b_def store_w_def intro!: done' implements_fault)
qed

theorem exec_insn:
  assumes "asm_ok a" "load_ok a" "core_ok cid rv"
    and "case isa_addr a (isa_of bytes pc rv) of None \<Rightarrow> True | Some x \<Rightarrow> plain cid x"
  shows "implements (straight a) cid (cycle + 1) (isa_step a (isa_of bytes pc rv))
    (impl M lk ((denote a)\<lparr>i_pc := p\<rparr>) cycle pc rv)"
proof (cases a)
  case (Load op rd rs1 imm)
  with assms exec_load[of op rd rs1 imm cid rv] show ?thesis by simp
next
  case (Store op rs1 rs2 imm)
  with assms exec_store[of op rs1 rs2 imm cid rv] show ?thesis by simp
qed (use assms exec_jump[of a cid rv] exec_computation[of a cid rv] in \<open>auto simp del: asm_ok.simps\<close>)

text \<open>A basic block: instructions that fall through, then a last one of any kind.\<close>

lemma exec_program:
  assumes "list_all asm_ok as" "list_all load_ok as" "list_all straight (butlast as)" "core_ok cid rv"
    and "run_within (plain cid) as (isa_of bytes pc rv)"
    and "list_all2 (\<lambda>ir a. \<exists>p. ir = (denote a)\<lparr>i_pc := p\<rparr>) irs as"
  shows "implements False cid (cycle + of_nat (length as)) (isa_run as (isa_of bytes pc rv))
    (exec_nodes M lk irs cycle pc rv)"
  using assms
proof (induction as arbitrary: irs cycle pc rv)
  case Nil
  then show ?case by (auto simp: implements_def)
next
  case (Cons a as)
  from Cons.prems(6) obtain irs' p where irs: "irs = (denote a)\<lparr>i_pc := p\<rparr> # irs'"
    "list_all2 (\<lambda>ir a. \<exists>p. ir = (denote a)\<lparr>i_pc := p\<rparr>) irs' as"
    by (auto simp: list_all2_Cons2)
  have ok: "asm_ok a" "load_ok a" "list_all asm_ok as" "list_all load_ok as" using Cons.prems by auto
  have st: "as \<noteq> [] \<Longrightarrow> straight a" "list_all straight (butlast as)"
    using Cons.prems(3) by (auto split: if_splits)
  let ?s = "isa_of bytes pc rv" and ?lk = "if irs' = [] then lk else no_links"
  have within: "case isa_addr a ?s of None \<Rightarrow> True | Some x \<Rightarrow> plain cid x"
    "\<And>s'. isa_step a ?s = Done s' \<Longrightarrow> run_within (plain cid) as s'"
    using Cons.prems(5) by auto
  let ?out = "impl M ?lk ((denote a)\<lparr>i_pc := p\<rparr>) cycle pc rv"
  note step = exec_insn[OF ok(1,2) Cons.prems(4) within(1), of cycle ?lk p]
  show ?case
  proof (cases "isa_step a ?s")
    case (Fault cause x s)
    with step show ?thesis by (fastforce simp: irs(1) implements_def)
  next
    case (Done s')
    with step obtain rv' pc' where l: "lands (straight a) ?out = Some (rv', cycle + 1, pc')"
      and s': "isa_of bytes pc' rv' = s'" and ok': "core_ok cid rv'"
      by (auto simp: implements_def)
    from l show ?thesis
    proof (cases rule: lands_cases)
      case 1
      have "run_within (plain cid) as (isa_of bytes pc' rv')" using within(2)[OF Done] s' by simp
      from Cons.IH[OF ok(3,4) st(2) ok' this irs(2), of "cycle + 1"] 1 Done s'
      show ?thesis by (simp add: irs(1) add_ac)
    next
      case 2
      then have "as = []" "irs' = []" using st(1) irs(2) by auto
      with 2 Done s' ok' show ?thesis
        by (cases ?out) (auto simp: irs(1) implements_def)
    qed
  qed
qed

end

end
