(* ===== verification/Constopt_Sound.thy ===== *)
theory Constopt_Sound
  imports Constopt Rv_Isa Decode_Safety
begin

text \<open>
  Constant folding is sound: the optimised nodes of a block execute like the nodes it was given.  The
  knowledge about the registers is an abstraction of the register file that every instruction function
  respects, once it is shown which registers each of them may write.
\<close>

section \<open>What an instruction may write\<close>

text \<open>If the instruction falls through, it has advanced by its length and changed at most the
  registers of \<^term>\<open>W\<close>.\<close>

definition moves :: "u32 \<Rightarrow> u8 set \<Rightarrow> 'e riscv \<Rightarrow> u32 \<Rightarrow> 'e outcome \<Rightarrow> bool" where
  "moves len W rv pc out \<longleftrightarrow>
     (\<forall>rv' c pc'. out = Nextop rv' c pc' \<longrightarrow> pc' = pc + len \<and> (\<forall>r. r \<notin> W \<longrightarrow> X rv' r = X rv r))"

lemma moves_simps [simp]:
  "moves len W rv pc (Nextop rv' c pc') \<longleftrightarrow> pc' = pc + len \<and> (\<forall>r. r \<notin> W \<longrightarrow> X rv' r = X rv r)"
  "moves len W rv pc (End_op rv' c pc')"
  "moves len W rv pc (Return b rv')"
  "moves len W rv pc (Tail t rv' c pc')"
  "moves len W rv pc (Lookup rv' c pc')"
  "moves len W rv pc Abort"
  by (simp_all add: moves_def)

lemma moves_RVOP: "moves 0 W rv pc (code lk ir (cycle + 1) pc rv) \<Longrightarrow> moves len W rv pc (RVOP len code lk ir cycle pc rv)"
  by (cases "code lk ir (cycle + 1) pc rv") (simp_all add: RVOP_def)

lemma moves_misalign [simp]:
  "moves len W rv pc rest \<Longrightarrow> moves len W rv pc (exc_misalign msk cause b addr cycle pc rv rest)"
  by (simp add: exc_misalign_def)

lemma X_setX_nz [simp]: "r \<noteq> rd \<or> rd = 0 \<Longrightarrow> X (setX_nz rd v rv) r = X rv r"
  by (auto simp: setX_nz_def)

lemma X_io_write [simp]:
  "X (io_write_b io a v rv) = X rv"
  "X (io_write_s io a v rv) = X rv"
  by (simp_all add: io_write_b_def io_write_s_def)

lemma X_io_read: "io_read_w io a rv = (v, rv') \<Longrightarrow> X rv' = X rv"
  by (auto simp: io_read_w_def split: prod.splits)

lemma X_io_write_w: "io_write_w io a v rv = Some rv' \<Longrightarrow> X rv' = X rv"
  by (auto simp: io_write_w_def split: option.splits)

lemma moves_store_w [simp]:
  "(\<forall>r. r \<notin> W \<longrightarrow> X rv' r = X rv r) \<Longrightarrow> moves 0 W rv pc (store_w io a v c pc rv')"
  using X_io_write_w[of io a v rv'] by (cases "io_write_w io a v rv'") (simp_all add: store_w_def)

lemma moves_set_rd: "moves 0 {i_rd ir} rv pc (set_rd f lk ir c pc rv)"
  by (simp add: set_rd_def)

lemma moves_set_rd_defined: "moves 0 {i_rd ir} rv pc (set_rd_defined f lk ir c pc rv)"
  by (simp add: set_rd_defined_def split: option.split)

lemmas zb_ops = do_sh1add_def do_sh2add_def do_sh3add_def do_andn_def do_orn_def do_xnor_def do_clz_def
  do_ctz_def do_cpop_def do_max_def do_maxu_def do_min_def do_minu_def do_sextb_def do_sexth_def
  do_zexth_def do_rol_def do_ror_def do_rori_def do_orcb_def do_rev8_def do_clmul_def do_clmulh_def
  do_clmulr_def do_bclr_def do_bclri_def do_bext_def do_bexti_def do_binv_def do_binvi_def do_bset_def
  do_bseti_def
lemmas a_ops = do_lrw_def do_scw_def do_amoswapw_def do_amoaddw_def do_amoxorw_def do_amoandw_def
  do_amoorw_def do_amominw_def do_amomaxw_def do_amominuw_def do_amomaxuw_def
lemmas f_ops = do_flw_def do_fsw_def do_fmadds_def do_fmsubs_def do_fnmsubs_def do_fnmadds_def
  do_fadds_def do_fsubs_def do_fmuls_def do_fdivs_def do_fsqrts_def do_fsgnjs_def do_fsgnjns_def
  do_fsgnjxs_def do_fmins_def do_fmaxs_def do_fcvtws_def do_fcvtwus_def do_fmvxw_def do_feqs_def
  do_flts_def do_fles_def do_fclasss_def do_fcvtsw_def do_fcvtswu_def do_fmvwx_def
lemmas c_ops = do_caddi4spn_def do_clw_def do_csw_def do_cnop_def do_caddi_def do_cjal_def do_cli_def
  do_caddi16sp_def do_clui_def do_csrli_def do_csrai_def do_candi_def do_csub_def do_cxor_def do_cor_def
  do_cand_def do_cj_def do_cbeqz_def do_cbnez_def do_cslli_def do_clwsp_def do_cjr_def do_cmv_def
  do_cebreak_def do_cjalr_def do_cadd_def do_cswsp_def do_cflwsp_def do_cfswsp_def do_cflw_def
  do_cfsw_def
lemmas priv_ops = do_wfi_def do_uret_def do_hret_def do_mret_def do_sfencevma_def
lemmas zi_ops = do_fencei_def do_csrrw_def do_csrrs_def do_csrrc_def do_csrrwi_def do_csrrsi_def
  do_csrrci_def

text \<open>The registers of each group.\<close>

lemma moves_m: "moves 4 {i_rd ir} rv pc (do_m m lk ir cycle pc rv)"
  by (cases m) (auto simp: m_ops intro!: moves_RVOP moves_set_rd)

lemma moves_zb: "moves 4 {i_rd ir} rv pc (do_zb z lk ir cycle pc rv)"
  by (cases z) (auto simp: zb_ops Let_def intro!: moves_RVOP moves_set_rd moves_set_rd_defined)

lemma moves_priv: "moves 4 {} rv pc (do_priv p lk ir cycle pc rv)"
  by (cases p) (auto simp: priv_ops no_entry_def intro!: moves_RVOP)

lemma X_csr_store [simp]: "X (csr_store c v rv) = X rv"
  by (cases c) simp_all

lemma X_csr_get_ptr: "csr_get_ptr csr rv = (c, rv') \<Longrightarrow> X rv' = X rv"
  by (auto simp: csr_get_ptr_def update_time_def Let_def split: if_splits)

lemma X_csr_rmw: "csr_rmw g csr val rv = (out, rv') \<Longrightarrow> X rv' = X rv"
  by (auto simp: csr_rmw_def Let_def split: prod.splits option.splits dest!: X_csr_get_ptr)

lemma moves_zi: "moves 4 ({i_rd ir} - {0}) rv pc (do_zi z lk ir cycle pc rv)"
  by (cases z) (auto simp: zi_ops csr_op_def csr_csrrw_def csr_csrrs_def csr_csrrc_def
      intro!: moves_RVOP split: prod.splits dest!: X_csr_rmw)

lemma moves_amo: "moves 0 ({i_rd ir} - {0}) rv pc (amo io f lk ir cycle pc rv)"
  using X_io_read[of io "x1 ir rv" rv]
  by (auto simp: amo_def Let_def setX_nz_def intro!: moves_store_w moves_misalign split: prod.splits)

lemma moves_a: "a \<noteq> rv_insn_scw \<Longrightarrow> moves 4 ({i_rd ir} - {0}) rv pc (do_a io a lk ir cycle pc rv)"
  using X_io_read[of io "x1 ir rv" rv]
  by (cases a) (auto simp: a_ops Let_def intro!: moves_RVOP moves_amo moves_misalign split: prod.splits)

lemma X_set_rounding_mode: "set_rounding_mode rm rv = Some rv' \<Longrightarrow> X rv' = X rv"
  by (auto simp: set_rounding_mode_def Let_def split: if_splits)

lemma X_set_fflag [simp]: "X (set_fflag rv) = X rv"
  by (simp add: set_fflag_def Let_def)

lemma X_raise_flags [simp]: "X (raise_flags fl rv) = X rv"
  by (simp add: raise_flags_def)

lemma X_sf_call: "sf_call f rv = (v, rv') \<Longrightarrow> X rv' = X rv"
  by (auto simp: sf_call_def split: prod.splits)

lemma X_sf_test [simp]: "X (snd (sf_test r rv)) = X rv"
  by (simp add: sf_test_def)

lemma X_setF [simp]: "X (setF r v rv) = X rv"
  by (simp add: setF_def)

lemma moves_fp_op: "moves 0 {} rv pc (fp_op f lk ir cycle pc rv)"
  by (auto simp: fp_op_def split: option.splits prod.splits dest!: X_set_rounding_mode X_sf_call)

lemma moves_fp_to_int: "moves 0 ({i_rd ir} - {0}) rv pc (fp_to_int f lk ir cycle pc rv)"
  by (auto simp: fp_to_int_def split: option.splits prod.splits dest!: X_set_rounding_mode X_sf_call)

lemma moves_fp_compare: "moves 0 ({i_rd ir} - {0}) rv pc (fp_compare f lk ir cycle pc rv)"
  by (auto simp: fp_compare_def sf_test_def)

lemma moves_min_max:
  "moves 0 {} rv pc (case less_or_signed_eq a b c d s (signal_nan ir rv) of
     (is_less, rv) \<Rightarrow> Nextop (select_f ir is_less rv) cycle pc)"
  by (auto simp: less_or_signed_eq_def select_f_def signal_nan_def sf_test_def split: bool.splits)

text \<open>The instructions of RV32F with an integer result.\<close>

definition to_x :: "rv_f \<Rightarrow> bool" where
  "to_x f \<longleftrightarrow> f \<in> {rv_insn_fcvtws, rv_insn_fcvtwus, rv_insn_fmvxw, rv_insn_feqs, rv_insn_flts, rv_insn_fles,
     rv_insn_fclasss}"

lemma moves_f: "moves 4 (if to_x f then {i_rd ir} - {0} else {}) rv pc (do_f sf io f lk ir cycle pc rv)"
  using X_io_read[of io "x1 ir rv + i_imm ir" rv]
  by (cases f) (auto simp: f_ops to_x_def set_fd_def Let_def
      intro!: moves_RVOP moves_fp_op moves_fp_to_int moves_fp_compare moves_min_max moves_misalign
      split: prod.splits)

section \<open>Knowledge and the register file\<close>

definition agrees :: "constopt_info \<Rightarrow> 'e riscv \<Rightarrow> bool" where
  "agrees info rv \<longleftrightarrow> (is_constant info 0 \<longrightarrow> const_val info 0 = 0)
     \<and> (\<forall>r. is_constant info r \<longrightarrow> X rv r = const_val info r)"

lemma agrees_start: "X rv 0 = 0 \<Longrightarrow> agrees start_info rv"
  by (simp add: agrees_def start_info_def)

lemma agrees_X: "agrees info rv \<Longrightarrow> is_constant info r \<Longrightarrow> X rv r = const_val info r"
  by (simp add: agrees_def)

text \<open>A node rewritten in agreement with the register file does the same, and leaves the registers in
  agreement with the new knowledge.\<close>

definition keeps_step ::
  "'e machine_ops \<Rightarrow> links \<Rightarrow> rv_insn \<Rightarrow> rv_insn \<times> constopt_info \<Rightarrow> u32 \<Rightarrow> u64 \<Rightarrow> 'e riscv \<Rightarrow> bool" where
  "keeps_step M lk ir out len cycle rv \<longleftrightarrow>
     impl M lk (fst out) cycle (i_pc ir) rv = impl M lk ir cycle (i_pc ir) rv
     \<and> (\<forall>rv' c pc'. impl M lk ir cycle (i_pc ir) rv = Nextop rv' c pc' \<longrightarrow>
          pc' = i_pc ir + len \<and> agrees (snd out) rv')"

lemma keeps_stepI:
  assumes "agrees info rv" "moves len W rv (i_pc ir) (impl M lk ir cycle (i_pc ir) rv)"
    and "\<And>r. is_constant info' r \<Longrightarrow> r \<notin> W \<and> is_constant info r \<and> const_val info' r = const_val info r"
  shows "keeps_step M lk ir (ir, info') len cycle rv"
  using assms by (auto simp: keeps_step_def moves_def agrees_def)

lemma keeps_keep:
  assumes "agrees info rv" "moves len {} rv (i_pc ir) (impl M lk ir cycle (i_pc ir) rv)"
  shows "keeps_step M lk ir (keep ir info) len cycle rv"
  using assms by (auto simp: keep_def intro: keeps_stepI)

lemma keeps_forget_rd:
  assumes "agrees info rv" "moves len {i_rd ir} rv (i_pc ir) (impl M lk ir cycle (i_pc ir) rv)"
  shows "keeps_step M lk ir (forget_rd ir info) len cycle rv"
  unfolding forget_rd_def
  by (rule keeps_stepI[OF assms]) (auto simp: unknown_def split: if_splits)

lemma keeps_forget_rd_nz:
  assumes "agrees info rv" "moves len ({i_rd ir} - {0}) rv (i_pc ir) (impl M lk ir cycle (i_pc ir) rv)"
  shows "keeps_step M lk ir (forget_rd_nz ir info) len cycle rv"
  unfolding forget_rd_nz_def
  by (rule keeps_stepI[OF assms]) (auto simp: unknown_def split: if_splits)

lemma moves_mono: "moves len V rv pc out \<Longrightarrow> V \<subseteq> W \<Longrightarrow> moves len W rv pc out"
  unfolding moves_def by blast

text \<open>A node replaced by a constant load.\<close>

lemma keeps_to_const:
  assumes "agrees info rv" "i_rd ir' \<noteq> 0"
    and load: "opc = Base rv_insn_lui \<and> len = 4 \<or> opc = RvC rv_insn_clui \<and> len = 2"
    and step: "impl M lk ir cycle (i_pc ir) rv = Nextop (setX (i_rd ir') v rv) (cycle + 1) (i_pc ir + len)"
  shows "keeps_step M lk ir (to_const opc v ir' info) len cycle rv"
proof -
  have "impl M lk (fst (to_const opc v ir' info)) cycle (i_pc ir) rv
      = Nextop (setX (i_rd ir') v rv) (cycle + 1) (i_pc ir + len)"
    using load by (auto simp: to_const_def impl_def do_lui_def do_clui_def RVOP_def set_rd_def)
  with assms show ?thesis by (auto simp: keeps_step_def to_const_def agrees_def known_def)
qed

lemma keeps_fold_imm:
  assumes ag: "agrees info rv" "i_rd ir \<noteq> 0"
    and i: "\<And>lk cycle pc rv. impl M lk ir cycle pc rv = RVOP 4 (set_rd (\<lambda>ir pc rv. f (x1 ir rv) (i_imm ir))) lk ir cycle pc rv"
  shows "keeps_step M lk ir (fold_imm f ir info) 4 cycle rv"
proof (cases "is_constant info (i_rs1 ir)")
  case True
  with ag show ?thesis
    by (auto simp: fold_imm_def i RVOP_def set_rd_def x1_def agrees_X intro!: keeps_to_const)
next
  case False
  have "keeps_step M lk ir (forget_rd ir info) 4 cycle rv"
    by (rule keeps_forget_rd[OF ag(1)]) (simp add: i moves_RVOP moves_set_rd)
  with False show ?thesis by (simp add: fold_imm_def forget_rd_def)
qed

lemma keeps_fold_reg:
  assumes ag: "agrees info rv" "i_rd ir \<noteq> 0"
    and opc: "opc = Base rv_insn_lui \<and> len = 4 \<or> opc = RvC rv_insn_clui \<and> len = 2"
    and i: "\<And>lk cycle pc rv. impl M lk ir cycle pc rv = RVOP len (set_rd (\<lambda>ir pc rv. f (x1 ir rv) (x2 ir rv))) lk ir cycle pc rv"
  shows "keeps_step M lk ir (fold_reg opc f ir info) len cycle rv"
proof (cases "is_constant info (i_rs1 ir) \<and> is_constant info (i_rs2 ir)")
  case True
  with ag opc show ?thesis
    by (auto simp: fold_reg_def i RVOP_def set_rd_def x1_def x2_def agrees_X intro!: keeps_to_const)
next
  case False
  have "keeps_step M lk ir (forget_rd ir info) len cycle rv"
    by (rule keeps_forget_rd[OF ag(1)]) (simp add: i moves_RVOP moves_set_rd)
  with False show ?thesis by (auto simp: fold_reg_def forget_rd_def)
qed

lemma keeps_fold_rd:
  assumes ag: "agrees info rv" "i_rd ir \<noteq> 0"
    and i: "\<And>lk cycle pc rv. impl M lk ir cycle pc rv = RVOP 2 (set_rd (\<lambda>ir pc rv. f (X rv (i_rd ir)) (i_imm ir))) lk ir cycle pc rv"
  shows "keeps_step M lk ir (fold_rd f ir info) 2 cycle rv"
proof (cases "is_constant info (i_rd ir)")
  case True
  with ag show ?thesis
    by (auto simp: fold_rd_def i RVOP_def set_rd_def agrees_X intro!: keeps_to_const)
next
  case False
  have "moves 2 {i_rd ir} rv (i_pc ir) (impl M lk ir cycle (i_pc ir) rv)"
    by (simp add: i moves_RVOP moves_set_rd)
  from keeps_stepI[OF ag(1) this, of info] False show ?thesis by (auto simp: fold_rd_def)
qed

lemma keeps_fold_rs1:
  assumes ag: "agrees info rv" "i_rs1 ir \<noteq> 0"
    and i: "\<And>lk cycle pc rv. impl M lk ir cycle pc rv = RVOP 2 (upd_rs1 f) lk ir cycle pc rv"
  shows "keeps_step M lk ir (fold_rs1 f ir info) 2 cycle rv"
proof (cases "is_constant info (i_rs1 ir)")
  case True
  with ag show ?thesis
    by (auto simp: fold_rs1_def i RVOP_def upd_rs1_def x1_def agrees_X intro!: keeps_to_const)
next
  case False
  have "moves 2 {i_rs1 ir} rv (i_pc ir) (impl M lk ir cycle (i_pc ir) rv)"
    by (simp add: i moves_RVOP upd_rs1_def)
  from keeps_stepI[OF ag(1) this, of info] False show ?thesis by (auto simp: fold_rs1_def)
qed

section \<open>Every instruction\<close>

text \<open>The nodes the pass is sound for.  The decoder gives instructions that only compute a value a
  destination other than \<^verbatim>\<open>x0\<close>, and conditional branches none; fused nodes are built later.  SC.W is
  left out: the pass forgets to forget its destination.\<close>

definition fold_ok :: "rv_insn \<Rightarrow> bool" where
  "fold_ok ir \<longleftrightarrow> (i_mailbox ir \<longrightarrow> i_opcode ir = Base rv_insn_lw) \<and>
     (case i_opcode ir of
        Base b \<Rightarrow>
          if b \<in> {rv_insn_beq, rv_insn_bne, rv_insn_blt, rv_insn_bge, rv_insn_bltu, rv_insn_bgeu} then i_rd ir = 0
          else b \<in> {rv_insn_nop, rv_insn_jal, rv_insn_jalr, rv_insn_lb, rv_insn_lh, rv_insn_lw, rv_insn_lbu, rv_insn_lhu,
            rv_insn_sb, rv_insn_sh, rv_insn_sw, rv_insn_fence, rv_insn_ecall, rv_insn_ebreak} \<or> i_rd ir \<noteq> 0
      | Zb _ \<Rightarrow> i_rd ir \<noteq> 0
      | RvM _ \<Rightarrow> i_rd ir \<noteq> 0
      | RvA a \<Rightarrow> a \<noteq> rv_insn_scw
      | RvC c \<Rightarrow>
          if c \<in> {rv_insn_csrli, rv_insn_csrai, rv_insn_candi} then i_rs1 ir \<noteq> 0
          else c \<in> {rv_insn_clw, rv_insn_csw, rv_insn_cnop, rv_insn_cjal, rv_insn_cj, rv_insn_cbeqz, rv_insn_cbnez,
            rv_insn_clwsp, rv_insn_cjr, rv_insn_cebreak, rv_insn_cjalr, rv_insn_cswsp, rv_insn_cflwsp,
            rv_insn_cfswsp, rv_insn_cflw, rv_insn_cfsw} \<or> i_rd ir \<noteq> 0
      | Fused _ \<Rightarrow> False
      | _ \<Rightarrow> True)"

definition cond_branch :: "rv_opcode \<Rightarrow> bool" where
  "cond_branch op \<longleftrightarrow> op \<in> {Base rv_insn_beq, Base rv_insn_bne, Base rv_insn_blt, Base rv_insn_bge, Base rv_insn_bltu,
     Base rv_insn_bgeu, RvC rv_insn_cbeqz, RvC rv_insn_cbnez}"

lemma mulhu_signed_eq: "mulhu_signed x y = mulhu32 x y"
  by (rule bit_word_eqI) (auto simp: mulhu_signed_def mulhu32_def bit_simps)

lemma keeps_m:
  assumes "agrees info rv" "i_opcode ir = RvM m" "\<not> i_mailbox ir" "i_rd ir \<noteq> 0"
  shows "keeps_step M lk ir (constopt_m_table m ir info) 4 cycle rv"
  using assms by (cases m) (auto simp: constopt_m_defs impl_def m_ops mulhu_signed_eq intro!: keeps_fold_reg)

lemma keeps_zb:
  assumes "agrees info rv" "i_opcode ir = Zb z" "\<not> i_mailbox ir" "i_rd ir \<noteq> 0"
  shows "keeps_step M lk ir (constopt_zb_table z ir info) 4 cycle rv"
proof -
  have "moves 4 ({i_rd ir} - {0}) rv (i_pc ir) (impl M lk ir cycle (i_pc ir) rv)"
    using assms moves_zb[of ir rv "i_pc ir" z] by (simp add: impl_def)
  moreover have "constopt_zb_table z = forget_rd_nz" by (cases z) (simp_all)
  ultimately show ?thesis using assms(1) by (simp add: keeps_forget_rd_nz)
qed

lemma keeps_a:
  assumes "agrees info rv" "i_opcode ir = RvA a" "\<not> i_mailbox ir" "a \<noteq> rv_insn_scw"
  shows "keeps_step M lk ir (constopt_a_table a ir info) 4 cycle rv"
proof -
  have "moves 4 ({i_rd ir} - {0}) rv (i_pc ir) (impl M lk ir cycle (i_pc ir) rv)"
    using assms moves_a[of a ir rv "i_pc ir"] by (simp add: impl_def)
  moreover have "constopt_a_table a = forget_rd_nz" using assms by (cases a) (simp_all)
  ultimately show ?thesis using assms(1) by (simp add: keeps_forget_rd_nz)
qed

lemma keeps_f:
  assumes "agrees info rv" "i_opcode ir = RvF f" "\<not> i_mailbox ir"
  shows "keeps_step M lk ir (constopt_f_table f ir info) 4 cycle rv"
proof -
  have "moves 4 (if to_x f then {i_rd ir} - {0} else {}) rv (i_pc ir) (impl M lk ir cycle (i_pc ir) rv)"
    using assms moves_f[of f ir rv "i_pc ir"] by (simp add: impl_def)
  moreover have "constopt_f_table f = (if to_x f then forget_rd_nz else keep)"
    by (cases f) (simp_all add: to_x_def)
  ultimately show ?thesis using assms(1) by (simp add: keeps_forget_rd_nz keeps_keep split: if_splits)
qed

lemma keeps_zi:
  assumes "agrees info rv" "i_opcode ir = Zi z" "\<not> i_mailbox ir"
  shows "keeps_step M lk ir (constopt_zi_table z ir info) 4 cycle rv"
proof (cases "z = rv_insn_fencei")
  case True
  with assms show ?thesis by (simp add: impl_def do_fencei_def RVOP_def keeps_keep)
next
  case False
  then have "constopt_zi_table z = forget_rd" by (cases z) (simp_all)
  moreover have "moves 4 {i_rd ir} rv (i_pc ir) (impl M lk ir cycle (i_pc ir) rv)"
    using assms moves_mono[OF moves_zi[of ir rv "i_pc ir" z lk cycle], of "{i_rd ir}"] by (auto simp: impl_def)
  ultimately show ?thesis using assms(1) by (simp add: keeps_forget_rd)
qed

lemma keeps_priv:
  assumes "agrees info rv" "i_opcode ir = Priv p" "\<not> i_mailbox ir"
  shows "keeps_step M lk ir (constopt_priv_table p ir info) 4 cycle rv"
proof -
  have "constopt_priv_table p = keep" by (cases p) (simp_all)
  with assms moves_priv[of rv "i_pc ir" p] show ?thesis by (simp add: keeps_keep impl_def)
qed

lemma moves_load:
  "b \<in> {rv_insn_lb, rv_insn_lh, rv_insn_lw, rv_insn_lbu, rv_insn_lhu}
     \<Longrightarrow> moves 4 {i_rd ir} rv pc (do_base io b lk ir cycle pc rv)"
  using X_io_read[of io "x1 ir rv + i_imm ir" rv]
  by (auto simp: base_ops Let_def intro!: moves_RVOP moves_misalign split: prod.splits)

lemma moves_none:
  "b \<in> {rv_insn_sb, rv_insn_sh, rv_insn_sw, rv_insn_fence, rv_insn_ecall, rv_insn_ebreak}
     \<Longrightarrow> moves 4 {} rv pc (do_base io b lk ir cycle pc rv)"
  by (auto simp: base_ops do_fence_def do_ecall_def do_ebreak_def Let_def intro!: moves_RVOP moves_misalign moves_store_w)

lemma keeps_base_fold:
  assumes "agrees info rv" "i_opcode ir = Base b" "\<not> i_mailbox ir" "i_rd ir \<noteq> 0"
    and "b \<in> {rv_insn_addi, rv_insn_slti, rv_insn_sltiu, rv_insn_xori, rv_insn_ori, rv_insn_andi, rv_insn_slli,
      rv_insn_srli, rv_insn_srai, rv_insn_add, rv_insn_sub, rv_insn_sll, rv_insn_slt, rv_insn_sltu, rv_insn_xor,
      rv_insn_srl, rv_insn_sra, rv_insn_or, rv_insn_and}"
  shows "keeps_step M lk ir (constopt_base_table b ir info) 4 cycle rv"
  using assms
  by (auto simp: constopt_base_defs impl_def base_ops RVOP_def set_rd_def shift_op_def shift_func_def
      and.commute or.commute xor.commute add.commute intro!: keeps_fold_imm keeps_fold_reg)

lemma keeps_base:
  assumes ag: "agrees info rv" and op: "i_opcode ir = Base b" "\<not> i_mailbox ir" "fold_ok ir" "\<not> cond_branch (Base b)"
  shows "keeps_step M lk ir (constopt_base_table b ir info) 4 cycle rv"
proof -
  consider (load) "b \<in> {rv_insn_lb, rv_insn_lh, rv_insn_lw, rv_insn_lbu, rv_insn_lhu}"
    | (none) "b \<in> {rv_insn_sb, rv_insn_sh, rv_insn_sw, rv_insn_fence, rv_insn_ecall, rv_insn_ebreak}"
    | (jump) "b \<in> {rv_insn_jal, rv_insn_jalr}" | (const) "b \<in> {rv_insn_nop, rv_insn_lui, rv_insn_auipc}"
    | (fold) "b \<in> {rv_insn_addi, rv_insn_slti, rv_insn_sltiu, rv_insn_xori, rv_insn_ori, rv_insn_andi, rv_insn_slli,
      rv_insn_srli, rv_insn_srai, rv_insn_add, rv_insn_sub, rv_insn_sll, rv_insn_slt, rv_insn_sltu, rv_insn_xor,
      rv_insn_srl, rv_insn_sra, rv_insn_or, rv_insn_and}"
    using op(4) by (cases b) (auto simp: cond_branch_def)
  then show ?thesis
  proof cases
    case load
    then have "constopt_base_table b = forget_rd" by (auto simp: constopt_base_defs)
    with moves_load[OF load, of ir rv "i_pc ir"] op ag show ?thesis by (simp add: keeps_forget_rd impl_def)
  next
    case none
    then have "constopt_base_table b = keep" by (auto simp: constopt_base_defs)
    with moves_none[OF none, of rv "i_pc ir"] op ag show ?thesis by (simp add: keeps_keep impl_def)
  next
    case jump
    with op show ?thesis
      by (auto simp: keeps_step_def constopt_base_defs impl_def do_jal_def do_jalr_def RVOP_def jump_taken_def Let_def
          split: option.splits)
  next
    case const
    with op ag show ?thesis
      by (auto simp: keeps_step_def fold_ok_def constopt_base_defs constopt_shapes impl_def base_ops do_nop_def RVOP_def
          set_rd_def agrees_def)
  next
    case fold
    then have "i_rd ir \<noteq> 0" using op by (auto simp: fold_ok_def)
    with fold ag op show ?thesis by (intro keeps_base_fold)
  qed
qed

lemma moves_c_load:
  "moves 0 {i_rd ir} rv pc (c_load io b base setX lk ir cycle pc rv)"
  "moves 0 {} rv pc (c_load io b base setF lk ir cycle pc rv)"
  "moves 0 {} rv pc (c_store io b base val lk ir cycle pc rv)"
  using X_io_read[of io "X rv (base ir) + i_imm ir" rv]
  by (auto simp: c_load_def c_store_def Let_def intro!: moves_misalign moves_store_w split: prod.splits)

lemma keeps_c:
  assumes ag: "agrees info rv" and op: "i_opcode ir = RvC c" "\<not> i_mailbox ir" "fold_ok ir" "\<not> cond_branch (RvC c)"
  shows "keeps_step M lk ir (constopt_c_table c ir info) 2 cycle rv"
proof -
  consider (none) "c \<in> {rv_insn_csw, rv_insn_cnop, rv_insn_cj, rv_insn_cjr, rv_insn_cebreak, rv_insn_cswsp, rv_insn_cflwsp,
      rv_insn_cfswsp, rv_insn_cflw, rv_insn_cfsw}"
    | (load) "c \<in> {rv_insn_clw, rv_insn_clwsp}" | (jump) "c \<in> {rv_insn_cjal, rv_insn_cjalr}"
    | (const) "c \<in> {rv_insn_cli, rv_insn_clui}"
    | (rs1) "c \<in> {rv_insn_csrli, rv_insn_csrai, rv_insn_candi}" | (rd) "c \<in> {rv_insn_caddi, rv_insn_caddi16sp, rv_insn_cslli}"
    | (reg) "c \<in> {rv_insn_csub, rv_insn_cxor, rv_insn_cor, rv_insn_cand, rv_insn_cadd}"
    | (sp) "c \<in> {rv_insn_caddi4spn, rv_insn_cmv}"
    using op(4) by (cases c) (auto simp: cond_branch_def)
  then show ?thesis
  proof cases
    case none
    then have "constopt_c_table c = keep" by (auto simp: constopt_c_defs)
    moreover have "moves 2 {} rv (i_pc ir) (do_c (m_io M) c lk ir cycle (i_pc ir) rv)"
      using none by (auto simp: c_ops jump_taken_def intro!: moves_RVOP moves_c_load split: option.splits)
    ultimately show ?thesis using op ag by (simp add: keeps_keep impl_def)
  next
    case load
    then have "constopt_c_table c = forget_rd" by (auto simp: constopt_c_defs)
    moreover have "moves 2 {i_rd ir} rv (i_pc ir) (do_c (m_io M) c lk ir cycle (i_pc ir) rv)"
      using load by (auto simp: c_ops intro!: moves_RVOP moves_c_load)
    ultimately show ?thesis using op ag by (simp add: keeps_forget_rd impl_def)
  next
    case jump
    with op show ?thesis
      by (auto simp: keeps_step_def constopt_c_defs impl_def c_ops RVOP_def jump_taken_def Let_def split: option.splits)
  next
    case const
    with op ag show ?thesis
      by (auto simp: keeps_step_def fold_ok_def constopt_c_defs constopt_shapes impl_def c_ops RVOP_def set_rd_def agrees_def)
  next
    case rs1
    then have "i_rs1 ir \<noteq> 0" using op by (auto simp: fold_ok_def)
    with rs1 ag op show ?thesis by (auto simp: constopt_c_defs impl_def c_ops intro!: keeps_fold_rs1)
  next
    case rd
    then have "i_rd ir \<noteq> 0" using op by (auto simp: fold_ok_def)
    with rd ag op show ?thesis by (auto simp: constopt_c_defs impl_def c_ops intro!: keeps_fold_rd)
  next
    case reg
    then have "i_rd ir \<noteq> 0" using op by (auto simp: fold_ok_def)
    with reg ag op show ?thesis by (auto simp: constopt_c_defs impl_def c_ops intro!: keeps_fold_reg)
  next
    case sp
    then have rd: "i_rd ir \<noteq> 0" using op by (auto simp: fold_ok_def)
    have f: "keeps_step M lk ir (ir, unknown (i_rd ir) info) 2 cycle rv"
      using keeps_forget_rd[OF ag, of 2 ir M lk cycle] sp op
      by (auto simp: forget_rd_def impl_def c_ops moves_RVOP moves_set_rd)
    from sp rd f ag op show ?thesis
      by (auto simp: constopt_c_defs impl_def c_ops RVOP_def set_rd_def x2_def agrees_X intro!: keeps_to_const)
  qed
qed

lemma keeps_ttinsn:
  assumes "agrees info rv" "i_opcode ir = rv_insn_ttinsn" "\<not> i_mailbox ir"
  shows "keeps_step M lk ir (keep ir info) 4 cycle rv"
  using assms
  by (auto simp: impl_def do_ttinsn_def Let_def intro!: keeps_keep split: option.splits bool.splits)

lemma keeps_table:
  assumes ag: "agrees info rv" and ok: "fold_ok ir" "\<not> cond_branch (i_opcode ir)"
  shows "keeps_step M lk ir (constopt_table (i_opcode ir) ir info) (insn_len (i_opcode ir)) cycle rv"
proof (cases "i_mailbox ir")
  case True
  with ok have "i_opcode ir = Base rv_insn_lw" by (simp add: fold_ok_def)
  with True keeps_forget_rd[OF ag, of 4 ir M lk cycle] show ?thesis
    by (simp add: constopt_base_defs insn_len_def impl_def do_lw_mailbox_def Let_def split: prod.splits)
next
  case False
  with ag ok show ?thesis
    by (cases "i_opcode ir") (auto simp: insn_len_def fold_ok_def intro: keeps_m keeps_zb keeps_a keeps_f keeps_zi keeps_priv
      keeps_base keeps_c keeps_ttinsn)
qed

section \<open>Branches on constants\<close>

text \<open>A branch and the jump that replaces it leave the block at the same address in the same state, up to
  the two fields that steer block chaining.\<close>

definition no_chain :: "'e riscv \<Rightarrow> 'e riscv" where
  "no_chain rv = rv\<lparr>is_branch_taken := False, last_pc := 0\<rparr>"

definition same_landing :: "'e outcome \<Rightarrow> 'e outcome \<Rightarrow> bool" where
  "same_landing r s \<longleftrightarrow> r = s \<or> (\<exists>rv rv' c pc. lands False r = Some (rv, c, pc) \<and> lands False s = Some (rv', c, pc)
     \<and> no_chain rv = no_chain rv')"

lemma no_chain_upd [simp]:
  "no_chain (rv\<lparr>is_branch_taken := b\<rparr>) = no_chain rv"
  "no_chain (rv\<lparr>last_pc := p\<rparr>) = no_chain rv"
  by (simp_all add: no_chain_def)

lemma lands_jump_taken: "\<exists>rv'. lands False (jump_taken lk c pc rv) = Some (rv', c, pc) \<and> no_chain rv' = no_chain rv"
  by (cases "branch_taken lk") (simp_all add: jump_taken_def)

lemma lands_branch:
  "\<exists>rv'. lands False (RVOP 4 (branch_func cond) lk ir c pc rv)
       = Some (rv', c + 1, pc + (if cond (x1 ir rv) (x2 ir rv) then 4 else i_imm ir)) \<and> no_chain rv' = no_chain rv"
  by (cases "branch_untaken lk") (simp_all add: RVOP_def branch_func_def)

lemma lands_c_branch:
  "\<exists>rv'. lands False (RVOP 2 (c_branch cond) lk ir c pc rv)
       = Some (rv', c + 1, pc + (if cond (x1 ir rv) then 2 else i_imm ir)) \<and> no_chain rv' = no_chain rv"
  by (cases "branch_untaken lk"; cases "branch_taken lk") (simp_all add: RVOP_def c_branch_def jump_taken_def)

lemma same_opt_branch:
  assumes ag: "agrees info rv" and ir: "i_rd ir = 0" "\<not> i_mailbox ir"
    and i: "dispatch_table M (i_opcode ir) = RVOP 4 (branch_func cond)"
  shows "same_landing (impl M lk (fst (opt_branch_func cond ir info)) cycle pc rv) (impl M lk ir cycle pc rv)"
proof (cases "is_constant info (i_rs1 ir) \<and> is_constant info (i_rs2 ir)")
  case True
  let ?ir = "fst (opt_branch_func cond ir info)"
  have ir': "i_opcode ?ir = Base rv_insn_jal" "\<not> i_mailbox ?ir" "i_rd ?ir = 0"
    "i_imm ?ir = (if cond (x1 ir rv) (x2 ir rv) then 4 else i_imm ir)"
    using True ag ir by (auto simp: opt_branch_func_def x1_def x2_def agrees_X Let_def)
  have "\<exists>rv'. lands False (impl M lk ?ir cycle pc rv) = Some (rv', cycle + 1, pc + i_imm ?ir) \<and> no_chain rv' = no_chain rv"
    using lands_jump_taken[of lk "cycle + 1" "pc + i_imm ?ir" rv] ir'(1-3)
    by (simp add: impl_def do_jal_def RVOP_def setX_nz_def jump_taken_def split: option.splits)
  moreover have "\<exists>rv'. lands False (impl M lk ir cycle pc rv) = Some (rv', cycle + 1, pc + i_imm ?ir)
      \<and> no_chain rv' = no_chain rv"
    using lands_branch[of cond lk ir cycle pc rv] by (simp add: impl_def i ir ir'(4))
  ultimately show ?thesis unfolding same_landing_def by metis
next
  case False
  then have "fst (opt_branch_func cond ir info) = ir" by (auto simp: opt_branch_func_def)
  then show ?thesis by (simp add: same_landing_def)
qed

lemma same_opt_c_branch:
  assumes ag: "agrees info rv" and ir: "\<not> i_mailbox ir" "i_opcode ir = RvC c" "c = rv_insn_cbeqz \<or> c = rv_insn_cbnez"
  shows "same_landing (impl M lk (fst (constopt_c_table c ir info)) cycle pc rv) (impl M lk ir cycle pc rv)"
proof (cases "is_constant info (i_rs1 ir)")
  case True
  let ?ir = "fst (constopt_c_table c ir info)"
  let ?imm = "if (c = rv_insn_cbeqz) = (x1 ir rv \<noteq> 0) then 2 else i_imm ir"
  have ir': "i_opcode ?ir = RvC rv_insn_cj" "\<not> i_mailbox ?ir" "i_imm ?ir = ?imm"
    using True ag ir by (auto simp: constopt_c_defs x1_def agrees_X Let_def)
  have "\<exists>rv'. lands False (impl M lk ?ir cycle pc rv) = Some (rv', cycle + 1, pc + ?imm) \<and> no_chain rv' = no_chain rv"
    using lands_jump_taken[of lk "cycle + 1" "pc + i_imm ?ir" rv] ir'(1,2) unfolding ir'(3)[symmetric]
    by (simp add: impl_def do_cj_def RVOP_def jump_taken_def split: option.splits)
  moreover have "\<exists>rv'. lands False (impl M lk ir cycle pc rv) = Some (rv', cycle + 1, pc + ?imm)
      \<and> no_chain rv' = no_chain rv"
    using lands_c_branch[of "\<lambda>x. (c = rv_insn_cbeqz) = (x \<noteq> 0)" lk ir cycle pc rv] ir
    by (auto simp: impl_def do_cbeqz_def do_cbnez_def)
  ultimately show ?thesis unfolding same_landing_def by metis
next
  case False
  then have "fst (constopt_c_table c ir info) = ir" using ir by (auto simp: constopt_c_defs)
  then show ?thesis by (simp add: same_landing_def)
qed

lemma same_table:
  assumes ag: "agrees info rv" and ok: "fold_ok ir"
  shows "same_landing (impl M lk (fst (constopt_table (i_opcode ir) ir info)) cycle (i_pc ir) rv) (impl M lk ir cycle (i_pc ir) rv)"
proof (cases "cond_branch (i_opcode ir)")
  case False
  from keeps_table[OF ag ok False] show ?thesis by (auto simp: keeps_step_def same_landing_def)
next
  case True
  with ok have mb: "\<not> i_mailbox ir" by (auto simp: cond_branch_def fold_ok_def)
  show ?thesis
  proof (cases "\<exists>c. i_opcode ir = RvC c")
    case True
    with \<open>cond_branch (i_opcode ir)\<close> same_opt_c_branch[OF ag mb] show ?thesis by (auto simp: cond_branch_def)
  next
    case False
    with True ok have "i_rd ir = 0" by (auto simp: cond_branch_def fold_ok_def)
    from same_opt_branch[OF ag this mb] True False show ?thesis
      by (auto simp: cond_branch_def constopt_base_defs do_beq_def do_bne_def do_blt_def do_bge_def do_bltu_def do_bgeu_def)
  qed
qed

section \<open>Blocks\<close>

text \<open>The nodes stand one behind the other from \<^term>\<open>pc\<close> on, and only the last may be a conditional branch.\<close>

fun placed :: "u32 \<Rightarrow> rv_insn list \<Rightarrow> bool" where
  "placed pc [] = True"
| "placed pc (ir # irs) = (i_pc ir = pc \<and> placed (pc + insn_len (i_opcode ir)) irs)"

fun branch_last :: "rv_insn list \<Rightarrow> bool" where
  "branch_last [] = True"
| "branch_last (ir # irs) = ((irs = [] \<or> \<not> cond_branch (i_opcode ir)) \<and> branch_last irs)"

lemma opt_nodes_Nil [simp]: "opt_nodes irs info = [] \<longleftrightarrow> irs = []"
  by (cases irs) (simp_all split: prod.splits)

lemma lands_exec_single: "same_landing (exec_nodes M lk [ir] c pc rv) (impl M lk ir c pc rv)"
  by (cases "impl M lk ir c pc rv") (simp_all add: same_landing_def)

lemma same_landing_trans: "same_landing r s \<Longrightarrow> same_landing s t \<Longrightarrow> same_landing r t"
  by (auto simp: same_landing_def)

lemma same_landing_sym: "same_landing r s \<Longrightarrow> same_landing s r"
  unfolding same_landing_def by metis

lemma opt_nodes_same:
  assumes "agrees info rv" "list_all fold_ok irs" "placed pc irs" "branch_last irs"
  shows "same_landing (exec_nodes M lk (opt_nodes irs info) c pc rv) (exec_nodes M lk irs c pc rv)"
  using assms
proof (induction irs arbitrary: info pc rv c)
  case Nil
  show ?case by (simp add: same_landing_def)
next
  case (Cons ir irs)
  obtain ir' info' where co: "constopt_table (i_opcode ir) ir info = (ir', info')" by fastforce
  show ?case
  proof (cases "irs = []")
    case True
    have "same_landing (impl M lk ir' c pc rv) (impl M lk ir c pc rv)"
      using same_table[of info rv ir M lk c] Cons.prems co by simp
    with True co show ?thesis
      using lands_exec_single same_landing_trans same_landing_sym by (metis opt_nodes.simps old.prod.case)
  next
    case False
    with Cons.prems have "\<not> cond_branch (i_opcode ir)" by simp
    with Cons.prems keeps_table[of info rv ir M no_links c] co
    have k: "impl M no_links ir' c pc rv = impl M no_links ir c pc rv"
      "\<And>rv' c' pc'. impl M no_links ir c pc rv = Nextop rv' c' pc' \<Longrightarrow> pc' = pc + insn_len (i_opcode ir) \<and> agrees info' rv'"
      by (auto simp: keeps_step_def)
    show ?thesis
    proof (cases "impl M no_links ir c pc rv")
      case (Nextop rv' c' pc')
      with Cons.IH[of info' rv' pc' c'] Cons.prems k co False show ?thesis by simp
    qed (use k co False in \<open>simp_all add: same_landing_def\<close>)
  qed
qed

section \<open>What the decoder guarantees\<close>

text \<open>Where compressed instructions are not decoded, every decoded node but SC.W is one the pass is sound for.\<close>

definition decoded_ok :: "rv_insn \<Rightarrow> bool" where
  "decoded_ok ir \<longleftrightarrow> fold_ok ir \<or> i_opcode ir = RvA rv_insn_scw"

lemmas decode_ok_unfold = formats Let_def decoded_ok_def fold_ok_def zero_insn_def only_if_def op_arms_def
  op_imm_slli_def op_imm_srli_def

lemma op_op_ok: "leaves decoded_ok (op_op f insn zero_insn)"
  by (simp add: op_op_def leaves_switch decode_ok_unfold)

lemma op_op_imm_ok: "leaves decoded_ok (op_op_imm f insn zero_insn)"
  by (simp add: op_op_imm_def leaves_switch decode_ok_unfold)

lemma op_system_ok: "leaves decoded_ok (op_system f insn zero_insn)"
  by (auto simp: op_system_def decode_ok_unfold split: option.splits if_splits dest!: map_of_SomeD)

lemma other_ops_ok:
  "d \<in> {op_load, op_load_fp, op_misc_mem, op_auipc, op_store, op_store_fp, op_amo, op_lui, op_madd, op_msub, op_nmsub,
     op_nmadd, op_op_fp, op_branch, op_jalr, op_jal, op_unimp}
   \<Longrightarrow> leaves decoded_ok (d f insn zero_insn)"
  by (elim insertE emptyE) (simp_all add: decoders_32 leaves_switch decode_ok_unfold)

lemma decoders_ok: "d \<in> set (rv_jump_table f) \<Longrightarrow> leaves decoded_ok (d f insn zero_insn)"
  using other_ops_ok[of d f insn] op_op_ok[of f insn] op_op_imm_ok[of f insn] op_system_ok[of f insn]
  by (auto simp: rv_jump_table_def if_built_def split: if_splits)

lemma decode_fold_ok:
  assumes "EXT_TT f \<or> \<not> EXT_C f" "rv_decode f insn zero_insn = Some (ret, ir)"
  shows "decoded_ok ir"
proof -
  have "leaves decoded_ok (rv_decode f insn zero_insn)"
    by (cases rule: rv_decode_cases[of f insn zero_insn])
      (use assms(1) decoders_ok[of _ f insn] in
        \<open>auto simp: decoded_ok_def fold_ok_def zero_insn_def is_compressed_def\<close>)
  with assms(2) show ?thesis by simp
qed

section \<open>The pass is sound\<close>

text \<open>C6: constant folding preserves execution.  Take the nodes of a block, placed one behind the other from
  \<^term>\<open>pc\<close>, at most the last a conditional branch, of the form the decoder produces (no SC.W).  The pass
  succeeds if \<^verbatim>\<open>x0\<close> is 0 when the block is translated; and in every state of every machine in which \<^verbatim>\<open>x0\<close>
  is 0, the rewritten nodes end as the original ones do: with the same trap or return, or at the same
  program counter with the same cycle count and the same state, up to the two fields \<^verbatim>\<open>is_branch_taken\<close>
  and \<^verbatim>\<open>last_pc\<close> that only steer block chaining.\<close>

theorem optimize_constant_sound:
  assumes "X rv0 0 = 0" "X rv 0 = 0" "list_all fold_ok nodes" "placed pc nodes" "branch_last nodes"
  shows "\<exists>nodes'. optimize_constant rv0 nodes = Some nodes'
    \<and> same_landing (exec_nodes M lk nodes' cycle pc rv) (exec_nodes M lk nodes cycle pc rv)"
  using opt_nodes_same[OF agrees_start[OF assms(2)] assms(3-5), of M lk cycle] assms(1)
  by (simp add: optimize_constant_def)

text \<open>\<^verbatim>\<open>addi x5, x0, 7; slli x6, x5, 2; bne x5, x6, 16\<close> becomes two constant loads and a jump.\<close>

definition fold_demo :: "rv_insn list" where
  "fold_demo =
     [zero_insn\<lparr>i_opcode := Base rv_insn_addi, i_rd := 5, i_imm := 7, i_pc := 0x100\<rparr>,
      zero_insn\<lparr>i_opcode := Base rv_insn_slli, i_rd := 6, i_rs1 := 5, i_imm := 2, i_pc := 0x104\<rparr>,
      zero_insn\<lparr>i_opcode := Base rv_insn_bne, i_rs1 := 5, i_rs2 := 6, i_imm := 16, i_pc := 0x108\<rparr>]"

lemma fold_demo_opt:
  "map (\<lambda>ir. (i_opcode ir, i_rd ir, i_imm ir)) (opt_nodes fold_demo start_info)
     = [(Base rv_insn_lui, 5, 7), (Base rv_insn_lui, 6, 28), (Base rv_insn_jal, 0, 16)]"
  by (simp add: fold_demo_def start_info_def zero_insn_def constopt_base_defs constopt_shapes)

theorem optimize_constant_sound_witness:
  "\<exists>nodes'. optimize_constant (zero_riscv ()) fold_demo = Some nodes' \<and> i_opcode (nodes' ! 2) = Base rv_insn_jal
     \<and> same_landing (exec_nodes unit_ops no_links nodes' 0 0x100 (zero_riscv ()))
         (exec_nodes unit_ops no_links fold_demo 0 0x100 (zero_riscv ()))"
proof -
  have x0: "X (zero_riscv ()) 0 = 0" by (simp add: zero_riscv_def)
  have "list_all fold_ok fold_demo" "placed 0x100 fold_demo" "branch_last fold_demo"
    by (simp_all add: fold_demo_def zero_insn_def fold_ok_def insn_len_def cond_branch_def)
  note sound = optimize_constant_sound[OF x0 x0 this, of unit_ops no_links 0]
  have "i_opcode (opt_nodes fold_demo start_info ! 2) = Base rv_insn_jal"
    by (simp add: fold_demo_def start_info_def zero_insn_def constopt_base_defs constopt_shapes)
  with sound x0 show ?thesis by (simp add: optimize_constant_def)
qed

text \<open>SC.W always writes 0 to its destination, but the pass keeps believing in the constant that was there:
  after \<^verbatim>\<open>addi x5, x0, 5; sc.w x5, x8, (x7)\<close> the copy \<^verbatim>\<open>addi x6, x5, 0\<close> is folded to 5.\<close>

lemma constopt_scw_stale:
  "map (\<lambda>ir. (i_opcode ir, i_rd ir, i_imm ir))
     (opt_nodes [zero_insn\<lparr>i_opcode := Base rv_insn_addi, i_rd := 5, i_imm := 5\<rparr>,
                 zero_insn\<lparr>i_opcode := RvA rv_insn_scw, i_rd := 5, i_rs1 := 7, i_rs2 := 8\<rparr>,
                 zero_insn\<lparr>i_opcode := Base rv_insn_addi, i_rd := 6, i_rs1 := 5\<rparr>] start_info)
     = [(Base rv_insn_lui, 5, 5), (RvA rv_insn_scw, 5, 0), (Base rv_insn_lui, 6, 5)]"
  by (simp add: start_info_def zero_insn_def constopt_base_defs constopt_shapes)

end
