(* ===== verification/Fusion.thy ===== *)
theory Fusion
  imports Rv_Dispatch
begin

text \<open>
  Macro-operation fusion: \<^verbatim>\<open>match_pattern\<close> and \<^verbatim>\<open>remove_next_nth_ir\<close> of \<^verbatim>\<open>emulate.c\<close>.  A run of LUI, of word
  loads, of word stores or of immediate shifts becomes one node, and so does LUI followed by an ADD of its
  result.  The nodes of a block are a list; removing the nodes after the current one is dropping them.
  The pass allocates an operand array per run.  A node is visited once, and the number of nodes behind it differs from
  visit to visit, so \<^term>\<open>malloc n\<close> tells whether the allocation for the node with \<^term>\<open>n\<close> nodes behind it succeeds; each may
  succeed or fail by itself.
\<close>

section \<open>The pass\<close>


text \<open>The first five fields of a node, which \<^verbatim>\<open>memcpy\<close> copies.\<close>

definition fuse_entry :: "rv_insn \<Rightarrow> opcode_fuse_t" where
  "fuse_entry ir = \<lparr>f_imm = i_imm ir, f_rd = i_rd ir, f_rs1 = i_rs1 ir, f_rs2 = i_rs2 ir, f_opcode = i_opcode ir\<rparr>"

text \<open>The count of nodes to remove is passed as a \<^verbatim>\<open>uint8_t\<close>.\<close>

definition remove_next_nth_ir :: "u8 \<Rightarrow> rv_insn list \<Rightarrow> rv_insn list" where
  "remove_next_nth_ir n rest = drop (unat n) rest"

definition run_length :: "(rv_opcode \<Rightarrow> bool) \<Rightarrow> rv_insn list \<Rightarrow> nat" where
  "run_length P rest = Suc (length (takeWhile (P \<circ> i_opcode) rest))"

text \<open>Fuse the run that starts at the node.  The opcode is set before the node is copied to the array,
  except for shifts, where the array has to record the operation.\<close>

definition fuse_run ::
  "(nat \<Rightarrow> bool) \<Rightarrow> rv_fuse \<Rightarrow> (rv_opcode \<Rightarrow> bool) \<Rightarrow> rv_insn \<Rightarrow> rv_insn list \<Rightarrow> rv_insn \<times> rv_insn list" where
  "fuse_run malloc op P ir rest =
     (let count = run_length P rest in
      if count > 1 \<and> malloc (length rest) then
        let first = (if op = rv_insn_fuse5 then ir else ir\<lparr>i_opcode := Fused op\<rparr>) in
        (ir\<lparr>i_opcode := Fused op, i_imm2 := of_nat count, i_mailbox := False,
            i_fuse := map fuse_entry (first # take (count - 1) rest)\<rparr>,
         remove_next_nth_ir (of_nat (count - 1)) rest)
      else (ir, rest))"

definition is_shift :: "rv_opcode \<Rightarrow> bool" where
  "is_shift op \<longleftrightarrow> op = Base rv_insn_slli \<or> op = Base rv_insn_srli \<or> op = Base rv_insn_srai"

definition fuse_lui_add :: "rv_insn \<Rightarrow> rv_insn \<Rightarrow> rv_insn" where
  "fuse_lui_add ir next =
     (let ir = ir\<lparr>i_opcode := Fused rv_insn_fuse2, i_rs2 := i_rd next, i_mailbox := False\<rparr> in
      if i_rd ir = i_rs2 next then ir\<lparr>i_rs1 := i_rs1 next\<rparr> else ir\<lparr>i_rs1 := i_rs2 next\<rparr>)"

text \<open>The cases of the switch for a node that is not the last one.\<close>

definition fuse_node :: "(nat \<Rightarrow> bool) \<Rightarrow> rv_insn \<Rightarrow> rv_insn \<Rightarrow> rv_insn list \<Rightarrow> rv_insn \<times> rv_insn list" where
  "fuse_node malloc ir next rest =
     (if i_opcode ir = Base rv_insn_lui then
        (if i_opcode next = Base rv_insn_add then
           (if i_rd ir = i_rs2 next \<or> i_rd ir = i_rs1 next
            then (fuse_lui_add ir next, remove_next_nth_ir 1 (next # rest)) else (ir, next # rest))
         else if i_opcode next = Base rv_insn_lui
         then fuse_run malloc rv_insn_fuse1 (\<lambda>op. op = Base rv_insn_lui) ir (next # rest)
         else (ir, next # rest))
      else if i_opcode ir = Base rv_insn_sw
      then fuse_run malloc rv_insn_fuse3 (\<lambda>op. op = Base rv_insn_sw) ir (next # rest)
      else if i_opcode ir = Base rv_insn_lw
      then fuse_run malloc rv_insn_fuse4 (\<lambda>op. op = Base rv_insn_lw) ir (next # rest)
      else if is_shift (i_opcode ir)
      then fuse_run malloc rv_insn_fuse5 is_shift ir (next # rest)
      else (ir, next # rest))"

lemma fuse_run_shorter: "fuse_run malloc op P ir rest = (ir', rest') \<Longrightarrow> length rest' \<le> length rest"
  by (auto simp: fuse_run_def remove_next_nth_ir_def Let_def split: if_splits)

lemma fuse_node_shorter: "fuse_node malloc ir next rest = (ir', rest') \<Longrightarrow> length rest' \<le> Suc (length rest)"
  by (auto simp: fuse_node_def remove_next_nth_ir_def split: if_splits dest!: fuse_run_shorter)

function match_pattern :: "(nat \<Rightarrow> bool) \<Rightarrow> rv_insn list \<Rightarrow> rv_insn list" where
  "match_pattern malloc [] = []"
| "match_pattern malloc [ir] = [ir]"
| "match_pattern malloc (ir # next # rest) =
     (case fuse_node malloc ir next rest of (ir', rest') \<Rightarrow> ir' # match_pattern malloc rest')"
  by pat_completeness auto
termination
  by (relation "measure (length \<circ> snd)") (auto dest!: fuse_node_shorter[OF sym])

section \<open>Runs\<close>

text \<open>Two outcomes that are equal, or both leave through a trap handler.  A fused load or store that is
  misaligned traps with the address and the cycle count of the fused node, not its own.\<close>

definition same_or_trap :: "'e outcome \<Rightarrow> 'e outcome \<Rightarrow> bool" where
  "same_or_trap r s \<longleftrightarrow> r = s \<or> (\<exists>rv rv'. r = Return False rv \<and> s = Return False rv')"

lemma same_or_trap_simps [simp]:
  "same_or_trap r r"
  "same_or_trap (Return False rv) (Return False rv')"
  by (simp_all add: same_or_trap_def)

definition plain_node :: "(rv_opcode \<Rightarrow> bool) \<Rightarrow> rv_insn \<Rightarrow> bool" where
  "plain_node P ir \<longleftrightarrow> P (i_opcode ir) \<and> \<not> i_mailbox ir"

definition after_loop ::
  "'e machine_ops \<Rightarrow> links \<Rightarrow> rv_insn list \<Rightarrow> u64 \<Rightarrow> u32 \<Rightarrow> 'e outcome \<Rightarrow> 'e outcome" where
  "after_loop M lk rest c pc r = (case r of Nextop rv _ _ \<Rightarrow> exec_nodes M lk rest c pc rv | r \<Rightarrow> r)"

lemma lui_run:
  assumes "list_all (plain_node (\<lambda>op. op = Base rv_insn_lui)) irs"
  shows "exec_nodes M lk (irs @ rest) c pc rv
    = exec_nodes M lk rest (c + of_nat (length irs)) (pc + 4 * of_nat (length irs))
        (fold (\<lambda>f. setX (f_rd f) (f_imm f)) (map fuse_entry irs) rv)"
  using assms
proof (induction irs arbitrary: c pc rv)
  case (Cons ir irs)
  then show ?case
    by (simp add: plain_node_def impl_def do_lui_def RVOP_def set_rd_def fuse_entry_def add_ac)
qed simp

lemma shift_run:
  assumes "list_all (plain_node is_shift) irs"
  shows "\<exists>rv'. fuse5_loop (map fuse_entry irs) rv = Some rv'
    \<and> exec_nodes M lk (irs @ rest) c pc rv
      = exec_nodes M lk rest (c + of_nat (length irs)) (pc + 4 * of_nat (length irs)) rv'"
  using assms
proof (induction irs arbitrary: c pc rv)
  case (Cons ir irs)
  then have "is_shift (i_opcode ir)" "\<not> i_mailbox ir" by (simp_all add: plain_node_def)
  then obtain v where "shift_func (i_opcode ir) (x1 ir rv) (i_imm ir) = Some v"
    and "\<And>lk. impl M lk ir c pc rv = Nextop (setX (i_rd ir) v rv) (c + 1) (pc + 4)"
    by (auto simp: is_shift_def shift_func_def Let_def impl_def do_slli_def do_srli_def do_srai_def RVOP_def shift_op_def)
  with Cons.IH[of "setX (i_rd ir) v rv" "c + 1" "pc + 4"] Cons.prems show ?case
    by (simp add: fuse_entry_def x1_def add_ac)
qed simp

lemma store_run:
  assumes "list_all (plain_node (\<lambda>op. op = Base rv_insn_sw)) irs"
  shows "same_or_trap
    (after_loop M lk rest (c + of_nat (length irs)) (pc + 4 * of_nat (length irs))
       (fuse3_loop (m_io M) (map fuse_entry irs) c' pc' rv))
    (exec_nodes M lk (irs @ rest) c pc rv)"
  using assms
proof (induction irs arbitrary: c pc rv)
  case (Cons ir irs)
  then have i: "impl M l ir c pc rv = do_sw (m_io M) l ir c pc rv" for l by (simp add: plain_node_def impl_def)
  let ?addr = "x1 ir rv + i_imm ir"
  show ?case
  proof (cases "\<not> allow_misalign rv \<and> ?addr AND 3 \<noteq> 0")
    case True
    then show ?thesis
      by (simp add: i do_sw_def RVOP_def fuse_entry_def exc_misalign_def after_loop_def x1_def Let_def)
  next
    case False
    show ?thesis
    proof (cases "io_write_w (m_io M) ?addr (x2 ir rv) rv")
      case None
      with False show ?thesis
        by (auto simp: i do_sw_def RVOP_def fuse_entry_def exc_misalign_def after_loop_def x1_def x2_def store_w_def Let_def)
    next
      case (Some rv')
      with False Cons.IH[of "c + 1" "pc + 4" rv'] Cons.prems show ?thesis
        by (auto simp: i do_sw_def RVOP_def fuse_entry_def exc_misalign_def x1_def x2_def store_w_def Let_def add_ac)
    qed
  qed
qed (simp add: after_loop_def)

lemma load_run:
  assumes "list_all (plain_node (\<lambda>op. op = Base rv_insn_lw)) irs"
  shows "same_or_trap
    (after_loop M lk rest (c + of_nat (length irs)) (pc + 4 * of_nat (length irs))
       (fuse4_loop (m_io M) (map fuse_entry irs) c' pc' rv))
    (exec_nodes M lk (irs @ rest) c pc rv)"
  using assms
proof (induction irs arbitrary: c pc rv)
  case (Cons ir irs)
  then have i: "impl M l ir c pc rv = do_lw (m_io M) l ir c pc rv" for l by (simp add: plain_node_def impl_def)
  let ?addr = "x1 ir rv + i_imm ir"
  obtain v rv' where r: "io_read_w (m_io M) ?addr rv = (v, rv')" by fastforce
  show ?case
  proof (cases "\<not> allow_misalign rv \<and> ?addr AND 3 \<noteq> 0")
    case True
    then show ?thesis
      by (simp add: i do_lw_def RVOP_def fuse_entry_def exc_misalign_def after_loop_def x1_def Let_def)
  next
    case False
    with r Cons.IH[of "c + 1" "pc + 4" "setX (i_rd ir) v rv'"] Cons.prems show ?thesis
      by (auto simp: i do_lw_def RVOP_def fuse_entry_def exc_misalign_def x1_def Let_def add_ac)
  qed
qed (simp add: after_loop_def)

section \<open>A fused node does what its run does\<close>

lemma unat_of_nat_small:
  "n \<le> 256 \<Longrightarrow> unat (of_nat n :: u32) = n"
  "n < 256 \<Longrightarrow> unat (of_nat n :: u8) = n"
  by (simp_all add: unat_of_nat)

lemma ucast_of_nat_small: "n \<le> 256 \<Longrightarrow> (ucast (of_nat n :: u32) :: u64) = of_nat n"
  by (simp add: unsigned_of_nat take_bit_nat_eq_self)

text \<open>The four kinds of run.\<close>

definition fuses :: "rv_fuse \<Rightarrow> (rv_opcode \<Rightarrow> bool) \<Rightarrow> bool" where
  "fuses op P \<longleftrightarrow> op = rv_insn_fuse1 \<and> P = (\<lambda>op. op = Base rv_insn_lui) \<or> op = rv_insn_fuse3 \<and> P = (\<lambda>op. op = Base rv_insn_sw)
     \<or> op = rv_insn_fuse4 \<and> P = (\<lambda>op. op = Base rv_insn_lw) \<or> op = rv_insn_fuse5 \<and> P = is_shift"

lemma fuse_loops_first [simp]:
  "fuse3_loop io (fuse_entry (ir\<lparr>i_opcode := op\<rparr>) # fs) = fuse3_loop io (fuse_entry ir # fs)"
  "fuse4_loop io (fuse_entry (ir\<lparr>i_opcode := op\<rparr>) # fs) = fuse4_loop io (fuse_entry ir # fs)"
  "f_rd (fuse_entry (ir\<lparr>i_opcode := op\<rparr>)) = f_rd (fuse_entry ir)"
  "f_imm (fuse_entry (ir\<lparr>i_opcode := op\<rparr>)) = f_imm (fuse_entry ir)"
  by (intro ext, simp add: fuse_entry_def)+ (simp_all add: fuse_entry_def)

lemma exec_advance:
  "(case advance n (fuse3_loop io fs c pc rv) of Nextop rv c pc \<Rightarrow> exec_nodes M lk rest c pc rv | r \<Rightarrow> r)
    = after_loop M lk rest c (pc + n) (fuse3_loop io fs c pc rv)"
  "(case advance n (fuse4_loop io fs c pc rv) of Nextop rv c pc \<Rightarrow> exec_nodes M lk rest c pc rv | r \<Rightarrow> r)
    = after_loop M lk rest c (pc + n) (fuse4_loop io fs c pc rv)"
proof -
  have 3: "fuse3_loop io fs c pc rv = Nextop rv' c' pc' \<Longrightarrow> c' = c \<and> pc' = pc" for rv' c' pc'
    by (induction fs arbitrary: rv) (auto simp: exc_misalign_def Let_def split: if_splits option.splits)
  have 4: "fuse4_loop io fs c pc rv = Nextop rv' c' pc' \<Longrightarrow> c' = c \<and> pc' = pc" for rv' c' pc'
    by (induction fs arbitrary: rv) (auto simp: exc_misalign_def Let_def split: if_splits prod.splits)
  show "(case advance n (fuse3_loop io fs c pc rv) of Nextop rv c pc \<Rightarrow> exec_nodes M lk rest c pc rv | r \<Rightarrow> r)
    = after_loop M lk rest c (pc + n) (fuse3_loop io fs c pc rv)"
    using 3 by (cases "fuse3_loop io fs c pc rv") (simp_all add: advance_def after_loop_def)
  show "(case advance n (fuse4_loop io fs c pc rv) of Nextop rv c pc \<Rightarrow> exec_nodes M lk rest c pc rv | r \<Rightarrow> r)
    = after_loop M lk rest c (pc + n) (fuse4_loop io fs c pc rv)"
    using 4 by (cases "fuse4_loop io fs c pc rv") (simp_all add: advance_def after_loop_def)
qed

lemma fused_node_runs:
  assumes op: "fuses op P" and run: "list_all (plain_node P) (ir # run)" and n: "length run < 256"
    and ir': "ir' = ir\<lparr>i_opcode := Fused op, i_imm2 := of_nat (Suc (length run)), i_mailbox := False,
      i_fuse := map fuse_entry ((if op = rv_insn_fuse5 then ir else ir\<lparr>i_opcode := Fused op\<rparr>) # run)\<rparr>"
  shows "same_or_trap (exec_nodes M lk (ir' # rest) c pc rv) (exec_nodes M lk ((ir # run) @ rest) c pc rv)"
proof -
  let ?n = "length (ir # run)"
  let ?fs = "i_fuse ir'"
  have m: "\<not> i_mailbox ir'" "i_opcode ir' = Fused op" "i_imm2 ir' = of_nat ?n" "length ?fs = ?n" by (simp_all add: ir')
  have w: "with_fuse ir' body = body ?fs" for body :: "opcode_fuse_t list \<Rightarrow> 'a outcome"
    using n m(3,4) unat_of_nat_small(1)[of ?n] by (simp only: with_fuse_def) simp
  have u: "(ucast (of_nat ?n :: u32) :: u64) = of_nat ?n" using n by (intro ucast_of_nat_small) simp
  from op consider "op = rv_insn_fuse1" "P = (\<lambda>op. op = Base rv_insn_lui)" | "op = rv_insn_fuse3" "P = (\<lambda>op. op = Base rv_insn_sw)"
    | "op = rv_insn_fuse4" "P = (\<lambda>op. op = Base rv_insn_lw)" | "op = rv_insn_fuse5" "P = is_shift"
    by (auto simp: fuses_def)
  then show ?thesis
  proof cases
    case 1
    have "fold (\<lambda>f. setX (f_rd f) (f_imm f)) ?fs rv = fold (\<lambda>f. setX (f_rd f) (f_imm f)) (map fuse_entry (ir # run)) rv"
      by (simp add: ir' 1(1))
    then show ?thesis
      using lui_run[of "ir # run" M lk rest c pc rv] run 1 m u
      by (simp add: impl_def do_fuse1_def w mult.commute del: of_nat_Suc list.map)
  next
    case 2
    have "fuse3_loop (m_io M) ?fs = fuse3_loop (m_io M) (map fuse_entry (ir # run))" by (simp add: ir' 2(1))
    then show ?thesis
      using store_run[of "ir # run" M lk rest c pc "c + of_nat ?n" pc rv] run 2 m u
      by (simp add: impl_def do_fuse3_def w exec_advance mult.commute del: of_nat_Suc list.map fuse3_loop.simps)
  next
    case 3
    have "fuse4_loop (m_io M) ?fs = fuse4_loop (m_io M) (map fuse_entry (ir # run))" by (simp add: ir' 3(1))
    then show ?thesis
      using load_run[of "ir # run" M lk rest c pc "c + of_nat ?n" pc rv] run 3 m u
      by (simp add: impl_def do_fuse4_def w exec_advance mult.commute del: of_nat_Suc list.map fuse4_loop.simps)
  next
    case 4
    have "fuse5_loop ?fs rv = fuse5_loop (map fuse_entry (ir # run)) rv" by (simp add: ir' 4(1))
    then show ?thesis
      using shift_run[of "ir # run" rv M lk rest c pc] run 4 m u
      by (auto simp add: impl_def do_fuse5_def w mult.commute simp del: of_nat_Suc list.map fuse5_loop.simps)
  qed
qed

definition no_mailbox :: "rv_insn list \<Rightarrow> bool" where
  "no_mailbox irs \<longleftrightarrow> list_all (\<lambda>ir. \<not> i_mailbox ir) irs"

lemma fuse_run_same:
  assumes f: "fuse_run malloc op P ir rest = (ir', rest')" and op: "fuses op P" "P (i_opcode ir)"
    and mb: "no_mailbox (ir # rest)" and len: "length rest < 256"
  shows "same_or_trap (exec_nodes M lk (ir' # rest') c pc rv) (exec_nodes M lk (ir # rest) c pc rv)"
    and "length rest' < 256 \<and> no_mailbox rest'"
proof -
  define run where "run = takeWhile (P \<circ> i_opcode) rest"
  have split: "rest = run @ drop (length run) rest" "take (length run) rest = run"
    using takeWhile_dropWhile_id[of "P \<circ> i_opcode" rest] by (simp_all add: run_def dropWhile_eq_drop takeWhile_eq_take[symmetric])
  have n: "length run < 256" using len length_takeWhile_le[of "P \<circ> i_opcode" rest] by (simp add: run_def)
  have "list_all (plain_node P) run"
    using mb by (auto simp: list_all_iff plain_node_def no_mailbox_def run_def dest!: set_takeWhileD)
  then have all: "list_all (plain_node P) (ir # run)" using op mb by (simp add: plain_node_def no_mailbox_def)
  note fn = fused_node_runs[OF op(1) all n refl, of M lk "drop (length run) rest" c pc rv]
  show "same_or_trap (exec_nodes M lk (ir' # rest') c pc rv) (exec_nodes M lk (ir # rest) c pc rv)"
  proof (cases "run_length P rest > 1 \<and> malloc (length rest)")
    case True
    with f have "exec_nodes M lk (ir' # rest') c pc rv
      = exec_nodes M lk (ir\<lparr>i_opcode := Fused op, i_imm2 := of_nat (Suc (length run)), i_mailbox := False,
      i_fuse := map fuse_entry ((if op = rv_insn_fuse5 then ir else ir\<lparr>i_opcode := Fused op\<rparr>) # run)\<rparr> # drop (length run) rest) c pc rv"
      by (auto simp: fuse_run_def run_length_def run_def[symmetric] remove_next_nth_ir_def unat_of_nat_small(2)[OF n] split(2)
          simp del: exec_nodes.simps of_nat_Suc)
    moreover have "ir # rest = (ir # run) @ drop (length run) rest" using split(1) by simp
    ultimately show ?thesis using fn by simp
  qed (use f in \<open>auto simp: fuse_run_def Let_def\<close>)
  show "length rest' < 256 \<and> no_mailbox rest'"
    using f mb len fuse_run_shorter[OF f]
    by (auto simp: fuse_run_def remove_next_nth_ir_def no_mailbox_def list_all_iff Let_def split: if_splits dest: in_set_dropD)
qed

lemma fuse_lui_add_same:
  assumes "i_opcode ir = Base rv_insn_lui" "i_opcode next = Base rv_insn_add" "\<not> i_mailbox ir" "\<not> i_mailbox next"
    and "i_rd ir = i_rs2 next \<or> i_rd ir = i_rs1 next"
  shows "exec_nodes M lk (fuse_lui_add ir next # rest) c pc rv = exec_nodes M lk (ir # next # rest) c pc rv"
proof -
  let ?rv = "setX (i_rd ir) (i_imm ir) rv"
  have "impl M l (fuse_lui_add ir next) c pc rv
      = Nextop (setX (i_rd next) (X ?rv (i_rs1 next) + X ?rv (i_rs2 next)) ?rv) (c + 2) (pc + 8)" for l
    using assms by (auto simp: impl_def fuse_lui_add_def do_fuse2_def Let_def add.commute)
  moreover have "impl M l ir c pc rv = Nextop ?rv (c + 1) (pc + 4)" for l
    using assms by (simp add: impl_def do_lui_def RVOP_def set_rd_def)
  moreover have "impl M l next c' pc' rv' = Nextop (setX (i_rd next) (X rv' (i_rs1 next) + X rv' (i_rs2 next)) rv') (c' + 1) (pc' + 4)"
    for l c' pc' rv' using assms by (simp add: impl_def do_add_def RVOP_def set_rd_def x1_def x2_def)
  ultimately show ?thesis by (simp add: add.assoc)
qed

lemma fuse_node_same:
  assumes "fuse_node malloc ir next rest = (ir', rest')" "no_mailbox (ir # next # rest)" "length rest < 255"
  shows "same_or_trap (exec_nodes M lk (ir' # rest') c pc rv) (exec_nodes M lk (ir # next # rest) c pc rv)"
    and "length rest' < 256 \<and> no_mailbox rest'"
proof -
  consider (add) "i_opcode ir = Base rv_insn_lui" "i_opcode next = Base rv_insn_add" "i_rd ir = i_rs2 next \<or> i_rd ir = i_rs1 next"
      "ir' = fuse_lui_add ir next" "rest' = rest"
    | (same) "ir' = ir" "rest' = next # rest"
    | (run) op P where "fuses op P" "P (i_opcode ir)" "fuse_run malloc op P ir (next # rest) = (ir', rest')"
    using assms(1) by (auto simp: fuse_node_def fuses_def remove_next_nth_ir_def split: if_splits)
  then have "same_or_trap (exec_nodes M lk (ir' # rest') c pc rv) (exec_nodes M lk (ir # next # rest) c pc rv)
    \<and> length rest' < 256 \<and> no_mailbox rest'"
  proof cases
    case add
    with assms(2,3) show ?thesis by (simp add: fuse_lui_add_same no_mailbox_def del: exec_nodes.simps)
  next
    case same
    with assms(2,3) show ?thesis by (simp add: no_mailbox_def)
  next
    case run
    have "length (next # rest) < 256" using assms(3) by simp
    from fuse_run_same[OF run(3,1,2) assms(2) this] show ?thesis by blast
  qed
  then show "same_or_trap (exec_nodes M lk (ir' # rest') c pc rv) (exec_nodes M lk (ir # next # rest) c pc rv)"
    and "length rest' < 256 \<and> no_mailbox rest'" by auto
qed

lemma same_or_trap_trans: "same_or_trap r s \<Longrightarrow> same_or_trap s t \<Longrightarrow> same_or_trap r t"
  by (auto simp: same_or_trap_def)

lemma match_pattern_Nil [simp]: "match_pattern malloc irs = [] \<longleftrightarrow> irs = []"
  by (cases "(malloc, irs)" rule: match_pattern.cases) (auto split: prod.splits)

lemma exec_cons_cong:
  assumes "\<And>c pc rv. same_or_trap (exec_nodes M lk irs c pc rv) (exec_nodes M lk irs' c pc rv)" "irs = [] \<longleftrightarrow> irs' = []"
  shows "same_or_trap (exec_nodes M lk (ir # irs) c pc rv) (exec_nodes M lk (ir # irs') c pc rv)"
  using assms by (auto split: outcome.splits)

lemma match_pattern_same:
  assumes "no_mailbox irs" "length irs \<le> 256"
  shows "same_or_trap (exec_nodes M lk (match_pattern malloc irs) c pc rv) (exec_nodes M lk irs c pc rv)"
  using assms
proof (induction malloc irs arbitrary: c pc rv rule: match_pattern.induct)
  case (3 malloc ir "next" rest)
  obtain ir' rest' where f: "fuse_node malloc ir next rest = (ir', rest')" by fastforce
  note s = fuse_node_same[OF f 3(2)]
  have "same_or_trap (exec_nodes M lk (match_pattern malloc rest') c pc rv) (exec_nodes M lk rest' c pc rv)" for c pc rv
    using 3(1)[OF f[symmetric]] s(2) 3(3) by simp
  then have "same_or_trap (exec_nodes M lk (ir' # match_pattern malloc rest') c pc rv) (exec_nodes M lk (ir' # rest') c pc rv)"
    by (rule exec_cons_cong) simp
  with s(1)[of M lk c pc rv] 3(3) show ?case by (simp add: f same_or_trap_trans del: exec_nodes.simps)
qed simp_all

section \<open>The pass is sound\<close>

text \<open>C7: macro-operation fusion preserves execution.  A block of at most 256 nodes without a mailbox load,
  rewritten by the pass under any pattern of allocation failures, ends on every machine and in every state
  exactly as the original does, with the same state, cycle count and program counter - unless the original
  leaves through a trap, and then so does the rewritten block.\<close>

theorem match_pattern_sound:
  assumes "no_mailbox nodes" "length nodes \<le> 256"
  shows "\<exists>r. exec_nodes M lk (match_pattern malloc nodes) cycle pc rv = r
    \<and> (exec_nodes M lk nodes cycle pc rv = r
       \<or> (\<exists>rv1 rv2. r = Return False rv1 \<and> exec_nodes M lk nodes cycle pc rv = Return False rv2))"
  using match_pattern_same[OF assms, of M lk malloc cycle pc rv] by (auto simp: same_or_trap_def)

text \<open>Two constant loads, an addition and two shifts become three nodes.\<close>

definition fuse_demo :: "rv_insn list" where
  "fuse_demo =
     [zero_insn\<lparr>i_opcode := Base rv_insn_lui, i_rd := 5, i_imm := 0x1000\<rparr>,
      zero_insn\<lparr>i_opcode := Base rv_insn_add, i_rd := 6, i_rs1 := 5, i_rs2 := 6\<rparr>,
      zero_insn\<lparr>i_opcode := Base rv_insn_lui, i_rd := 7, i_imm := 0x2000\<rparr>,
      zero_insn\<lparr>i_opcode := Base rv_insn_slli, i_rd := 7, i_rs1 := 7, i_imm := 3\<rparr>,
      zero_insn\<lparr>i_opcode := Base rv_insn_srai, i_rd := 8, i_rs1 := 7, i_imm := 1\<rparr>]"

theorem match_pattern_sound_witness:
  "map i_opcode (match_pattern (\<lambda>_. True) fuse_demo) = [Fused rv_insn_fuse2, Base rv_insn_lui, Fused rv_insn_fuse5]
   \<and> exec_nodes unit_ops no_links (match_pattern (\<lambda>_. True) fuse_demo) 0 0x100 (zero_riscv ())
     = exec_nodes unit_ops no_links fuse_demo 0 0x100 (zero_riscv ())"
proof -
  have 1: "map i_opcode (match_pattern (\<lambda>_. True) fuse_demo) = [Fused rv_insn_fuse2, Base rv_insn_lui, Fused rv_insn_fuse5]"
    by (simp add: fuse_demo_def zero_insn_def fuse_node_def fuse_run_def fuse_lui_add_def run_length_def remove_next_nth_ir_def
        is_shift_def Let_def)
  have "no_mailbox fuse_demo" "length fuse_demo \<le> 256" by (simp_all add: fuse_demo_def no_mailbox_def zero_insn_def)
  note sound = match_pattern_sound[OF this, of unit_ops no_links "\<lambda>_. True" 0 "0x100" "zero_riscv ()"]
  have "exec_nodes unit_ops no_links fuse_demo 0 0x100 (zero_riscv ()) \<noteq> Return False rv" for rv
    by (simp add: fuse_demo_def zero_insn_def impl_def do_lui_def do_add_def do_slli_def do_srai_def shift_op_def shift_func_def
        RVOP_def set_rd_def Let_def)
  with sound 1 show ?thesis by auto
qed

text \<open>Outside these bounds the pass goes wrong.  A mailbox load after an ordinary one is merged into a plain
  fused load and no longer stalls; and since the number of nodes to remove is passed as a \<^verbatim>\<open>uint8_t\<close>, a run
  of 257 nodes is executed by the fused node and then once more.\<close>

lemma fusion_drops_mailbox:
  "match_pattern (\<lambda>_. True)
     [zero_insn\<lparr>i_opcode := Base rv_insn_lw, i_rd := 5, i_rs1 := 6\<rparr>,
      zero_insn\<lparr>i_opcode := Base rv_insn_lw, i_rd := 7, i_rs1 := 8, i_mailbox := True\<rparr>]
   = [zero_insn\<lparr>i_opcode := Fused rv_insn_fuse4, i_rd := 5, i_rs1 := 6, i_imm2 := 2,
        i_fuse := [\<lparr>f_imm = 0, f_rd = 5, f_rs1 = 6, f_rs2 = 0, f_opcode = Fused rv_insn_fuse4\<rparr>,
                   \<lparr>f_imm = 0, f_rd = 7, f_rs1 = 8, f_rs2 = 0, f_opcode = Base rv_insn_lw\<rparr>]\<rparr>]"
  by (simp add: zero_insn_def fuse_node_def fuse_run_def run_length_def remove_next_nth_ir_def fuse_entry_def Let_def)

lemma fusion_repeats_run:
  assumes "length rest = 256" "list_all (\<lambda>ir. i_opcode ir = Base rv_insn_sw) (ir # rest)"
  shows "snd (fuse_run (\<lambda>_. True) rv_insn_fuse3 (\<lambda>op. op = Base rv_insn_sw) ir rest) = rest"
proof -
  have t: "takeWhile ((\<lambda>op. op = Base rv_insn_sw) \<circ> i_opcode) rest = rest"
    using assms(2) by (auto simp: list_all_iff)
  show ?thesis unfolding fuse_run_def run_length_def remove_next_nth_ir_def t by (simp add: assms(1))
qed

end
