(* ===== verification/Block_Map.thy ===== *)
theory Block_Map
  imports Rv_Dispatch
begin

text \<open>
  Translated blocks and the block map: \<^verbatim>\<open>block_t\<close>, \<^verbatim>\<open>block_map_t\<close> and \<^verbatim>\<open>branch_history_table_t\<close>, the hash
  function, \<^verbatim>\<open>block_insert\<close> and \<^verbatim>\<open>block_find\<close> of \<^verbatim>\<open>emulate.c\<close>, \<^verbatim>\<open>block_map_init\<close> and \<^verbatim>\<open>block_map_clear\<close> of
  \<^verbatim>\<open>riscv.c\<close>.  The map is a table with open addressing and linear probing; both probing loops run forever
  if the table is full, so their models return None where they do not return.  Every pointer to a block
  or to its first node is represented by the start address of the block.
\<close>

section \<open>Data\<close>

definition HISTORY_SIZE :: nat where "HISTORY_SIZE = 16"

record branch_history_table =
  h_idx :: nat
  h_PC :: "u32 list"
  h_target :: "u32 option list"

definition new_history :: branch_history_table where
  "new_history = \<lparr>h_idx = 0, h_PC = replicate HISTORY_SIZE (- 1), h_target = replicate HISTORY_SIZE None\<rparr>"

record block =
  n_insn :: u32
  pc_start :: u32
  pc_end :: u32
  irs :: "rv_insn list"
  tail_links :: links
  branch_table :: branch_history_table

record block_map =
  block_capacity :: u32
  map_size :: u32
  slots :: "block option list"

definition BLOCK_MAP_CAPACITY_BITS :: nat where "BLOCK_MAP_CAPACITY_BITS = 10"

definition map_hash :: "u32 \<Rightarrow> u32" where
  "map_hash v = drop_bit (32 - BLOCK_MAP_CAPACITY_BITS) (v * 0x61C88647) AND (push_bit BLOCK_MAP_CAPACITY_BITS 1 - 1)"

section \<open>Operations\<close>

definition block_alloc :: block where
  "block_alloc = \<lparr>n_insn = 0, pc_start = 0, pc_end = 0, irs = [], tail_links = no_links, branch_table = new_history\<rparr>"

definition block_map_init :: "nat \<Rightarrow> block_map" where
  "block_map_init bits = \<lparr>block_capacity = push_bit bits 1, map_size = 0, slots = replicate (2 ^ bits) None\<rparr>"

definition block_map_clear :: "block_map \<Rightarrow> block_map" where
  "block_map_clear m = m\<lparr>map_size := 0, slots := replicate (length (slots m)) None\<rparr>"

partial_function (option) free_slot :: "block option list \<Rightarrow> u32 \<Rightarrow> u32 \<Rightarrow> nat option" where
  "free_slot xs msk index =
     (case xs ! unat (index AND msk) of
        None \<Rightarrow> Some (unat (index AND msk))
      | Some _ \<Rightarrow> free_slot xs msk (index + 1))"

definition block_insert :: "block_map \<Rightarrow> block \<Rightarrow> block_map option" where
  "block_insert m b =
     (case free_slot (slots m) (block_capacity m - 1) (map_hash (pc_start b)) of
        None \<Rightarrow> None
      | Some i \<Rightarrow> Some (m\<lparr>slots := (slots m)[i := Some b], map_size := map_size m + 1\<rparr>))"

partial_function (option) find_from :: "block option list \<Rightarrow> u32 \<Rightarrow> u32 \<Rightarrow> u32 \<Rightarrow> block option option" where
  "find_from xs msk addr index =
     (case xs ! unat (index AND msk) of
        None \<Rightarrow> Some None
      | Some b \<Rightarrow> if pc_start b = addr then Some (Some b) else find_from xs msk addr (index + 1))"

definition block_find :: "block_map \<Rightarrow> u32 \<Rightarrow> block option option" where
  "block_find m addr = find_from (slots m) (block_capacity m - 1) addr (map_hash addr)"

text \<open>Blocks are updated through pointers: replace the block with the same start address.\<close>

definition block_update :: "(block \<Rightarrow> block) \<Rightarrow> u32 \<Rightarrow> block_map \<Rightarrow> block_map" where
  "block_update f addr m =
     m\<lparr>slots := map (map_option (\<lambda>b. if pc_start b = addr then f b else b)) (slots m)\<rparr>"

section \<open>The contract of a code map\<close>

text \<open>A code map stores blocks by their start address.  It promises to find what was inserted as long as it
  has room, and what it finds is described by a finite map.\<close>

locale code_map =
  fixes find :: "'m \<Rightarrow> u32 \<Rightarrow> 'b option option" and ins :: "'m \<Rightarrow> 'b \<Rightarrow> 'm option" and clear :: "'m \<Rightarrow> 'm"
    and upd :: "('b \<Rightarrow> 'b) \<Rightarrow> u32 \<Rightarrow> 'm \<Rightarrow> 'm"
    and key :: "'b \<Rightarrow> u32" and inv :: "'m \<Rightarrow> bool" and room :: "'m \<Rightarrow> bool" and abs :: "'m \<Rightarrow> u32 \<rightharpoonup> 'b"
  assumes find_abs: "inv m \<Longrightarrow> find m a = Some (abs m a)"
    and abs_key: "inv m \<Longrightarrow> abs m a = Some b \<Longrightarrow> key b = a"
    and ins_abs: "inv m \<Longrightarrow> room m \<Longrightarrow> abs m (key b) = None
      \<Longrightarrow> \<exists>m'. ins m b = Some m' \<and> inv m' \<and> abs m' = (abs m)(key b \<mapsto> b)"
    and clear_abs: "inv m \<Longrightarrow> inv (clear m) \<and> room (clear m) \<and> abs (clear m) = Map.empty"
    and upd_abs: "inv m \<Longrightarrow> (\<And>b. key (f b) = key b)
      \<Longrightarrow> inv (upd f a m) \<and> abs (upd f a m) = (\<lambda>k. if k = a then map_option f (abs m k) else abs m k)"
begin

text \<open>The way the client uses it: find the block, or make room, make the block and insert it.\<close>

lemma find_or_insert:
  assumes "inv m" "key b = a" "abs m a = None"
    and m1: "m1 = (if full then clear m else m)" and room: "\<not> full \<longrightarrow> room m"
  shows "find m a = Some None \<and> (\<exists>m'. ins m1 b = Some m' \<and> inv m' \<and> find m' a = Some (Some b)
    \<and> (\<forall>k. k \<noteq> a \<longrightarrow> find m' k = Some (if full then None else abs m k)))"
proof -
  have "inv m1" "room m1" "abs m1 = (if full then Map.empty else abs m)"
    using assms clear_abs by auto
  moreover from this have "abs m1 (key b) = None" using assms by auto
  ultimately obtain m' where "ins m1 b = Some m'" "inv m'" "abs m' = (abs m1)(key b \<mapsto> b)"
    using ins_abs by blast
  with assms find_abs \<open>abs m1 = _\<close> show ?thesis by auto
qed

end

section \<open>Probing\<close>

definition probe :: "u32 \<Rightarrow> nat \<Rightarrow> nat" where
  "probe a k = unat ((map_hash a + of_nat k) AND 0x3FF)"

lemma and_3FF: "unat (x AND 0x3FF) = unat x mod 1024" for x :: u32
proof -
  have "x AND 0x3FF = take_bit 10 x"
    by (simp add: take_bit_eq_mask mask_eq_exp_minus_1)
  then have "unat (x AND 0x3FF) = take_bit 10 (unat x)" by (simp only: unsigned_take_bit_eq)
  then show ?thesis by (simp add: take_bit_eq_mod)
qed

lemma probe_mod: "probe a k = (unat (map_hash a) + k) mod 1024"
proof -
  have "unat (map_hash a + of_nat k) mod 1024 = (unat (map_hash a) + k) mod 2 ^ 32 mod 1024"
    by (simp add: unat_word_ariths unat_of_nat mod_add_right_eq)
  also have "\<dots> = (unat (map_hash a) + k) mod 1024" by (rule mod_mod_cancel) simp
  finally show ?thesis by (simp add: probe_def and_3FF)
qed

lemma probe_less [simp]: "probe a k < 1024"
  by (simp add: probe_mod)

lemma probe_reaches: "i < 1024 \<Longrightarrow> \<exists>k < 1024. probe a k = i"
proof (rule exI[of _ "(i + (1024 - unat (map_hash a) mod 1024)) mod 1024"], intro conjI)
  assume i: "i < 1024"
  let ?h = "unat (map_hash a)"
  have "probe a ((i + (1024 - ?h mod 1024)) mod 1024) = (?h mod 1024 + (i + (1024 - ?h mod 1024))) mod 1024"
    unfolding probe_mod by (metis mod_add_left_eq mod_add_right_eq)
  also have "?h mod 1024 + (i + (1024 - ?h mod 1024)) = i + 1024"
    using mod_less_divisor[of 1024 ?h] by linarith
  also have "(i + 1024) mod 1024 = i" using i by simp
  finally show "probe a ((i + (1024 - ?h mod 1024)) mod 1024) = i" .
qed simp

text \<open>Where the two loops stop, if some slot on the way is free or holds the address.\<close>

lemma free_slot_stops:
  assumes "\<forall>j < k. xs ! unat ((index + of_nat j) AND msk) \<noteq> None" "xs ! unat ((index + of_nat k) AND msk) = None"
  shows "free_slot xs msk index = Some (unat ((index + of_nat k) AND msk))"
  using assms
proof (induction k arbitrary: index)
  case 0
  then show ?case by (subst free_slot.simps) simp
next
  case (Suc k)
  have "xs ! unat (index AND msk) \<noteq> None" using Suc.prems(1)[rule_format, of 0] by simp
  moreover have "free_slot xs msk (index + 1) = Some (unat ((index + 1 + of_nat k) AND msk))"
    by (rule Suc.IH) (use Suc.prems in \<open>auto simp: add_ac dest: spec[of _ "Suc _"]\<close>)
  ultimately show ?case by (subst free_slot.simps) (auto simp: add_ac)
qed

lemma find_from_stops:
  assumes "\<forall>j < k. \<exists>b. xs ! unat ((index + of_nat j) AND msk) = Some b \<and> pc_start b \<noteq> addr"
    and "xs ! unat ((index + of_nat k) AND msk) = r" "\<forall>b. r = Some b \<longrightarrow> pc_start b = addr"
  shows "find_from xs msk addr index = Some r"
  using assms
proof (induction k arbitrary: index)
  case 0
  then show ?case by (subst find_from.simps) (auto split: option.splits)
next
  case (Suc k)
  obtain b where "xs ! unat (index AND msk) = Some b" "pc_start b \<noteq> addr" using Suc.prems(1)[rule_format, of 0] by auto
  moreover have "find_from xs msk addr (index + 1) = Some r"
    by (rule Suc.IH) (use Suc.prems in \<open>auto simp: add_ac dest: spec[of _ "Suc _"]\<close>)
  ultimately show ?case by (subst find_from.simps) simp
qed

section \<open>The block map keeps the contract\<close>

definition blocks :: "block option list \<Rightarrow> block list" where
  "blocks xs = concat (map (\<lambda>x. case x of None \<Rightarrow> [] | Some b \<Rightarrow> [b]) xs)"

definition abs_map :: "block_map \<Rightarrow> u32 \<rightharpoonup> block" where
  "abs_map m = map_of (map (\<lambda>b. (pc_start b, b)) (blocks (slots m)))"

text \<open>No key occurs twice, a block is reached by probing from its hash over occupied slots, and at least
  one slot is free.\<close>

definition probe_ok :: "block option list \<Rightarrow> bool" where
  "probe_ok xs \<longleftrightarrow> (\<forall>i < 1024. \<forall>b. xs ! i = Some b \<longrightarrow>
     (\<exists>k. i = probe (pc_start b) k \<and> (\<forall>j < k. xs ! probe (pc_start b) j \<noteq> None)))"

definition map_ok :: "block_map \<Rightarrow> bool" where
  "map_ok m \<longleftrightarrow> block_capacity m = 1024 \<and> length (slots m) = 1024 \<and> unat (map_size m) = length (blocks (slots m))
     \<and> length (blocks (slots m)) < 1024 \<and> distinct (map pc_start (blocks (slots m))) \<and> probe_ok (slots m)"

definition map_room :: "block_map \<Rightarrow> bool" where
  "map_room m \<longleftrightarrow> map_size m < 1023"

lemma set_blocks [simp]: "b \<in> set (blocks xs) \<longleftrightarrow> Some b \<in> set xs"
  by (auto simp: blocks_def split: option.splits)

lemma length_blocks: "length (blocks xs) = length (filter (\<lambda>x. x \<noteq> None) xs)"
  by (induction xs) (auto simp: blocks_def split: option.splits)

lemma free_exists: "map_ok m \<Longrightarrow> \<exists>i < 1024. slots m ! i = None"
proof (rule ccontr)
  assume m: "map_ok m" and "\<not> (\<exists>i < 1024. slots m ! i = None)"
  then have "filter (\<lambda>x. x \<noteq> None) (slots m) = slots m"
    by (auto simp: map_ok_def filter_id_conv in_set_conv_nth simp del: not_None_eq)
  with m show False by (auto simp: map_ok_def length_blocks)
qed

lemma abs_map_Some:
  assumes "map_ok m"
  shows "abs_map m a = Some b \<longleftrightarrow> Some b \<in> set (slots m) \<and> pc_start b = a"
proof -
  have "distinct (map fst (map (\<lambda>b. (pc_start b, b)) (blocks (slots m))))"
    using assms by (simp add: map_ok_def comp_def)
  from map_of_eq_Some_iff[OF this] show ?thesis by (auto simp: abs_map_def)
qed

lemma find_reaches:
  assumes m: "map_ok m"
  shows "\<exists>k. slots m ! probe a k = abs_map m a
    \<and> (\<forall>j < k. \<exists>b. slots m ! probe a j = Some b \<and> pc_start b \<noteq> a)"
proof -
  let ?stop = "\<lambda>k. slots m ! probe a k = None \<or> (\<exists>b. slots m ! probe a k = Some b \<and> pc_start b = a)"
  obtain i where "i < 1024" "slots m ! i = None" using free_exists[OF m] by blast
  then have ex: "\<exists>k. ?stop k" using probe_reaches[of i a] by auto
  define k where "k = (LEAST k. ?stop k)"
  have k: "?stop k" "\<And>j. j < k \<Longrightarrow> \<not> ?stop j"
    unfolding k_def using LeastI_ex[OF ex] not_less_Least by blast+
  have len: "length (slots m) = 1024" using m by (simp add: map_ok_def)
  have "slots m ! probe a k = abs_map m a"
  proof (cases "slots m ! probe a k")
    case (Some b)
    then have "Some b \<in> set (slots m)" using nth_mem[of "probe a k" "slots m"] by (simp add: len)
    with Some k(1) m have "abs_map m a = Some b" by (auto simp: abs_map_Some)
    with Some show ?thesis by simp
  next
    case None
    have "abs_map m a = None"
    proof (rule ccontr)
      assume "abs_map m a \<noteq> None"
      then obtain b i where b: "i < 1024" "slots m ! i = Some b" "pc_start b = a"
        using m by (auto simp: abs_map_Some in_set_conv_nth len)
      moreover have "probe_ok (slots m)" using m by (simp add: map_ok_def)
      ultimately obtain n where n: "i = probe a n" "\<forall>j < n. slots m ! probe a j \<noteq> None" by (auto simp: probe_ok_def)
      with None b k(2)[of n] have "n \<le> k" "k \<noteq> n" by (auto simp: not_less[symmetric])
      with k(2)[of n] n b show False by auto
    qed
    with None show ?thesis by simp
  qed
  moreover have "\<forall>j < k. \<exists>b. slots m ! probe a j = Some b \<and> pc_start b \<noteq> a" using k(2) by fastforce
  ultimately show ?thesis by blast
qed

lemma map_find_abs: "map_ok m \<Longrightarrow> block_find m a = Some (abs_map m a)"
proof -
  assume m: "map_ok m"
  obtain k where "slots m ! probe a k = abs_map m a" "\<forall>j < k. \<exists>b. slots m ! probe a j = Some b \<and> pc_start b \<noteq> a"
    using find_reaches[OF m] by blast
  with find_from_stops[of k "slots m" "map_hash a" "0x3FF" a "abs_map m a"] m show ?thesis
    by (simp add: block_find_def map_ok_def probe_def abs_map_Some[OF m])
qed

lemma free_slot_found:
  assumes m: "map_ok m"
  shows "\<exists>k. free_slot (slots m) 0x3FF (map_hash a) = Some (probe a k) \<and> slots m ! probe a k = None
    \<and> (\<forall>j < k. slots m ! probe a j \<noteq> None)"
proof -
  obtain i where "i < 1024" "slots m ! i = None" using free_exists[OF m] by blast
  then have ex: "\<exists>k. slots m ! probe a k = None" using probe_reaches[of i a] by auto
  define k where "k = (LEAST k. slots m ! probe a k = None)"
  have k: "slots m ! probe a k = None" "\<forall>j < k. slots m ! probe a j \<noteq> None"
    unfolding k_def using LeastI_ex[OF ex] not_less_Least by blast+
  with free_slot_stops[of k "slots m" "map_hash a" "0x3FF"] show ?thesis by (auto simp: probe_def)
qed

lemma blocks_update:
  assumes "i < length xs" "xs ! i = None"
  shows "\<exists>ys zs. blocks xs = ys @ zs \<and> blocks (xs[i := Some b]) = ys @ b # zs"
proof -
  have 1: "xs = take i xs @ None # drop (Suc i) xs" using assms id_take_nth_drop by metis
  have "blocks xs = blocks (take i xs) @ blocks (drop (Suc i) xs)" by (subst 1) (simp add: blocks_def)
  moreover have "blocks (xs[i := Some b]) = blocks (take i xs) @ b # blocks (drop (Suc i) xs)"
    using assms by (simp add: upd_conv_take_nth_drop blocks_def)
  ultimately show ?thesis by blast
qed

lemma probe_ok_insert:
  assumes xs: "probe_ok xs" "length xs = 1024" and k: "xs ! probe (pc_start b) k = None"
    "\<forall>j < k. xs ! probe (pc_start b) j \<noteq> None"
  shows "probe_ok (xs[probe (pc_start b) k := Some b])"
  unfolding probe_ok_def
proof (intro allI impI)
  fix i c assume i: "i < 1024" "xs[probe (pc_start b) k := Some b] ! i = Some c"
  let ?ys = "xs[probe (pc_start b) k := Some b]"
  have mono: "xs ! p \<noteq> None \<Longrightarrow> ?ys ! p \<noteq> None" for p by (cases "p = probe (pc_start b) k") (auto simp: xs(2))
  show "\<exists>n. i = probe (pc_start c) n \<and> (\<forall>j < n. ?ys ! probe (pc_start c) j \<noteq> None)"
  proof (cases "i = probe (pc_start b) k")
    case True
    with i xs(2) have "c = b" by simp
    with True k(2) mono show ?thesis by blast
  next
    case False
    with i xs(1) obtain n where "i = probe (pc_start c) n" "\<forall>j < n. xs ! probe (pc_start c) j \<noteq> None"
      by (auto simp: probe_ok_def)
    with mono show ?thesis by blast
  qed
qed

lemma map_ins_abs:
  assumes m: "map_ok m" "map_room m" and b: "abs_map m (pc_start b) = None"
  shows "\<exists>m'. block_insert m b = Some m' \<and> map_ok m' \<and> abs_map m' = (abs_map m)(pc_start b \<mapsto> b)"
proof -
  obtain k where k: "free_slot (slots m) 0x3FF (map_hash (pc_start b)) = Some (probe (pc_start b) k)"
    "slots m ! probe (pc_start b) k = None" "\<forall>j < k. slots m ! probe (pc_start b) j \<noteq> None"
    using free_slot_found[OF m(1)] by blast
  have len: "length (slots m) = 1024" "block_capacity m = 1024" using m by (simp_all add: map_ok_def)
  let ?m = "m\<lparr>slots := (slots m)[probe (pc_start b) k := Some b], map_size := map_size m + 1\<rparr>"
  have ins: "block_insert m b = Some ?m" using k(1) by (simp add: block_insert_def len)
  obtain ys zs where bl: "blocks (slots m) = ys @ zs" "blocks (slots ?m) = ys @ b # zs"
    using blocks_update[of "probe (pc_start b) k" "slots m" b] k(2) len by auto
  have "pc_start b \<notin> pc_start ` set (blocks (slots m))"
    using b m(1) by (auto simp: abs_map_Some[OF m(1)] dest: spec[of _ b] simp flip: not_Some_eq)
  moreover have "unat (map_size m + 1) = Suc (unat (map_size m))" "unat (map_size m) < 1023"
    using m(2) by (auto simp: map_room_def unat_plus_simple[THEN iffD1] word_less_nat_alt unat_word_ariths)
  ultimately have ok: "map_ok ?m"
    using m(1) bl probe_ok_insert[of "slots m" b k] k by (auto simp: map_ok_def len)
  have "abs_map ?m = (abs_map m)(pc_start b \<mapsto> b)"
  proof
    fix a
    have "Some c \<in> set (slots ?m) \<longleftrightarrow> c = b \<or> Some c \<in> set (slots m)" for c
      unfolding set_blocks[symmetric] bl by auto
    then have "abs_map ?m a = Some c \<longleftrightarrow> ((abs_map m)(pc_start b \<mapsto> b)) a = Some c" for c
      using b unfolding abs_map_Some[OF ok] by (auto simp: abs_map_Some[OF m(1)] simp flip: not_Some_eq)
    then show "abs_map ?m a = ((abs_map m)(pc_start b \<mapsto> b)) a" by (metis not_Some_eq)
  qed
  with ins ok show ?thesis by blast
qed

lemma blocks_replicate [simp]: "blocks (replicate n None) = []"
  by (simp add: blocks_def)

lemma map_clear_abs: "map_ok m \<Longrightarrow> map_ok (block_map_clear m) \<and> map_room (block_map_clear m) \<and> abs_map (block_map_clear m) = Map.empty"
  by (auto simp: map_ok_def map_room_def block_map_clear_def abs_map_def probe_ok_def)

lemma map_init_ok: "map_ok (block_map_init BLOCK_MAP_CAPACITY_BITS) \<and> abs_map (block_map_init BLOCK_MAP_CAPACITY_BITS) = Map.empty"
  by (auto simp: map_ok_def block_map_init_def abs_map_def probe_ok_def BLOCK_MAP_CAPACITY_BITS_def)

lemma blocks_map: "blocks (map (map_option g) xs) = map g (blocks xs)"
  by (induction xs) (auto simp: blocks_def split: option.splits)

lemma map_of_map_key:
  assumes "\<And>b. pc_start (g b) = pc_start b"
  shows "map_of (map (\<lambda>b. (pc_start b, b)) (map g bs)) = (\<lambda>k. map_option g (map_of (map (\<lambda>b. (pc_start b, b)) bs) k))"
  by (induction bs) (auto simp: assms)

lemma map_upd_abs:
  assumes m: "map_ok m" and f: "\<And>b. pc_start (f b) = pc_start b"
  shows "map_ok (block_update f a m) \<and> abs_map (block_update f a m) = (\<lambda>k. if k = a then map_option f (abs_map m k) else abs_map m k)"
proof -
  let ?g = "\<lambda>b. if pc_start b = a then f b else b"
  have bm_key: "pc_start b = k" if "abs_map m k = Some b" for k b using that by (simp add: abs_map_Some[OF m])
  have g: "pc_start (?g b) = pc_start b" for b using f by simp
  have bl: "blocks (slots (block_update f a m)) = map ?g (blocks (slots m))" by (simp add: block_update_def blocks_map)
  have "probe_ok (slots (block_update f a m))"
    using m f by (auto simp: probe_ok_def block_update_def map_ok_def)
  with m g have ok: "map_ok (block_update f a m)"
    by (simp add: map_ok_def bl comp_def) (simp add: block_update_def)
  have "abs_map (block_update f a m) = (\<lambda>k. map_option ?g (abs_map m k))"
    unfolding abs_map_def bl using map_of_map_key[of ?g "blocks (slots m)", OF g] by simp
  moreover have "map_option ?g (abs_map m k) = (if k = a then map_option f (abs_map m k) else abs_map m k)" for k
    using bm_key[of k] by (cases "abs_map m k") auto
  ultimately show ?thesis using ok by auto
qed

interpretation bm: code_map block_find block_insert block_map_clear block_update pc_start map_ok map_room abs_map
proof
  show "abs_map m a = Some b \<Longrightarrow> pc_start b = a" if "map_ok m" for m a b using that by (simp add: abs_map_Some)
qed (use map_find_abs map_ins_abs map_clear_abs map_upd_abs in blast)+

section \<open>Every map the emulator builds\<close>

text \<open>The emulator clears the map before it inserts into one that is more than four fifths full.  The
  comparison is made in double precision, where it is exact.\<close>

definition must_clear :: "block_map \<Rightarrow> bool" where
  "must_clear m \<longleftrightarrow> 4 * unat (block_capacity m) < 5 * unat (map_size m)"

lemma not_must_clear_room: "map_ok m \<Longrightarrow> \<not> must_clear m \<Longrightarrow> map_room m"
  by (simp add: must_clear_def map_ok_def map_room_def word_less_nat_alt)

inductive map_reachable :: "block_map \<Rightarrow> bool" where
  reachable_init: "map_reachable (block_map_init BLOCK_MAP_CAPACITY_BITS)"
| reachable_clear: "map_reachable m \<Longrightarrow> map_reachable (block_map_clear m)"
| reachable_insert: "map_reachable m \<Longrightarrow> block_find m (pc_start b) = Some None \<Longrightarrow> \<not> must_clear m \<Longrightarrow> block_insert m b = Some m' \<Longrightarrow> map_reachable m'"
| reachable_update: "map_reachable m \<Longrightarrow> (\<And>b. pc_start (f b) = pc_start b) \<Longrightarrow> map_reachable (block_update f a m)"

lemma reachable_ok: "map_reachable m \<Longrightarrow> map_ok m"
proof (induction rule: map_reachable.induct)
  case (reachable_insert m b m')
  then have "abs_map m (pc_start b) = None" using bm.find_abs by simp
  with reachable_insert bm.ins_abs[of m b] not_must_clear_room show ?case by auto
qed (use map_init_ok bm.clear_abs bm.upd_abs in blast)+

lemma find_from_full:
  assumes "find_from xs msk addr index = Some r"
  shows "\<exists>i. \<forall>b. xs ! unat (i AND msk) = Some b \<longrightarrow> pc_start b = addr"
proof (rule find_from.raw_induct[OF _ assms])
  fix f xs msk addr index r
  assume IH: "\<And>xs msk addr index r. f xs msk addr index = Some r
    \<Longrightarrow> \<exists>i. \<forall>b. xs ! unat (i AND msk) = Some b \<longrightarrow> pc_start b = addr"
    and f: "(case xs ! unat (index AND msk) of None \<Rightarrow> Some None
      | Some b \<Rightarrow> if pc_start b = addr then Some (Some b) else f xs msk addr (index + 1)) = Some r"
  show "\<exists>i. \<forall>b. xs ! unat (i AND msk) = Some b \<longrightarrow> pc_start b = addr"
    by (cases "\<forall>b. xs ! unat (index AND msk) = Some b \<longrightarrow> pc_start b = addr") (use f in \<open>auto dest: IH\<close>)
qed

text \<open>In a table without a free slot the lookup of an absent address never returns.\<close>

lemma block_find_full_diverges:
  "(\<And>i. \<exists>b. slots m ! unat (i AND (block_capacity m - 1)) = Some b \<and> pc_start b \<noteq> addr) \<Longrightarrow> block_find m addr = None"
  unfolding block_find_def
  using find_from_full[of "slots m" "block_capacity m - 1" addr "map_hash addr"] by (metis not_Some_eq)

lemma map_lookup_returns:
  assumes "map_reachable m"
  shows "\<exists>r. block_find m addr = Some r \<and> (\<forall>b. r = Some b \<longrightarrow> pc_start b = addr)"
  using bm.find_abs[OF reachable_ok[OF assms]] bm.abs_key[OF reachable_ok[OF assms]] by auto

lemma block_map_insert_missing:
  assumes "map_reachable m" and n: "block_find m (pc_start b) = Some None"
  shows "\<exists>m'. block_insert (if must_clear m then block_map_clear m else m) b = Some m' \<and> map_reachable m'
    \<and> block_find m' (pc_start b) = Some (Some b)
    \<and> (\<forall>k. k \<noteq> pc_start b \<longrightarrow> block_find m' k = (if must_clear m then Some None else block_find m k))"
proof -
  have ok: "map_ok m" using assms(1) by (rule reachable_ok)
  let ?m = "if must_clear m then block_map_clear m else m"
  have "abs_map m (pc_start b) = None" using n bm.find_abs[OF ok] by simp
  from bm.find_or_insert[OF ok refl this refl, of "must_clear m"] not_must_clear_room[OF ok]
  obtain m' where m': "block_insert ?m b = Some m'" "block_find m' (pc_start b) = Some (Some b)"
    "\<forall>k. k \<noteq> pc_start b \<longrightarrow> block_find m' k = Some (if must_clear m then None else abs_map m k)" by blast
  have "map_reachable ?m" "\<not> must_clear ?m" using assms(1) by (auto simp: reachable_clear) (simp add: must_clear_def block_map_clear_def)
  moreover have "block_find ?m (pc_start b) = Some None"
    using n bm.find_abs[of "block_map_clear m"] bm.clear_abs[OF ok] by simp
  ultimately have "map_reachable m'" using m'(1) by (blast intro: reachable_insert)
  with m' bm.find_abs[OF ok] show ?thesis by auto
qed

text \<open>C8: probing never runs forever in the emulator.  For every block map it can build - starting from the
  empty one by clearing, by inserting a block that was not found into a map that is not to be cleared, and
  by chaining blocks - looking up any address returns, inserting a missing block (after the clearing the
  emulator does) returns, and the lookup then finds it and everything that was there.\<close>

theorem block_map_never_spins:
  assumes "map_reachable m"
  shows "(\<exists>r. block_find m addr = Some r \<and> (\<forall>b. r = Some b \<longrightarrow> pc_start b = addr))
    \<and> (block_find m (pc_start b) = Some None \<longrightarrow>
      (\<exists>m'. block_insert (if must_clear m then block_map_clear m else m) b = Some m' \<and> map_reachable m'
        \<and> block_find m' (pc_start b) = Some (Some b)
        \<and> (\<forall>k. k \<noteq> pc_start b \<longrightarrow> block_find m' k = (if must_clear m then Some None else block_find m k))))"
  using map_lookup_returns[OF assms] block_map_insert_missing[OF assms] by blast

text \<open>Two blocks inserted into the empty map.\<close>

theorem block_map_never_spins_witness:
  "\<exists>m'. block_insert (block_map_init BLOCK_MAP_CAPACITY_BITS) (block_alloc\<lparr>pc_start := 0x6000\<rparr>) = Some m'
     \<and> block_find m' 0x6000 = Some (Some (block_alloc\<lparr>pc_start := 0x6000\<rparr>)) \<and> block_find m' 0x6004 = Some None"
proof -
  let ?m = "block_map_init BLOCK_MAP_CAPACITY_BITS"
  have f: "block_find ?m a = Some None" for a using bm.find_abs map_init_ok by auto
  have "\<not> must_clear ?m" by (simp add: must_clear_def block_map_init_def)
  with block_map_never_spins[OF reachable_init, of 0 "block_alloc\<lparr>pc_start := 0x6000\<rparr>"] f show ?thesis by auto
qed

end
