(* ===== verification/Translate.thy ===== *)
theory Translate
  imports Constopt_Sound Fusion Block_Map
begin

text \<open>
  From memory to an executable block: \<^verbatim>\<open>block_translate\<close> and \<^verbatim>\<open>block_find_or_translate\<close> of \<^verbatim>\<open>emulate.c\<close>, in the
  default build.  Fetching goes on until an instruction ends the block, so the loop need not return;
  its model is a partial function.  Host memory is a parameter: which of the allocations succeed.
\<close>

section \<open>Host memory\<close>

text \<open>\<^verbatim>\<open>ir_calloc n\<close>: the allocation of the \<^verbatim>\<open>n\<close>-th node of the block succeeds.\<close>

record host =
  block_calloc :: bool
  ir_calloc :: "nat \<Rightarrow> bool"
  table_calloc :: bool
  fuse_malloc :: "nat \<Rightarrow> bool"

section \<open>Translating a block\<close>

definition rotr32 :: "u32 \<Rightarrow> nat \<Rightarrow> u32" where
  "rotr32 x k = drop_bit k x OR push_bit (32 - k) x"

datatype translation = Translated block | No_memory | Assert_failed

definition in_mailbox_window :: "u32 \<Rightarrow> bool" where
  "in_mailbox_window a \<longleftrightarrow> 0xFFEC0000 \<le> a \<and> a \<le> 0xFFEC3FFF"

text \<open>A load is taken for a mailbox load if its base register holds a constant loaded by LUI in this
  block, or else by the value the register has at translation time, with the offset in the window.\<close>

definition is_mailbox_lw :: "'e riscv \<Rightarrow> (u8 \<Rightarrow> u32) \<Rightarrow> rv_insn \<Rightarrow> bool" where
  "is_mailbox_lw rv lui_const ir \<longleftrightarrow> i_opcode ir = Base rv_insn_lw \<and>
     (let base = (if lui_const (i_rs1 ir) \<noteq> 0 then lui_const (i_rs1 ir) else X rv (i_rs1 ir)) in
      in_mailbox_window (base + i_imm ir))"

definition track_lui :: "rv_insn \<Rightarrow> (u8 \<Rightarrow> u32) \<Rightarrow> u8 \<Rightarrow> u32" where
  "track_lui ir lui_const =
     (if i_opcode ir = Base rv_insn_lui then lui_const(i_rd ir := i_imm ir)
      else if i_rd ir < 32 then lui_const(i_rd ir := 0)
      else lui_const)"

definition add_node :: "rv_insn \<Rightarrow> u32 \<Rightarrow> block \<Rightarrow> block" where
  "add_node ir len b = b\<lparr>irs := irs b @ [ir\<lparr>i_pc := pc_end b\<rparr>], pc_end := pc_end b + len, n_insn := n_insn b + 1\<rparr>"

text \<open>What one round of the loop makes of the fetched word: a last node, a node to go on after, or failure.\<close>

datatype round = Last rv_insn u32 | More rv_insn u32 | Failed translation

definition translate_insn :: "host \<Rightarrow> 'e riscv \<Rightarrow> (u8 \<Rightarrow> u32) \<Rightarrow> u32 \<Rightarrow> round" where
  "translate_insn H rv lui_const insn =
     (if insn = 0 then Failed Assert_failed
      else case rv_decode default_features insn zero_insn of
        None \<Rightarrow> Failed Assert_failed
      | Some (False, ir) \<Rightarrow> Last (ir\<lparr>i_opcode := rv_insn_ttinsn, i_imm := rotr32 insn 2, i_mailbox := False\<rparr>) 4
      | Some (True, ir) \<Rightarrow>
          let len = (if is_compressed default_features insn then 2 else 4); ir = ir\<lparr>i_mailbox := False\<rparr> in
          if has_tensix rv \<and> is_mailbox_lw rv lui_const ir then Last (ir\<lparr>i_mailbox := True\<rparr>) len
          else if insn_is_branch (i_opcode ir) then
            if insn_is_indirect_branch (i_opcode ir) \<and> \<not> table_calloc H then Failed No_memory else Last ir len
          else More ir len)"

partial_function (option) translate_loop ::
  "'e riscv_io \<Rightarrow> host \<Rightarrow> 'e riscv \<Rightarrow> (u8 \<Rightarrow> u32) \<Rightarrow> block \<Rightarrow> translation option" where
  "translate_loop io H rv lui_const b =
     (if \<not> ir_calloc H (length (irs b)) then Some No_memory
      else case translate_insn H rv lui_const (mem_ifetch io rv (pc_end b)) of
        Failed t \<Rightarrow> Some t
      | Last ir len \<Rightarrow> Some (Translated (add_node ir len b))
      | More ir len \<Rightarrow>
          translate_loop io H rv (if has_tensix rv then track_lui ir lui_const else lui_const) (add_node ir len b))"

definition block_translate :: "'e riscv_io \<Rightarrow> host \<Rightarrow> 'e riscv \<Rightarrow> block \<Rightarrow> translation option" where
  "block_translate io H rv b = translate_loop io H rv (\<lambda>_. 0) (b\<lparr>pc_start := PC rv, pc_end := PC rv\<rparr>)"

section \<open>Finding or translating\<close>

text \<open>The fields of a core that block execution uses beside the machine state: the block map and the
  previous block, a pointer represented by the start address.\<close>

record 'e core =
  cpu :: "'e riscv"
  bmap :: block_map
  prev :: "u32 option"

text \<open>The result is the block or NULL, with the new state; None if the call does not return or an
  assertion fails.\<close>

definition block_find_or_translate :: "'e riscv_io \<Rightarrow> host \<Rightarrow> 'e core \<Rightarrow> (block option \<times> 'e core) option" where
  "block_find_or_translate io H c =
     (case block_find (bmap c) (PC (cpu c)) of
        None \<Rightarrow> None
      | Some (Some b) \<Rightarrow> Some (Some b, c)
      | Some None \<Rightarrow>
          let c = (if must_clear (bmap c) then c\<lparr>bmap := block_map_clear (bmap c), prev := None\<rparr> else c) in
          if \<not> block_calloc H then Some (None, c)
          else case block_translate io H (cpu c) block_alloc of
            None \<Rightarrow> None
          | Some Assert_failed \<Rightarrow> None
          | Some No_memory \<Rightarrow> Some (None, c)
          | Some (Translated b) \<Rightarrow>
              (case optimize_constant (cpu c) (irs b) of
                 None \<Rightarrow> None
               | Some nodes \<Rightarrow>
                   let nodes = match_pattern (fuse_malloc H) nodes;
                       b = b\<lparr>irs := nodes, n_insn := of_nat (length nodes)\<rparr> in
                   map_option (\<lambda>m. (Some b, c\<lparr>bmap := m\<rparr>)) (block_insert (bmap c) b)))"

section \<open>What translation produces\<close>

lemma case_Some: "(case x of None \<Rightarrow> Some a | Some y \<Rightarrow> Some (g y)) \<noteq> None"
  by (cases x) auto

lemma switch_Some [simp]: "switch arms k ir \<noteq> None"
  unfolding switch_def legal_def illegal_def by (rule case_Some)

lemma op_system_Some: "op_system f insn ir \<noteq> None"
  unfolding op_system_def illegal_def Let_def by (rule case_Some)

lemma op_total:
  "d \<in> {op_load, op_load_fp, op_misc_mem, op_auipc, op_store, op_store_fp, op_amo, op_lui, op_madd, op_msub, op_nmsub,
     op_nmadd, op_op_fp, op_branch, op_jalr, op_jal, op_unimp, op_op, op_op_imm}
   \<Longrightarrow> d f insn ir \<noteq> None"
  by (elim insertE emptyE)
    (simp_all add: decoders_32 legal_def illegal_def Let_def op_imm_slli_def op_imm_srli_def del: not_None_eq)

lemma table_32_total: "d \<in> set (rv_jump_table f) \<Longrightarrow> d f insn ir \<noteq> None"
  using op_total[of d f insn ir] op_system_Some[of f insn ir]
  by (auto simp: rv_jump_table_def if_built_def simp del: not_None_eq split: if_splits)

lemma rv_decode_total: "EXT_TT f \<Longrightarrow> rv_decode f insn ir \<noteq> None"
  by (cases rule: rv_decode_cases[of f insn ir])
    (use table_32_total in \<open>auto simp: rv32e_check_def illegal_def is_compressed_def simp del: not_None_eq\<close>)

text \<open>The nodes of a translated block: each is the decoded word at its address, or a Tensix instruction.\<close>

inductive node_at :: "'e riscv_io \<Rightarrow> 'e riscv \<Rightarrow> rv_insn \<Rightarrow> bool" for io rv where
  node_insn: "rv_decode default_features (mem_ifetch io rv pc) zero_insn = Some (True, ir)
    \<Longrightarrow> (mb \<Longrightarrow> i_opcode ir = Base rv_insn_lw) \<Longrightarrow> node_at io rv (ir\<lparr>i_mailbox := mb, i_pc := pc\<rparr>)"
| node_tensix: "rv_decode default_features (mem_ifetch io rv pc) zero_insn = Some (False, ir)
    \<Longrightarrow> node_at io rv (ir\<lparr>i_opcode := rv_insn_ttinsn, i_imm := rotr32 (mem_ifetch io rv pc) 2, i_mailbox := False, i_pc := pc\<rparr>)"

definition ends_block :: "rv_insn \<Rightarrow> bool" where
  "ends_block ir \<longleftrightarrow> insn_is_branch (i_opcode ir) \<or> i_mailbox ir \<or> i_opcode ir = rv_insn_ttinsn"

definition block_of :: "'e riscv_io \<Rightarrow> 'e riscv \<Rightarrow> block \<Rightarrow> bool" where
  "block_of io rv b \<longleftrightarrow> placed (pc_start b) (irs b) \<and> list_all (node_at io rv) (irs b)
     \<and> list_all (\<lambda>ir. i_mailbox ir \<longrightarrow> has_tensix rv) (irs b)
     \<and> n_insn b = of_nat (length (irs b)) \<and> pc_end b = pc_start b + 4 * of_nat (length (irs b))"

lemma default_TT [simp]: "EXT_TT default_features" "\<not> is_compressed default_features insn" "\<not> RV32E default_features"
  by (simp_all add: default_features_def is_compressed_def)

lemma decoded_full:
  assumes "rv_decode default_features insn zero_insn = Some (True, ir)"
  shows "Decode_Safety.built default_features (i_opcode ir) \<and> insn_len (i_opcode ir) = 4"
proof (cases rule: rv_decode_cases[of default_features insn zero_insn])
  case tt
  with assms show ?thesis by (simp add: rv32e_check_def illegal_def)
next
  case (rv32 d)
  have "full default_features zero_insn"
    by (simp add: zero_insn_def default_features_def insn_len_def)
  moreover have "d default_features insn zero_insn = Some (True, ir)" using rv32(4) assms by (simp add: rv32e_check_def)
  ultimately show ?thesis using table_32_full[OF rv32(3), of zero_insn insn] by simp
qed simp

lemma decoded_len: "rv_decode default_features insn zero_insn = Some (True, ir) \<Longrightarrow> insn_len (i_opcode ir) = 4"
  using decoded_full by blast

lemma placed_snoc:
  assumes "\<forall>ir \<in> set xs. insn_len (i_opcode ir) = 4"
  shows "placed pc (xs @ [ir]) \<longleftrightarrow> placed pc xs \<and> i_pc ir = pc + 4 * of_nat (length xs)"
  using assms by (induction xs arbitrary: pc) (auto simp: algebra_simps)

lemma node_len: "node_at io rv ir \<Longrightarrow> insn_len (i_opcode ir) = 4"
  by (induction rule: node_at.induct) (auto dest: decoded_len simp: insn_len_def)

lemma fold_ok_node:
  "fold_ok ir \<Longrightarrow> (mb \<Longrightarrow> i_opcode ir = Base rv_insn_lw) \<Longrightarrow> fold_ok (ir\<lparr>i_mailbox := mb, i_pc := p\<rparr>)"
  by (cases mb; cases "i_opcode ir") (simp_all add: fold_ok_def del: insert_iff split del: if_split cong: if_cong)

lemma node_fold_ok: "node_at io rv ir \<Longrightarrow> fold_ok ir \<or> i_opcode ir = RvA rv_insn_scw"
proof (induction rule: node_at.induct)
  case (node_insn pc ir mb)
  from decode_fold_ok[OF _ node_insn(1)] have "fold_ok ir \<or> i_opcode ir = RvA rv_insn_scw" by (simp add: decoded_ok_def)
  with fold_ok_node[of ir mb pc] node_insn(2) show ?case by auto
qed (simp add: fold_ok_def)

text \<open>One round adds such a node.\<close>

definition round_ok :: "'e riscv_io \<Rightarrow> 'e riscv \<Rightarrow> u32 \<Rightarrow> round \<Rightarrow> bool" where
  "round_ok io rv pc r = (case r of
     Last ir len \<Rightarrow> len = 4 \<and> node_at io rv (ir\<lparr>i_pc := pc\<rparr>) \<and> ends_block ir \<and> (i_mailbox ir \<longrightarrow> has_tensix rv)
   | More ir len \<Rightarrow> len = 4 \<and> node_at io rv (ir\<lparr>i_pc := pc\<rparr>) \<and> \<not> ends_block ir
   | Failed t \<Rightarrow> t = No_memory \<or> t = Assert_failed)"

lemma decoded_no_tt:
  assumes "rv_decode default_features insn zero_insn = Some (True, ir)"
  shows "i_opcode ir \<noteq> rv_insn_ttinsn"
  using decoded_full[OF assms] by (auto simp: Decode_Safety.built_def)

lemma translate_insn_ok: "round_ok io rv pc (translate_insn H rv lui_const (mem_ifetch io rv pc))"
proof -
  let ?w = "mem_ifetch io rv pc"
  obtain ok ir where d: "rv_decode default_features ?w zero_insn = Some (ok, ir)"
    using rv_decode_total[of default_features] by fastforce
  show ?thesis
  proof (cases "?w = 0")
    case True
    then show ?thesis by (simp add: translate_insn_def round_ok_def)
  next
    case w: False
    show ?thesis
    proof (cases ok)
      case False
      with node_tensix[of io rv pc ir] d w show ?thesis by (simp add: translate_insn_def round_ok_def ends_block_def)
    next
      case True
      with d have d: "rv_decode default_features ?w zero_insn = Some (True, ir)" by simp
      have n: "node_at io rv (ir\<lparr>i_mailbox := mb, i_pc := pc\<rparr>)" if "mb \<Longrightarrow> i_opcode ir = Base rv_insn_lw" for mb
        using d that by (rule node_insn)
      show ?thesis
        using n[of True] n[of False] w decoded_no_tt[OF d]
        by (simp add: translate_insn_def d round_ok_def ends_block_def is_mailbox_lw_def Let_def)
    qed
  qed
qed

section \<open>The loop\<close>

lemma block_of_add:
  assumes "block_of io rv b" "node_at io rv (ir\<lparr>i_pc := pc_end b\<rparr>)" "i_mailbox ir \<Longrightarrow> has_tensix rv"
  shows "block_of io rv (add_node ir 4 b)"
proof -
  have "\<forall>ir \<in> set (irs b). insn_len (i_opcode ir) = 4" using assms(1) node_len by (auto simp: block_of_def list_all_iff)
  then show ?thesis using assms by (simp add: block_of_def add_node_def placed_snoc algebra_simps)
qed

definition one_exit :: "rv_insn list \<Rightarrow> bool" where
  "one_exit nodes \<longleftrightarrow> nodes \<noteq> [] \<and> ends_block (last nodes) \<and> list_all (\<lambda>ir. \<not> ends_block ir) (butlast nodes)"

lemma ends_add [simp]: "ends_block (ir\<lparr>i_pc := p\<rparr>) = ends_block ir"
  by (simp add: ends_block_def)

lemma translate_loop_sound:
  assumes ret: "translate_loop io H rv lc b = Some (Translated b')"
    and b: "block_of io rv b" "list_all (\<lambda>ir. \<not> ends_block ir) (irs b)"
  shows "block_of io rv b' \<and> pc_start b' = pc_start b \<and> one_exit (irs b') \<and> tail_links b' = tail_links b \<and> branch_table b' = branch_table b"
proof -
  let ?P = "\<lambda>io' H rv' lc b r. \<forall>b'. io' = io \<longrightarrow> rv' = rv \<longrightarrow> r = Translated b' \<longrightarrow> block_of io rv b \<longrightarrow> list_all (\<lambda>ir. \<not> ends_block ir) (irs b)
      \<longrightarrow> block_of io rv b' \<and> pc_start b' = pc_start b \<and> one_exit (irs b') \<and> tail_links b' = tail_links b \<and> branch_table b' = branch_table b"
  have "?P io H rv lc b (Translated b')"
  proof (rule translate_loop.raw_induct[where P = ?P, OF _ ret], intro allI impI)
    fix f io' H rv' lc b r b'
    assume IH: "\<And>io' H rv' lc b r. f io' H rv' lc b = Some r \<Longrightarrow> ?P io' H rv' lc b r"
      and eq: "(if \<not> ir_calloc H (length (irs b)) then Some No_memory
        else case translate_insn H rv' lc (mem_ifetch io' rv' (pc_end b)) of Last ir len \<Rightarrow> Some (Translated (add_node ir len b))
          | More ir len \<Rightarrow> f io' H rv' (if has_tensix rv' then track_lui ir lc else lc) (add_node ir len b)
          | Failed t \<Rightarrow> Some t) = Some r"
      and h: "io' = io" "rv' = rv" "r = Translated b'" "block_of io rv b" "list_all (\<lambda>ir. \<not> ends_block ir) (irs b)"
    have ok: "round_ok io rv (pc_end b) (translate_insn H rv lc (mem_ifetch io rv (pc_end b)))" by (rule translate_insn_ok)
    show "block_of io rv b' \<and> pc_start b' = pc_start b \<and> one_exit (irs b') \<and> tail_links b' = tail_links b \<and> branch_table b' = branch_table b"
    proof (cases "translate_insn H rv lc (mem_ifetch io rv (pc_end b))")
      case (Last ir len)
      with ok eq h have "b' = add_node ir 4 b" "node_at io rv (ir\<lparr>i_pc := pc_end b\<rparr>)" "ends_block ir"
        "i_mailbox ir \<longrightarrow> has_tensix rv"
        by (auto simp: round_ok_def split: if_splits)
      with h(4,5) block_of_add show ?thesis by (auto simp: add_node_def one_exit_def)
    next
      case (More ir len)
      with ok eq h have f: "f io H rv (if has_tensix rv then track_lui ir lc else lc) (add_node ir 4 b) = Some (Translated b')"
        and "node_at io rv (ir\<lparr>i_pc := pc_end b\<rparr>)" "\<not> ends_block ir"
        by (auto simp: round_ok_def split: if_splits)
      then show ?thesis using IH[OF f] block_of_add[OF h(4)] h(5) by (auto simp: add_node_def ends_block_def)
    next
      case (Failed t)
      with ok eq h show ?thesis by (auto simp: round_ok_def split: if_splits)
    qed
  qed
  with b show ?thesis by blast
qed

text \<open>Words that end a block, whatever came before them.\<close>

definition stops :: "u32 \<Rightarrow> bool" where
  "stops w \<longleftrightarrow> (case rv_decode default_features w zero_insn of
     Some (False, _) \<Rightarrow> True | Some (True, ir) \<Rightarrow> insn_is_branch (i_opcode ir) | None \<Rightarrow> False)"

definition no_failure :: "host \<Rightarrow> bool" where
  "no_failure H \<longleftrightarrow> block_calloc H \<and> table_calloc H \<and> (\<forall>n. ir_calloc H n) \<and> (\<forall>n. fuse_malloc H n)"

lemma translate_insn_stops: "no_failure H \<Longrightarrow> w \<noteq> 0 \<Longrightarrow> stops w \<Longrightarrow> \<exists>ir len. translate_insn H rv lc w = Last ir len"
  by (auto simp: translate_insn_def stops_def no_failure_def Let_def split: option.splits prod.splits bool.splits)

lemma translate_insn_returns: "no_failure H \<Longrightarrow> w \<noteq> 0 \<Longrightarrow> translate_insn H rv lc w \<noteq> Failed t"
  using rv_decode_total[of default_features w zero_insn]
  by (auto simp: translate_insn_def no_failure_def Let_def split: option.splits bool.splits)

lemma translate_loop_returns:
  assumes "no_failure H" "\<forall>k \<le> n. mem_ifetch io rv (pc_end b + 4 * of_nat k) \<noteq> 0"
    and "stops (mem_ifetch io rv (pc_end b + 4 * of_nat n))"
  shows "\<exists>b'. translate_loop io H rv lc b = Some (Translated b') \<and> length (irs b') \<le> length (irs b) + Suc n"
  using assms
proof (induction n arbitrary: lc b)
  case 0
  then obtain ir len where "translate_insn H rv lc (mem_ifetch io rv (pc_end b)) = Last ir len"
    using translate_insn_stops by fastforce
  with 0 show ?case by (subst translate_loop.simps) (auto simp: no_failure_def add_node_def)
next
  case (Suc n)
  let ?r = "translate_insn H rv lc (mem_ifetch io rv (pc_end b))"
  have w: "mem_ifetch io rv (pc_end b) \<noteq> 0" using Suc.prems(2)[rule_format, of 0] by simp
  have H: "ir_calloc H (length (irs b))" using Suc.prems(1) by (simp add: no_failure_def)
  show ?case
  proof (cases ?r)
    case (Last ir len)
    with H show ?thesis by (subst translate_loop.simps) (auto simp: add_node_def)
  next
    case (More ir len)
    then have len: "len = 4" using translate_insn_ok[of io rv "pc_end b" H lc] by (simp add: round_ok_def)
    let ?b = "add_node ir 4 b"
    have p: "pc_end ?b + 4 * of_nat k = pc_end b + 4 * of_nat (Suc k)" for k by (simp add: add_node_def algebra_simps)
    have "\<exists>b'. translate_loop io H rv (if has_tensix rv then track_lui ir lc else lc) ?b = Some (Translated b')
        \<and> length (irs b') \<le> length (irs ?b) + Suc n"
      by (rule Suc.IH) (use Suc.prems in \<open>auto simp: p simp del: of_nat_Suc\<close>)
    with H More len show ?thesis by (subst translate_loop.simps) (auto simp: add_node_def)
  next
    case (Failed t)
    with translate_insn_returns[OF Suc.prems(1) w, of rv lc t] show ?thesis by simp
  qed
qed

lemma block_translate_sound:
  assumes "block_translate io H rv block_alloc = Some (Translated b)"
  shows "block_of io rv b \<and> pc_start b = PC rv \<and> one_exit (irs b) \<and> tail_links b = no_links \<and> branch_table b = new_history"
  using translate_loop_sound[OF assms[unfolded block_translate_def]]
  by (auto simp: block_of_def block_alloc_def)

text \<open>C9: translation stops at the first instruction that must end a block.  If the \<^term>\<open>n\<close>-th word after the
  program counter is a branch or no RISC-V instruction, no word up to there is 0 and the host has memory,
  then \<^verbatim>\<open>block_translate\<close> returns a block of at most \<^term>\<open>n + 1\<close> nodes.  It starts at the program counter, its
  nodes are the decoded words at consecutive addresses, and exactly the last one is a branch, a Tensix
  instruction or a mailbox load.\<close>

theorem block_translate_returns:
  assumes "no_failure H" "\<forall>k \<le> n. mem_ifetch io rv (PC rv + 4 * of_nat k) \<noteq> 0"
    and "stops (mem_ifetch io rv (PC rv + 4 * of_nat n))"
  shows "\<exists>b. block_translate io H rv block_alloc = Some (Translated b) \<and> length (irs b) \<le> Suc n
    \<and> pc_start b = PC rv \<and> pc_end b = PC rv + 4 * of_nat (length (irs b)) \<and> n_insn b = of_nat (length (irs b))
    \<and> placed (PC rv) (irs b) \<and> list_all (node_at io rv) (irs b)
    \<and> ends_block (last (irs b)) \<and> list_all (\<lambda>ir. \<not> ends_block ir) (butlast (irs b))"
proof -
  obtain b where b: "block_translate io H rv block_alloc = Some (Translated b)" "length (irs b) \<le> Suc n"
    using translate_loop_returns[OF assms(1), of n io rv "block_alloc\<lparr>pc_start := PC rv, pc_end := PC rv\<rparr>" "\<lambda>_. 0"] assms(2,3)
    by (auto simp: block_translate_def block_alloc_def)
  with block_translate_sound[OF b(1)] show ?thesis by (auto simp: block_of_def one_exit_def)
qed

text \<open>A memory that holds \<^verbatim>\<open>addi x5, x5, 1\<close> everywhere but at address 8, where there is \<^verbatim>\<open>jal x0, -8\<close>.\<close>

definition demo_host :: host where
  "demo_host = \<lparr>block_calloc = True, ir_calloc = \<lambda>_. True, table_calloc = True, fuse_malloc = \<lambda>_. True\<rparr>"

definition demo_io :: "unit riscv_io" where
  "demo_io = (m_io unit_ops)\<lparr>mem_ifetch := \<lambda>_ a. if a = 8 then 0xFF9FF06F else 0x00128293\<rparr>"

theorem block_translate_returns_witness:
  "\<exists>b. block_translate demo_io demo_host (zero_riscv ()) block_alloc = Some (Translated b) \<and> pc_start b = 0
     \<and> length (irs b) \<le> 3 \<and> ends_block (last (irs b))"
proof -
  have "no_failure demo_host" by (simp add: no_failure_def demo_host_def)
  moreover have "\<forall>k \<le> 2. mem_ifetch demo_io (zero_riscv ()) (PC (zero_riscv ()) + 4 * of_nat k) \<noteq> 0"
    by (simp add: demo_io_def)
  moreover have "stops (mem_ifetch demo_io (zero_riscv ()) (PC (zero_riscv ()) + 4 * of_nat 2))"
  proof -
    have "stops 0xFF9FF06F" by code_simp
    then show ?thesis by (simp add: demo_io_def zero_riscv_def)
  qed
  ultimately show ?thesis using block_translate_returns[of demo_host 2 demo_io "zero_riscv ()"]
    by (auto simp: zero_riscv_def)
qed

section \<open>The passes together\<close>

definition same_exit :: "'e outcome \<Rightarrow> 'e outcome \<Rightarrow> bool" where
  "same_exit r s \<longleftrightarrow> same_landing r s \<or> (\<exists>rv1 rv2. r = Return False rv1 \<and> s = Return False rv2)"

lemma constopt_no_mailbox: "\<not> i_mailbox ir \<Longrightarrow> constopt_table (i_opcode ir) ir info = (ir', info') \<Longrightarrow> \<not> i_mailbox ir'"
proof -
  have base: "i_mailbox (fst (constopt_base_table b ir info)) \<Longrightarrow> i_mailbox ir" for b
    by (cases b) (auto simp: constopt_base_defs constopt_shapes split: if_splits)
  have c: "i_mailbox (fst (constopt_c_table b ir info)) \<Longrightarrow> i_mailbox ir" for b
    by (cases b) (auto simp: constopt_c_defs constopt_shapes Let_def split: if_splits)
  have m: "i_mailbox (fst (constopt_m_table b ir info)) \<Longrightarrow> i_mailbox ir" for b
    by (cases b) (auto simp: constopt_m_defs constopt_shapes split: if_splits)
  have zb: "i_mailbox (fst (constopt_zb_table b ir info)) \<Longrightarrow> i_mailbox ir" for b
    by (cases b) (auto simp: constopt_shapes split: if_splits)
  have a: "i_mailbox (fst (constopt_a_table b ir info)) \<Longrightarrow> i_mailbox ir" for b
    by (cases b) (auto simp: constopt_shapes split: if_splits)
  have f: "i_mailbox (fst (constopt_f_table b ir info)) \<Longrightarrow> i_mailbox ir" for b
    by (cases b) (auto simp: constopt_shapes split: if_splits)
  have zi: "i_mailbox (fst (constopt_zi_table b ir info)) \<Longrightarrow> i_mailbox ir" for b
    by (cases b) (auto simp: constopt_shapes split: if_splits)
  have p: "i_mailbox (fst (constopt_priv_table b ir info)) \<Longrightarrow> i_mailbox ir" for b
    by (cases b) (auto simp: constopt_shapes split: if_splits)
  have "i_mailbox (fst (constopt_table (i_opcode ir) ir info)) \<Longrightarrow> i_mailbox ir"
    by (cases "i_opcode ir") (auto simp: keep_def dest: base c m zb a f zi p)
  then show "\<not> i_mailbox ir \<Longrightarrow> constopt_table (i_opcode ir) ir info = (ir', info') \<Longrightarrow> \<not> i_mailbox ir'" by auto
qed

lemma opt_nodes_no_mailbox: "no_mailbox nodes \<Longrightarrow> no_mailbox (opt_nodes nodes info)"
  by (induction nodes arbitrary: info) (auto simp: no_mailbox_def constopt_no_mailbox split: prod.splits)

lemma length_opt_nodes [simp]: "length (opt_nodes nodes info) = length nodes"
  by (induction nodes arbitrary: info) (auto split: prod.splits)

lemma passes_same:
  assumes "X rv 0 = 0" "list_all fold_ok nodes" "placed pc nodes" "branch_last nodes" "no_mailbox nodes" "length nodes \<le> 256"
  shows "same_exit (exec_nodes M lk (match_pattern ml (opt_nodes nodes start_info)) c pc rv) (exec_nodes M lk nodes c pc rv)"
proof -
  have 1: "same_landing (exec_nodes M lk (opt_nodes nodes start_info) c pc rv) (exec_nodes M lk nodes c pc rv)"
    using opt_nodes_same[OF agrees_start[OF assms(1)] assms(2-4)] .
  have 2: "same_or_trap (exec_nodes M lk (match_pattern ml (opt_nodes nodes start_info)) c pc rv) (exec_nodes M lk (opt_nodes nodes start_info) c pc rv)"
    using match_pattern_same[OF opt_nodes_no_mailbox[OF assms(5)]] assms(6) by simp
  from 2[unfolded same_or_trap_def] 1 show ?thesis
    by (auto simp: same_exit_def same_landing_def)
qed

end
