(* ===== verification/Bounded_Fifo.thy ===== *)
theory Bounded_Fifo
  imports Prelude
begin

text \<open>
  The interface of a bounded first-in first-out queue.  Two components of the Tensix model provide
  it: the 32-entry instruction FIFO of each coprocessor thread (\<^verbatim>\<open>tt_cop/tensix_cop.c\<close>) and the
  sixteen 4-entry mailbox FIFOs between the cores of a tile (\<^verbatim>\<open>tt_cop/mailbox.c\<close>).  The laws are
  stated through an abstraction to the list of queued elements, oldest first; the client lemmas
  compare whole traces of operations with the abstract bounded queue.
\<close>

text \<open>One operation of a client, and its answer: a push says whether the element was taken, a pop
  delivers the oldest element if there is one.\<close>

datatype 'a fifo_op = Push 'a | Pop

datatype 'a fifo_ans = Pushed bool | Popped "'a option"

text \<open>The abstract bounded queue.\<close>

fun spec_op :: "nat \<Rightarrow> 'a list \<Rightarrow> 'a fifo_op \<Rightarrow> 'a fifo_ans \<times> 'a list" where
  "spec_op n q (Push x) = (if length q < n then (Pushed True, q @ [x]) else (Pushed False, q))"
| "spec_op n [] Pop = (Popped None, [])"
| "spec_op n (x # q) Pop = (Popped (Some x), q)"

fun spec_run :: "nat \<Rightarrow> 'a list \<Rightarrow> 'a fifo_op list \<Rightarrow> 'a fifo_ans list \<times> 'a list" where
  "spec_run n q [] = ([], q)"
| "spec_run n q (c # cs) =
     (let (a, q') = spec_op n q c; (as, q'') = spec_run n q' cs in (a # as, q''))"

text \<open>Running a trace on an implementation given by its push and pop.\<close>

fun fifo_step :: "('f \<Rightarrow> 'a \<Rightarrow> bool \<times> 'f) \<Rightarrow> ('f \<Rightarrow> ('a \<times> 'f) option) \<Rightarrow> 'f \<Rightarrow> 'a fifo_op
    \<Rightarrow> 'a fifo_ans \<times> 'f" where
  "fifo_step push pop f (Push x) = (let (b, f') = push f x in (Pushed b, f'))"
| "fifo_step push pop f Pop =
     (case pop f of None \<Rightarrow> (Popped None, f) | Some (x, f') \<Rightarrow> (Popped (Some x), f'))"

fun fifo_run :: "('f \<Rightarrow> 'a \<Rightarrow> bool \<times> 'f) \<Rightarrow> ('f \<Rightarrow> ('a \<times> 'f) option) \<Rightarrow> 'f \<Rightarrow> 'a fifo_op list
    \<Rightarrow> 'a fifo_ans list \<times> 'f" where
  "fifo_run push pop f [] = ([], f)"
| "fifo_run push pop f (c # cs) =
     (let (a, f') = fifo_step push pop f c; (as, f'') = fifo_run push pop f' cs
      in (a # as, f''))"

text \<open>The elements a trace accepted, and those it delivered.\<close>

fun accepted :: "'a fifo_op list \<Rightarrow> 'a fifo_ans list \<Rightarrow> 'a list" where
  "accepted (Push x # cs) (Pushed True # as) = x # accepted cs as"
| "accepted (_ # cs) (_ # as) = accepted cs as"
| "accepted _ _ = []"

fun delivered :: "'a fifo_ans list \<Rightarrow> 'a list" where
  "delivered (Popped (Some x) # as) = x # delivered as"
| "delivered (_ # as) = delivered as"
| "delivered [] = []"

lemma spec_op_bounded: "length q \<le> n \<Longrightarrow> length (snd (spec_op n q c)) \<le> n"
  by (cases "(n, q, c)" rule: spec_op.cases) auto

text \<open>Order: what went in is what came out followed by what is still queued.\<close>

lemma spec_run_order:
  "spec_run n q cs = (as, q') \<Longrightarrow> q @ accepted cs as = delivered as @ q'"
proof (induction n q cs arbitrary: as q' rule: spec_run.induct)
  case (2 n q c cs)
  then show ?case
    by (cases "(n, q, c)" rule: spec_op.cases)
      (fastforce split: if_splits prod.splits)+
qed simp

locale bounded_fifo =
  fixes wf :: "'f \<Rightarrow> bool"
    and abs :: "'f \<Rightarrow> 'a list"
    and cap :: nat
    and push :: "'f \<Rightarrow> 'a \<Rightarrow> bool \<times> 'f"
    and pop :: "'f \<Rightarrow> ('a \<times> 'f) option"
  assumes abs_bound: "wf f \<Longrightarrow> length (abs f) \<le> cap"
    and push_full: "wf f \<Longrightarrow> length (abs f) = cap \<Longrightarrow> push f x = (False, f)"
    and push_room: "wf f \<Longrightarrow> length (abs f) < cap \<Longrightarrow>
      \<exists>f'. push f x = (True, f') \<and> wf f' \<and> abs f' = abs f @ [x]"
    and pop_empty: "wf f \<Longrightarrow> abs f = [] \<Longrightarrow> pop f = None"
    and pop_some: "wf f \<Longrightarrow> abs f = x # xs \<Longrightarrow>
      \<exists>f'. pop f = Some (x, f') \<and> wf f' \<and> abs f' = xs"
begin

lemma push_cases:
  assumes "wf f"
  obtains (room) f' where "length (abs f) < cap" "push f x = (True, f')" "wf f'"
      "abs f' = abs f @ [x]"
  | (full) "length (abs f) = cap" "push f x = (False, f)"
  using assms abs_bound push_full push_room by (metis le_neq_implies_less)

lemma pop_cases:
  assumes "wf f"
  obtains (empty) "abs f = []" "pop f = None"
  | (some) x f' where "abs f = x # abs f'" "pop f = Some (x, f')" "wf f'"
  using assms pop_empty pop_some by (metis list.exhaust)

lemma wf_push: "wf f \<Longrightarrow> wf (snd (push f x))"
  by (rule push_cases[of f x]) auto

lemma wf_pop: "wf f \<Longrightarrow> pop f = Some (x, f') \<Longrightarrow> wf f'"
  by (rule pop_cases[of f]) auto

lemma pop_Some_abs: "wf f \<Longrightarrow> pop f = Some (x, f') \<Longrightarrow> abs f = x # abs f'"
  by (rule pop_cases[of f]) auto

lemma pop_None_iff: "wf f \<Longrightarrow> pop f = None \<longleftrightarrow> abs f = []"
  by (rule pop_cases[of f]) auto

lemma push_succeeds_iff: "wf f \<Longrightarrow> fst (push f x) \<longleftrightarrow> length (abs f) < cap"
  by (rule push_cases[of f x]) auto

lemma op_refines:
  assumes "wf f" "fifo_step push pop f c = (a, f')"
  shows "wf f' \<and> spec_op cap (abs f) c = (a, abs f')"
proof (cases c)
  case (Push x)
  with assms show ?thesis by - (rule push_cases[of f x], auto)
next
  case Pop
  with assms show ?thesis by - (rule pop_cases[of f], auto)
qed

lemma run_refines:
  "wf f \<Longrightarrow> fifo_run push pop f cs = (as, f') \<Longrightarrow> wf f' \<and> spec_run cap (abs f) cs = (as, abs f')"
proof (induction cs arbitrary: f as)
  case (Cons c cs)
  obtain a f1 where 1: "fifo_step push pop f c = (a, f1)" by fastforce
  then have "wf f1" "spec_op cap (abs f) c = (a, abs f1)"
    using op_refines Cons.prems(1) by blast+
  with Cons 1 show ?case by (auto split: prod.splits)
qed simp

lemma run_order:
  "wf f \<Longrightarrow> fifo_run push pop f cs = (as, f') \<Longrightarrow> abs f @ accepted cs as = delivered as @ abs f'"
  using run_refines spec_run_order by blast

end

end
