(* ===== verification/Tensix_Fifo.thy ===== *)
theory Tensix_Fifo
  imports Bounded_Fifo
begin

text \<open>
  The instruction FIFO of a coprocessor thread (\<^verbatim>\<open>tensix_fifo_t\<close> and its operations in
  \<^verbatim>\<open>tt_cop/tensix_cop.h\<close>, \<^verbatim>\<open>tt_cop/tensix_cop.c\<close>): a 32-entry ring buffer with separate read and
  write indices and a count.  It is shown to implement the bounded-queue interface.
\<close>

definition TENSIX_FIFO_SIZE :: u32 where
  "TENSIX_FIFO_SIZE = 32"

record tensix_fifo =
  fifo_buffer :: "u32 list"
  fifo_head :: u32
  fifo_tail :: u32
  fifo_count :: u32

definition tensix_fifo_init :: tensix_fifo where
  "tensix_fifo_init =
     \<lparr>fifo_buffer = replicate 32 0, fifo_head = 0, fifo_tail = 0, fifo_count = 0\<rparr>"

definition tensix_fifo_is_empty :: "tensix_fifo \<Rightarrow> bool" where
  "tensix_fifo_is_empty fifo = (fifo_count fifo = 0)"

definition tensix_fifo_is_full :: "tensix_fifo \<Rightarrow> bool" where
  "tensix_fifo_is_full fifo = (fifo_count fifo \<ge> TENSIX_FIFO_SIZE)"

definition tensix_fifo_push :: "tensix_fifo \<Rightarrow> u32 \<Rightarrow> bool \<times> tensix_fifo" where
  "tensix_fifo_push fifo insn =
     (if tensix_fifo_is_full fifo then (False, fifo)
      else (True, fifo\<lparr>fifo_buffer := (fifo_buffer fifo)[unat (fifo_tail fifo) := insn],
                       fifo_tail := (fifo_tail fifo + 1) mod TENSIX_FIFO_SIZE,
                       fifo_count := fifo_count fifo + 1\<rparr>))"

definition tensix_fifo_pop :: "tensix_fifo \<Rightarrow> (u32 \<times> tensix_fifo) option" where
  "tensix_fifo_pop fifo =
     (if tensix_fifo_is_empty fifo then None
      else Some (fifo_buffer fifo ! unat (fifo_head fifo),
                 fifo\<lparr>fifo_head := (fifo_head fifo + 1) mod TENSIX_FIFO_SIZE,
                      fifo_count := fifo_count fifo - 1\<rparr>))"

definition tensix_fifo_count :: "tensix_fifo \<Rightarrow> u32" where
  "tensix_fifo_count fifo = fifo_count fifo"

text \<open>The invariant of the ring, and the queue it stands for.\<close>

definition fifo_wf :: "tensix_fifo \<Rightarrow> bool" where
  "fifo_wf f \<longleftrightarrow> length (fifo_buffer f) = 32 \<and> unat (fifo_head f) < 32 \<and> unat (fifo_count f) \<le> 32
     \<and> unat (fifo_tail f) = (unat (fifo_head f) + unat (fifo_count f)) mod 32"

definition fifo_abs :: "tensix_fifo \<Rightarrow> u32 list" where
  "fifo_abs f = ring (fifo_buffer f) (unat (fifo_head f)) (unat (fifo_count f))"

lemma unat_succ_mod_32:
  "unat x < 32 \<Longrightarrow> unat ((x + 1) mod 32) = Suc (unat x) mod 32" for x :: u32
  by (simp add: unat_mod unat_word_ariths)

lemma length_fifo_abs [simp]: "length (fifo_abs f) = unat (fifo_count f)"
  by (simp add: fifo_abs_def)

lemma fifo_is_full_iff:
  "fifo_wf f \<Longrightarrow> tensix_fifo_is_full f \<longleftrightarrow> length (fifo_abs f) = 32"
  by (auto simp: tensix_fifo_is_full_def TENSIX_FIFO_SIZE_def fifo_wf_def word_le_nat_alt)

lemma fifo_is_empty_iff: "tensix_fifo_is_empty f \<longleftrightarrow> fifo_abs f = []"
  by (simp add: tensix_fifo_is_empty_def fifo_abs_def unat_eq_0)

lemma fifo_init_wf [simp]: "fifo_wf tensix_fifo_init" "fifo_abs tensix_fifo_init = []"
  by (simp_all add: fifo_wf_def fifo_abs_def tensix_fifo_init_def)

lemma fifo_push_room:
  assumes "fifo_wf f" "unat (fifo_count f) < 32"
  shows "\<exists>f'. tensix_fifo_push f x = (True, f') \<and> fifo_wf f' \<and> fifo_abs f' = fifo_abs f @ [x]"
proof -
  have "\<not> tensix_fifo_is_full f"
    using assms by (simp add: fifo_is_full_iff)
  moreover have "unat (fifo_count f + 1) = Suc (unat (fifo_count f))"
    using assms(2) by (simp add: unat_word_ariths)
  moreover have "unat (fifo_tail f) < 32"
    using assms(1) by (simp add: fifo_wf_def)
  ultimately show ?thesis
    using assms ring_push[of "unat (fifo_count f)" "fifo_buffer f" "unat (fifo_head f)" x]
    by (auto simp: tensix_fifo_push_def fifo_wf_def fifo_abs_def TENSIX_FIFO_SIZE_def
        unat_succ_mod_32 mod_simps)
qed

lemma fifo_pop_some:
  assumes "fifo_wf f" "fifo_abs f = x # xs"
  shows "\<exists>f'. tensix_fifo_pop f = Some (x, f') \<and> fifo_wf f' \<and> fifo_abs f' = xs"
proof -
  obtain n where n: "unat (fifo_count f) = Suc n"
    using assms(2) length_fifo_abs[of f] by (cases "unat (fifo_count f)") auto
  then have c: "unat (fifo_count f - 1) = n"
    by (subst unat_sub) (auto simp: word_le_nat_alt)
  have "\<not> tensix_fifo_is_empty f"
    using assms(2) by (simp add: fifo_is_empty_iff)
  then show ?thesis
    using assms n c ring_pop[of "unat (fifo_head f)" "fifo_buffer f" n]
    by (auto simp: tensix_fifo_pop_def fifo_wf_def fifo_abs_def TENSIX_FIFO_SIZE_def
        unat_succ_mod_32 mod_simps)
qed

interpretation tfifo: bounded_fifo fifo_wf fifo_abs 32 tensix_fifo_push tensix_fifo_pop
proof
  show "length (fifo_abs f) \<le> 32" if "fifo_wf f" for f
    using that by (simp add: fifo_wf_def)
  show "tensix_fifo_push f x = (False, f)" if "fifo_wf f" "length (fifo_abs f) = 32" for f x
    using that by (simp add: tensix_fifo_push_def fifo_is_full_iff)
  show "\<exists>f'. tensix_fifo_push f x = (True, f') \<and> fifo_wf f' \<and> fifo_abs f' = fifo_abs f @ [x]"
    if "fifo_wf f" "length (fifo_abs f) < 32" for f x
    using that fifo_push_room by simp
  show "tensix_fifo_pop f = None" if "fifo_wf f" "fifo_abs f = []" for f
    using that by (simp add: tensix_fifo_pop_def fifo_is_empty_iff)
qed (rule fifo_pop_some)

lemmas fifo_wf_preserved [wf_intros] = tfifo.wf_push tfifo.wf_pop

section \<open>Properties\<close>

text \<open>C23: the instruction FIFO refines the abstract queue of capacity 32.  Started from any
  well-formed state, every sequence of pushes and pops gives the same answers (accepted or refused,
  delivered element or empty) as the abstract queue on the abstracted contents, and ends well-formed
  in a state that represents the abstract queue's final contents.\<close>

theorem tensix_fifo_refines_queue:
  assumes "fifo_wf f" "fifo_run tensix_fifo_push tensix_fifo_pop f cs = (as, f')"
  shows "fifo_wf f' \<and> spec_run 32 (fifo_abs f) cs = (as, fifo_abs f')"
  using assms by (rule tfifo.run_refines)

theorem tensix_fifo_refines_queue_witness:
  "fst (fifo_run tensix_fifo_push tensix_fifo_pop tensix_fifo_init [Push 7, Push 9, Pop, Pop, Pop])
     = fst (spec_run 32 [] [Push 7, Push 9, Pop, Pop, Pop])"
  using tensix_fifo_refines_queue[of tensix_fifo_init "[Push 7, Push 9, Pop, Pop, Pop]"]
  by (metis fifo_init_wf prod.collapse fst_conv)

end
