(* ===== verification/Tensix_State.thy ===== *)
theory Tensix_State
  imports Bytes Tensix_Fifo
begin

text \<open>
  The state of a Tensix tile's coprocessor: \<^verbatim>\<open>struct tensix\<close> of \<^verbatim>\<open>tt_cop/tensix.h\<close> and the
  per-thread and coprocessor structures of \<^verbatim>\<open>tt_cop/tensix_cop.h\<close>.  The two C structures point at
  each other (\<^verbatim>\<open>tt->cop\<close>, \<^verbatim>\<open>cop->core\<close>); here the coprocessor record owns the core record.
  \<^verbatim>\<open>tensix_init\<close> allocates the coprocessor, so the \<^verbatim>\<open>tt->cop\<close> NULL tests of the sources always
  succeed and have no counterpart.  Register files indexed by thread, bank, row, column or lane are
  functions of that index.  Register contents of C type \<^verbatim>\<open>float\<close> are kept as their 32-bit
  representation.  Fields of \<^verbatim>\<open>struct tensix\<close> that no C file reads or writes are left out.
\<close>

definition MUTEX_NONE :: u32 where "MUTEX_NONE = 0xff"
definition DMA_REG_COUNT :: u32 where "DMA_REG_COUNT = 64"
definition THD_REG_COUNT :: u32 where "THD_REG_COUNT = 57"
definition CFG_STATE_REGS :: u32 where "CFG_STATE_REGS = 56 * 4"
definition CFG_REG_COUNT :: u32 where "CFG_REG_COUNT = CFG_STATE_REGS * 2"
definition TENSIX_CFG_OFFSET_IN_HIGH_MEM :: u32 where "TENSIX_CFG_OFFSET_IN_HIGH_MEM = 0x3F0000"

lemmas cfg_consts = MUTEX_NONE_def DMA_REG_COUNT_def THD_REG_COUNT_def CFG_STATE_REGS_def
  CFG_REG_COUNT_def TENSIX_CFG_OFFSET_IN_HIGH_MEM_def

text \<open>A memory pointer is \<^verbatim>\<open>NULL\<close> (\<^const>\<open>None\<close>) or a region.\<close>

record tensix_memory =
  l1_scratchpad :: region
  high_mem :: "region option"
  t0_ldm :: "region option"
  t1_ldm :: "region option"
  t2_ldm :: "region option"

record AddrCtrl =
  ch0_x :: u32
  ch0_y :: u32
  ch0_z :: u32
  ch0_w :: u32
  ch1_x :: u32
  ch1_y :: u32
  ch1_z :: u32
  ch1_w :: u32
  x_end :: u32
  ch0_x_cr :: u32
  ch0_y_cr :: u32
  ch0_z_cr :: u32
  ch0_w_cr :: u32
  ch1_x_cr :: u32
  ch1_y_cr :: u32
  ch1_z_cr :: u32
  ch1_w_cr :: u32

text \<open>One entry of the SFPU predication stack.\<close>

type_synonym flag_entry = "(nat \<Rightarrow> bool) \<times> (nat \<Rightarrow> bool)"

record tensix =
  mem :: tensix_memory
  noc_xy :: u16
  srca :: "nat \<Rightarrow> nat \<Rightarrow> nat \<Rightarrow> u32"
  srcb :: "nat \<Rightarrow> nat \<Rightarrow> nat \<Rightarrow> u32"
  srca_dvalid :: "nat \<Rightarrow> bool"
  srcb_dvalid :: "nat \<Rightarrow> bool"
  srcb_zeroed :: "nat \<Rightarrow> bool"
  prng_state :: "nat \<Rightarrow> u32"
  unp_srca_bank :: u8
  unp_srcb_bank :: u8
  math_srca_bank :: u8
  math_srcb_bank :: u8
  last_unp_srca_bank :: u8
  mova2d_bank_valid :: bool
  dest :: "nat \<Rightarrow> nat \<Rightarrow> u32"
  dest_dvalid :: bool
  pack_l1_write_offset :: u32
  pack_l1_dest_addr_raw :: u32
  srca_rwc :: "nat \<Rightarrow> u32"
  srca_rwc_cr :: "nat \<Rightarrow> u32"
  srcb_rwc :: "nat \<Rightarrow> u32"
  srcb_rwc_cr :: "nat \<Rightarrow> u32"
  dest_rwc :: "nat \<Rightarrow> u32"
  dest_rwc_cr :: "nat \<Rightarrow> u32"
  fidelity :: "nat \<Rightarrow> u32"
  dest_offset :: u32
  adc :: "nat \<Rightarrow> AddrCtrl"
  mutex :: "nat \<Rightarrow> u32"
  sem :: "nat \<Rightarrow> u32"
  sem_max :: "nat \<Rightarrow> u32"
  thd_reg :: "nat \<Rightarrow> nat \<Rightarrow> u32"
  dma_reg :: "nat \<Rightarrow> nat \<Rightarrow> u32"
  lreg :: "nat \<Rightarrow> nat \<Rightarrow> u32"
  lane_flags :: "nat \<Rightarrow> bool"
  use_lane_flags :: "nat \<Rightarrow> bool"
  flag_stack :: "nat \<Rightarrow> flag_entry"
  flag_stack_top :: int
  neginf :: u32
  replay_buffer :: "nat \<Rightarrow> nat \<Rightarrow> u32"
  replay_index :: "nat \<Rightarrow> u32"
  replay_left :: "nat \<Rightarrow> u32"
  replay_execute_while_loading :: "nat \<Rightarrow> bool"
  replay_recording :: "nat \<Rightarrow> bool"
  replay_expanding :: "nat \<Rightarrow> bool"
  replay_expand_start :: "nat \<Rightarrow> u32"
  replay_expand_count :: "nat \<Rightarrow> u32"
  replay_expand_current :: "nat \<Rightarrow> u32"
  mailbox_fifo :: "nat \<Rightarrow> nat \<Rightarrow> u32 list"
  mailbox_head :: "nat \<Rightarrow> nat \<Rightarrow> int"
  mailbox_count :: "nat \<Rightarrow> nat \<Rightarrow> int"
  mailbox_stall :: "nat \<Rightarrow> bool"
  cores_in_kernel :: u8
  had_trisc_in_kernel :: bool
  dbg_array_rd_cmd :: u32

section \<open>Coprocessor threads\<close>

datatype thread_state =
    THREAD_STATE_IDLE
  | THREAD_STATE_RUNNING
  | THREAD_STATE_WAITING
  | THREAD_STATE_STALLED

record tensix_wait_gate =
  wg_active :: bool
  wg_opcode :: u32
  wg_condition_mask :: u32
  wg_block_mask :: u32
  wg_semaphore_mask :: u32
  wg_target_value :: u32
  wg_stream_select :: u32

record mop_expand_state =
  mop_active :: bool
  mop_tmpl :: u32
  tmpl0_mask :: u32
  tmpl0_i :: u32
  tmpl0_count :: u32
  tmpl0_sub :: u32
  tmpl0_num_sub :: u32
  tmpl0_sub_insns :: "u32 list"
  tmpl1_j :: u32
  tmpl1_i :: u32
  tmpl1_outer :: u32
  tmpl1_inner :: u32
  tmpl1_phase :: u32
  tmpl1_loop_op :: u32
  tmpl1_loop_op_flip :: u32

record tensix_thread_cop =
  insn_fifo :: tensix_fifo
  th_state :: thread_state
  wait_gate :: tensix_wait_gate
  current_insn :: u32
  has_current_insn :: bool
  direct_insn :: u32
  has_direct_insn :: bool
  stall_cycles :: u32
  mop_cfg :: "u32 list"
  zmask_hi16 :: u32
  mop_state :: mop_expand_state
  insn_executed :: u64
  cycles_idle :: u64
  cycles_waiting :: u64

record tensix_cop =
  threads :: "nat \<Rightarrow> tensix_thread_cop"
  core :: tensix
  halted :: bool
  total_cycles :: u64

text \<open>Structures filled with zero bytes by \<^verbatim>\<open>memset\<close>.\<close>

definition zero_wait_gate :: tensix_wait_gate where
  "zero_wait_gate = \<lparr>wg_active = False, wg_opcode = 0, wg_condition_mask = 0, wg_block_mask = 0,
     wg_semaphore_mask = 0, wg_target_value = 0, wg_stream_select = 0\<rparr>"

definition zero_mop_state :: mop_expand_state where
  "zero_mop_state = \<lparr>mop_active = False, mop_tmpl = 0, tmpl0_mask = 0, tmpl0_i = 0,
     tmpl0_count = 0, tmpl0_sub = 0, tmpl0_num_sub = 0, tmpl0_sub_insns = replicate 5 0,
     tmpl1_j = 0, tmpl1_i = 0, tmpl1_outer = 0, tmpl1_inner = 0, tmpl1_phase = 0,
     tmpl1_loop_op = 0, tmpl1_loop_op_flip = 0\<rparr>"

definition zero_thread :: tensix_thread_cop where
  "zero_thread = \<lparr>insn_fifo = tensix_fifo_init, th_state = THREAD_STATE_IDLE,
     wait_gate = zero_wait_gate, current_insn = 0, has_current_insn = False, direct_insn = 0,
     has_direct_insn = False, stall_cycles = 0, mop_cfg = replicate 9 0, zmask_hi16 = 0,
     mop_state = zero_mop_state, insn_executed = 0, cycles_idle = 0, cycles_waiting = 0\<rparr>"

definition zero_adc :: AddrCtrl where
  "zero_adc = \<lparr>ch0_x = 0, ch0_y = 0, ch0_z = 0, ch0_w = 0, ch1_x = 0, ch1_y = 0, ch1_z = 0, ch1_w = 0,
     x_end = 0, ch0_x_cr = 0, ch0_y_cr = 0, ch0_z_cr = 0, ch0_w_cr = 0, ch1_x_cr = 0, ch1_y_cr = 0,
     ch1_z_cr = 0, ch1_w_cr = 0\<rparr>"

text \<open>The state after \<^verbatim>\<open>memset(tt, 0, sizeof(tensix_t))\<close>, with the memory pointers given.\<close>

definition zero_tensix :: "tensix_memory \<Rightarrow> tensix" where
  "zero_tensix m = \<lparr>mem = m, noc_xy = 0, srca = (\<lambda>_ _ _. 0), srcb = (\<lambda>_ _ _. 0),
     srca_dvalid = (\<lambda>_. False), srcb_dvalid = (\<lambda>_. False), srcb_zeroed = (\<lambda>_. False),
     prng_state = (\<lambda>_. 0), unp_srca_bank = 0, unp_srcb_bank = 0, math_srca_bank = 0,
     math_srcb_bank = 0, last_unp_srca_bank = 0, mova2d_bank_valid = False, dest = (\<lambda>_ _. 0),
     dest_dvalid = False, pack_l1_write_offset = 0, pack_l1_dest_addr_raw = 0, srca_rwc = (\<lambda>_. 0),
     srca_rwc_cr = (\<lambda>_. 0), srcb_rwc = (\<lambda>_. 0), srcb_rwc_cr = (\<lambda>_. 0), dest_rwc = (\<lambda>_. 0),
     dest_rwc_cr = (\<lambda>_. 0), fidelity = (\<lambda>_. 0), dest_offset = 0, adc = (\<lambda>_. zero_adc),
     mutex = (\<lambda>_. 0), sem = (\<lambda>_. 0), sem_max = (\<lambda>_. 0), thd_reg = (\<lambda>_ _. 0), dma_reg = (\<lambda>_ _. 0),
     lreg = (\<lambda>_ _. 0), lane_flags = (\<lambda>_. False), use_lane_flags = (\<lambda>_. False),
     flag_stack = (\<lambda>_. (\<lambda>_. False, \<lambda>_. False)), flag_stack_top = 0, neginf = 0,
     replay_buffer = (\<lambda>_ _. 0), replay_index = (\<lambda>_. 0), replay_left = (\<lambda>_. 0),
     replay_execute_while_loading = (\<lambda>_. False), replay_recording = (\<lambda>_. False),
     replay_expanding = (\<lambda>_. False), replay_expand_start = (\<lambda>_. 0), replay_expand_count = (\<lambda>_. 0),
     replay_expand_current = (\<lambda>_. 0), mailbox_fifo = (\<lambda>_ _. replicate 4 0),
     mailbox_head = (\<lambda>_ _. 0), mailbox_count = (\<lambda>_ _. 0), mailbox_stall = (\<lambda>_. False),
     cores_in_kernel = 0, had_trisc_in_kernel = False, dbg_array_rd_cmd = 0\<rparr>"

text \<open>Updating one thread, and the core, in place.\<close>

definition upd_thread :: "nat \<Rightarrow> (tensix_thread_cop \<Rightarrow> tensix_thread_cop) \<Rightarrow> tensix_cop \<Rightarrow> tensix_cop"
  where "upd_thread i g c = c\<lparr>threads := (threads c)(i := g (threads c i))\<rparr>"

definition upd_core :: "(tensix \<Rightarrow> tensix) \<Rightarrow> tensix_cop \<Rightarrow> tensix_cop" where
  "upd_core g c = c\<lparr>core := g (core c)\<rparr>"

lemma upd_thread_simps [simp]:
  "threads (upd_thread i g c) j = (if j = i then g (threads c i) else threads c j)"
  "core (upd_thread i g c) = core c"
  "halted (upd_thread i g c) = halted c"
  "total_cycles (upd_thread i g c) = total_cycles c"
  by (simp_all add: upd_thread_def)

lemma upd_core_simps [simp]:
  "threads (upd_core h c) = threads c"
  "core (upd_core h c) = h (core c)"
  "halted (upd_core h c) = halted c"
  "total_cycles (upd_core h c) = total_cycles c"
  by (simp_all add: upd_core_def)

section \<open>Configuration registers\<close>

text \<open>The configuration registers live in \<^verbatim>\<open>high_mem\<close> at a fixed offset, one little-endian word
  each (\<^verbatim>\<open>tensix_read_cfg\<close>, \<^verbatim>\<open>tensix_write_cfg\<close> in \<^verbatim>\<open>tensix.h\<close>).\<close>

definition cfg_addr :: "u32 \<Rightarrow> u32" where
  "cfg_addr reg_idx = TENSIX_CFG_OFFSET_IN_HIGH_MEM + reg_idx * 4"

definition tensix_read_cfg :: "tensix_memory \<Rightarrow> u32 \<Rightarrow> u32" where
  "tensix_read_cfg m reg_idx =
     (case high_mem m of
        Some hm \<Rightarrow> if reg_idx < CFG_REG_COUNT then ld32 hm (cfg_addr reg_idx) else 0
      | None \<Rightarrow> 0)"

definition tensix_write_cfg :: "tensix_memory \<Rightarrow> u32 \<Rightarrow> u32 \<Rightarrow> tensix_memory" where
  "tensix_write_cfg m reg_idx v =
     (case high_mem m of
        Some hm \<Rightarrow> if reg_idx < CFG_REG_COUNT then m\<lparr>high_mem := Some (st32 hm (cfg_addr reg_idx) v)\<rparr>
          else m
      | None \<Rightarrow> m)"

lemma read_write_cfg_same:
  "high_mem m \<noteq> None \<Longrightarrow> r < CFG_REG_COUNT \<Longrightarrow> tensix_read_cfg (tensix_write_cfg m r v) r = v"
  by (auto simp: tensix_read_cfg_def tensix_write_cfg_def)

lemma cfg_addr_aligned: "cfg_addr r AND 3 = 0"
proof -
  have "cfg_addr r = push_bit 2 (0xFC000 + r)"
    by (simp add: cfg_addr_def cfg_consts push_bit_eq_mult distrib_right)
  moreover have "push_bit 2 x AND mask 2 = 0" for x :: u32
    by (rule bit_word_eqI) (auto simp: bit_simps)
  ultimately show ?thesis by (simp add: mask_eq_exp_minus_1)
qed

lemma cfg_addr_inj:
  assumes "r < CFG_REG_COUNT" "s < CFG_REG_COUNT" "cfg_addr r = cfg_addr s"
  shows "r = s"
proof -
  have "unat (x * 4) = unat x * 4" if "x < CFG_REG_COUNT" for x
    using that by (simp add: unat_word_ariths cfg_consts word_less_nat_alt)
  moreover have "unat (r * 4) = unat (s * 4)"
    using assms(3) by (simp add: cfg_addr_def)
  ultimately have "unat r * 4 = unat s * 4"
    using assms(1,2) by simp
  then show ?thesis by (simp add: word_unat_eq_iff)
qed

lemma read_write_cfg_other:
  assumes "r < CFG_REG_COUNT" "r \<noteq> s"
  shows "tensix_read_cfg (tensix_write_cfg m r v) s = tensix_read_cfg m s"
  using assms cfg_addr_inj[of r s] ld32_st32_other[OF cfg_addr_aligned cfg_addr_aligned, of r s]
  by (auto simp: tensix_read_cfg_def tensix_write_cfg_def split: option.split)

text \<open>A zeroed memory with all windows mapped, for concrete instances.\<close>

definition demo_memory :: tensix_memory where
  "demo_memory = \<lparr>l1_scratchpad = (\<lambda>_. 0), high_mem = Some (\<lambda>_. 0), t0_ldm = Some (\<lambda>_. 0),
     t1_ldm = Some (\<lambda>_. 0), t2_ldm = Some (\<lambda>_. 0)\<rparr>"

end
