(* ===== verification/Mop_Expander.thy ===== *)
theory Mop_Expander
  imports Tensix_State
begin

text \<open>
  The macro-operation expander (second half of \<^verbatim>\<open>tt_cop/tensix_cop.c\<close>).  A MOP instruction stands
  for a whole sequence of instructions, described by nine configuration words and one of two
  templates; \<^verbatim>\<open>tensix_cop_mop_expand\<close> prepares an iterator and \<^verbatim>\<open>mop_generate_next\<close> delivers the
  sequence one instruction at a time.  The iterator is shown to produce exactly the sequence that
  the templates describe (\<^verbatim>\<open>mop_ref\<close>), and to end.
\<close>

definition OPCODE_NOP :: u32 where "OPCODE_NOP = 0x02"

definition mop_is_nop :: "u32 \<Rightarrow> bool" where
  "mop_is_nop insn \<longleftrightarrow> drop_bit 24 insn AND 0xFF = OPCODE_NOP"

section \<open>Template 0: mask-selected sequences\<close>

text \<open>\<^verbatim>\<open>st->tmpl0_sub_insns[st->tmpl0_num_sub++] = insn\<close>\<close>

definition emit_sub :: "u32 \<Rightarrow> mop_expand_state \<Rightarrow> mop_expand_state" where
  "emit_sub insn st = st\<lparr>tmpl0_sub_insns := (tmpl0_sub_insns st)[unat (tmpl0_num_sub st) := insn],
                        tmpl0_num_sub := tmpl0_num_sub st + 1\<rparr>"

text \<open>\<^verbatim>\<open>*out_insn = st->tmpl0_sub_insns[st->tmpl0_sub++]\<close>\<close>

definition take_sub :: "mop_expand_state \<Rightarrow> u32 option \<times> mop_expand_state" where
  "take_sub st = (Some (tmpl0_sub_insns st ! unat (tmpl0_sub st)), st\<lparr>tmpl0_sub := tmpl0_sub st + 1\<rparr>)"

definition mop_generate_next_t0 :: "u32 list \<Rightarrow> mop_expand_state \<Rightarrow> u32 option \<times> mop_expand_state"
  where "mop_generate_next_t0 cfg st =
    (let flags = cfg ! 1; insn_b = cfg ! 2; insn_a0 = cfg ! 3; insn_a1 = cfg ! 4; insn_a2 = cfg ! 5;
         insn_a3 = cfg ! 6; skip_a0 = cfg ! 7; skip_b = cfg ! 8;
         has_b = (flags AND 1 \<noteq> 0); has_a123 = (flags AND 2 \<noteq> 0) in
     if tmpl0_sub st < tmpl0_num_sub st then take_sub st
     else if tmpl0_i st \<ge> tmpl0_count st then (None, st\<lparr>mop_active := False\<rparr>)
     else
       let st = st\<lparr>tmpl0_num_sub := 0, tmpl0_sub := 0\<rparr>;
           st = (if tmpl0_mask st AND 1 = 0 then
                   let st = emit_sub insn_a0 st;
                       st = (if has_a123 then emit_sub insn_a3 (emit_sub insn_a2 (emit_sub insn_a1 st))
                             else st)
                   in if has_b then emit_sub insn_b st else st
                 else
                   let st = emit_sub skip_a0 st
                   in if has_b then emit_sub skip_b st else st);
           st = st\<lparr>tmpl0_mask := drop_bit 1 (tmpl0_mask st), tmpl0_i := tmpl0_i st + 1\<rparr>
       in take_sub st)"

section \<open>Template 1: nested loops\<close>

text \<open>The \<^verbatim>\<open>for (;;)\<close> loop: \<^const>\<open>None\<close> is a loop that never leaves, which a phase outside 0 to 3
  would give.\<close>

partial_function (option) mop_generate_next_t1 ::
  "u32 list \<Rightarrow> mop_expand_state \<Rightarrow> (u32 option \<times> mop_expand_state) option" where
  "mop_generate_next_t1 cfg st =
    (let start_op = cfg ! 2; end_op0 = cfg ! 3; end_op1 = cfg ! 4; loop0_last = cfg ! 7;
         loop1_last = cfg ! 8 in
     if tmpl1_j st \<ge> tmpl1_outer st then Some (None, st\<lparr>mop_active := False\<rparr>)
     else if tmpl1_phase st = 0 then
       let st = st\<lparr>tmpl1_phase := 1, tmpl1_i := 0\<rparr> in
       if \<not> mop_is_nop start_op then Some (Some start_op, st)
       else mop_generate_next_t1 cfg st
     else if tmpl1_phase st = 1 then
       if tmpl1_i st < tmpl1_inner st then
         let insn = (if tmpl1_i st \<noteq> tmpl1_inner st - 1 then tmpl1_loop_op st
                     else if tmpl1_j st \<noteq> tmpl1_outer st - 1 then loop1_last else loop0_last)
         in Some (Some insn, st\<lparr>tmpl1_loop_op := tmpl1_loop_op st XOR tmpl1_loop_op_flip st,
                               tmpl1_i := tmpl1_i st + 1\<rparr>)
       else mop_generate_next_t1 cfg (st\<lparr>tmpl1_phase := 2\<rparr>)
     else if tmpl1_phase st = 2 then
       let st = st\<lparr>tmpl1_phase := 3\<rparr> in
       if \<not> mop_is_nop end_op0 then Some (Some end_op0, st)
       else mop_generate_next_t1 cfg st
     else if tmpl1_phase st = 3 then
       let st = st\<lparr>tmpl1_j := tmpl1_j st + 1, tmpl1_phase := 0\<rparr> in
       if \<not> mop_is_nop end_op1 then Some (Some end_op1, st)
       else mop_generate_next_t1 cfg st
     else mop_generate_next_t1 cfg st)"

section \<open>The iterator\<close>

definition mop_generate_next ::
  "u32 list \<Rightarrow> mop_expand_state \<Rightarrow> (u32 option \<times> mop_expand_state) option" where
  "mop_generate_next cfg st =
     (if \<not> mop_active st then Some (None, st)
      else if mop_tmpl st = 0 then Some (mop_generate_next_t0 cfg st)
      else mop_generate_next_t1 cfg st)"

definition tensix_cop_mop_expand :: "tensix_thread_cop \<Rightarrow> u32 \<Rightarrow> tensix_thread_cop" where
  "tensix_cop_mop_expand thread param =
     (let cfg = mop_cfg thread;
          tmpl = drop_bit 23 param AND 1;
          st = zero_mop_state\<lparr>mop_active := True, mop_tmpl := tmpl\<rparr>;
          st = (if tmpl = 0 then
                  let count1 = drop_bit 16 param AND 0x7F;
                      mask_lo = param AND 0xFFFF;
                      mask = push_bit 16 (zmask_hi16 thread) OR mask_lo
                  in st\<lparr>tmpl0_mask := mask, tmpl0_i := 0, tmpl0_count := count1 + 1,
                        tmpl0_sub := 0, tmpl0_num_sub := 0\<rparr>
                else
                  let outer_count = cfg ! 0 AND 127;
                      inner_count = cfg ! 1 AND 127;
                      loop_op = cfg ! 5;
                      loop_op1 = cfg ! 6;
                      start_op = cfg ! 2;
                      end_op0 = cfg ! 3;
                      (loop_op_flip, inner_count) =
                        (if mop_is_nop loop_op1 then (0, inner_count)
                         else (loop_op XOR loop_op1, inner_count * 2));
                      outer_count =
                        (if outer_count = 1 \<and> mop_is_nop start_op \<and> inner_count = 0
                            \<and> \<not> mop_is_nop end_op0
                         then outer_count + 128 else outer_count)
                  in st\<lparr>tmpl1_j := 0, tmpl1_i := 0, tmpl1_outer := outer_count,
                        tmpl1_inner := inner_count, tmpl1_phase := 0, tmpl1_loop_op := loop_op,
                        tmpl1_loop_op_flip := loop_op_flip\<rparr>)
      in thread\<lparr>mop_state := st, has_current_insn := False\<rparr>)"

section \<open>The sequences the templates describe\<close>

definition opt_op :: "u32 \<Rightarrow> u32 list" where
  "opt_op insn = (if mop_is_nop insn then [] else [insn])"

text \<open>One iteration of template 0, with the zmask bit set or clear.\<close>

definition t0_iter :: "u32 list \<Rightarrow> bool \<Rightarrow> u32 list" where
  "t0_iter cfg skip =
     (if skip then cfg ! 7 # (if bit (cfg ! 1) 0 then [cfg ! 8] else [])
      else cfg ! 3 # (if bit (cfg ! 1) 1 then [cfg ! 4, cfg ! 5, cfg ! 6] else [])
           @ (if bit (cfg ! 1) 0 then [cfg ! 2] else []))"

definition mop_ref_t0 :: "u32 list \<Rightarrow> u32 \<Rightarrow> nat \<Rightarrow> u32 list" where
  "mop_ref_t0 cfg m n = concat (map (\<lambda>k. t0_iter cfg (bit m k)) [0..<n])"

text \<open>One outer iteration of template 1: the inner operations alternate between the two loop
  operations, and the last one is replaced.\<close>

definition t1_inner_op :: "u32 list \<Rightarrow> u32 \<Rightarrow> nat \<Rightarrow> nat \<Rightarrow> nat \<Rightarrow> nat \<Rightarrow> u32" where
  "t1_inner_op cfg flip outer inner j k =
     (if k = inner - 1 then (if j = outer - 1 then cfg ! 7 else cfg ! 8)
      else if even k then cfg ! 5 else cfg ! 5 XOR flip)"

definition t1_body :: "u32 list \<Rightarrow> u32 \<Rightarrow> nat \<Rightarrow> nat \<Rightarrow> nat \<Rightarrow> u32 list" where
  "t1_body cfg flip outer inner j =
     opt_op (cfg ! 2) @ map (t1_inner_op cfg flip outer inner j) [0..<inner]
     @ opt_op (cfg ! 3) @ opt_op (cfg ! 4)"

definition mop_ref_t1 :: "u32 list \<Rightarrow> u32 \<Rightarrow> nat \<Rightarrow> nat \<Rightarrow> u32 list" where
  "mop_ref_t1 cfg flip outer inner = concat (map (t1_body cfg flip outer inner) [0..<outer])"

text \<open>The expansion of a MOP instruction with the given parameter field.\<close>

definition mop_ref :: "u32 list \<Rightarrow> u32 \<Rightarrow> u32 \<Rightarrow> u32 list" where
  "mop_ref cfg zmask param =
     (if \<not> bit param 23 then
        mop_ref_t0 cfg (push_bit 16 zmask OR (param AND 0xFFFF)) (unat (drop_bit 16 param AND 0x7F) + 1)
      else
        let two = \<not> mop_is_nop (cfg ! 6);
            outer = unat (cfg ! 0 AND 127);
            inner = unat (cfg ! 1 AND 127) * (if two then 2 else 1);
            quirk = (outer = 1 \<and> mop_is_nop (cfg ! 2) \<and> inner = 0 \<and> \<not> mop_is_nop (cfg ! 3))
        in mop_ref_t1 cfg (if two then cfg ! 5 XOR cfg ! 6 else 0)
             (if quirk then outer + 128 else outer) inner)"

section \<open>Iterators that produce a given sequence\<close>

text \<open>\<^verbatim>\<open>mop_yields cfg st xs st'\<close>: calling \<^const>\<open>mop_generate_next\<close> until it reports the end delivers
  \<^verbatim>\<open>xs\<close> and leaves \<^verbatim>\<open>st'\<close>.\<close>

inductive mop_yields :: "u32 list \<Rightarrow> mop_expand_state \<Rightarrow> u32 list \<Rightarrow> mop_expand_state \<Rightarrow> bool" where
  yields_done: "mop_generate_next cfg st = Some (None, st') \<Longrightarrow> mop_yields cfg st [] st'"
| yields_more: "mop_generate_next cfg st = Some (Some x, st') \<Longrightarrow> mop_yields cfg st' xs st''
    \<Longrightarrow> mop_yields cfg st (x # xs) st''"

inductive_cases mop_yields_NilE: "mop_yields cfg st [] st'"
inductive_cases mop_yields_ConsE: "mop_yields cfg st (x # xs) st'"

lemma mop_yields_deterministic:
  "mop_yields cfg st xs st1 \<Longrightarrow> mop_yields cfg st ys st2 \<Longrightarrow> xs = ys \<and> st1 = st2"
proof (induction arbitrary: ys rule: mop_yields.induct)
  case (yields_done cfg st st')
  then show ?case by (auto elim: mop_yields.cases)
next
  case (yields_more cfg st x st' xs st'')
  from yields_more.prems yields_more.hyps(1) obtain ys' where
    "ys = x # ys'" "mop_yields cfg st' ys' st2"
    by (auto elim: mop_yields.cases)
  with yields_more.IH show ?case by blast
qed

locale mop_iterator =
  fixes cfg :: "u32 list"
    and inv :: "mop_expand_state \<Rightarrow> bool"
    and rest :: "mop_expand_state \<Rightarrow> u32 list"
  assumes next_end: "inv st \<Longrightarrow> rest st = [] \<Longrightarrow>
      \<exists>st'. mop_generate_next cfg st = Some (None, st') \<and> \<not> mop_active st'"
    and next_insn: "inv st \<Longrightarrow> rest st = x # xs \<Longrightarrow>
      \<exists>st'. mop_generate_next cfg st = Some (Some x, st') \<and> inv st' \<and> rest st' = xs"
begin

lemma yields_rest: "inv st \<Longrightarrow> \<exists>st'. mop_yields cfg st (rest st) st' \<and> \<not> mop_active st'"
proof (induction "rest st" arbitrary: st)
  case Nil
  then show ?case using next_end[of st] by (auto intro: mop_yields.intros)
next
  case (Cons x xs)
  obtain st1 where 1: "mop_generate_next cfg st = Some (Some x, st1)" "inv st1" "xs = rest st1"
    using next_insn[OF Cons.prems Cons.hyps(2)[symmetric]] by blast
  from Cons.hyps(1)[OF 1(3) 1(2)] obtain st' where "mop_yields cfg st1 xs st'" "\<not> mop_active st'"
    using 1(3) by auto
  then show ?case
    using 1(1) Cons.hyps(2) by (metis yields_more)
qed

end

section \<open>Template 0\<close>

definition subs :: "mop_expand_state \<Rightarrow> u32 list" where
  "subs st = take (unat (tmpl0_num_sub st)) (tmpl0_sub_insns st)"

definition t0_inv :: "mop_expand_state \<Rightarrow> bool" where
  "t0_inv st \<longleftrightarrow> mop_active st \<and> mop_tmpl st = 0 \<and> length (tmpl0_sub_insns st) = 5
     \<and> unat (tmpl0_num_sub st) \<le> 5 \<and> tmpl0_sub st \<le> tmpl0_num_sub st"

definition t0_rest :: "u32 list \<Rightarrow> mop_expand_state \<Rightarrow> u32 list" where
  "t0_rest cfg st = drop (unat (tmpl0_sub st)) (subs st)
     @ mop_ref_t0 cfg (tmpl0_mask st) (unat (tmpl0_count st) - unat (tmpl0_i st))"

lemma mop_ref_t0_Suc:
  "mop_ref_t0 cfg m (Suc n) = t0_iter cfg (bit m 0) @ mop_ref_t0 cfg (drop_bit 1 m) n"
proof -
  have "map (\<lambda>k. t0_iter cfg (bit m k)) [0..<Suc n]
      = t0_iter cfg (bit m 0) # map (\<lambda>k. t0_iter cfg (bit (drop_bit 1 m) k)) [0..<n]"
    by (subst upt_conv_Cons, simp, subst map_Suc_upt[symmetric])
      (simp add: bit_simps comp_def)
  then show ?thesis by (simp add: mop_ref_t0_def del: upt_Suc)
qed

lemma subs_emit_sub:
  assumes "length (tmpl0_sub_insns st) = 5" "unat (tmpl0_num_sub st) < 5"
  shows "subs (emit_sub x st) = subs st @ [x]"
    "unat (tmpl0_num_sub (emit_sub x st)) = Suc (unat (tmpl0_num_sub st))"
    "length (tmpl0_sub_insns (emit_sub x st)) = 5"
proof -
  show n: "unat (tmpl0_num_sub (emit_sub x st)) = Suc (unat (tmpl0_num_sub st))"
    using assms(2) by (simp add: emit_sub_def unat_word_ariths)
  show "length (tmpl0_sub_insns (emit_sub x st)) = 5"
    using assms(1) by (simp add: emit_sub_def)
  show "subs (emit_sub x st) = subs st @ [x]"
    using assms n by (simp add: subs_def emit_sub_def take_Suc_conv_app_nth)
qed

lemma emit_sub_frame [simp]:
  "mop_active (emit_sub x st) = mop_active st" "mop_tmpl (emit_sub x st) = mop_tmpl st"
  "tmpl0_mask (emit_sub x st) = tmpl0_mask st" "tmpl0_i (emit_sub x st) = tmpl0_i st"
  "tmpl0_count (emit_sub x st) = tmpl0_count st" "tmpl0_sub (emit_sub x st) = tmpl0_sub st"
  by (simp_all add: emit_sub_def)

text \<open>The fresh list of sub-instructions of an iteration.\<close>

definition t0_build :: "u32 list \<Rightarrow> mop_expand_state \<Rightarrow> mop_expand_state" where
  "t0_build cfg st =
     (let st = st\<lparr>tmpl0_num_sub := 0, tmpl0_sub := 0\<rparr>;
          st = (if tmpl0_mask st AND 1 = 0 then
                  let st = emit_sub (cfg ! 3) st;
                      st = (if cfg ! 1 AND 2 \<noteq> 0
                            then emit_sub (cfg ! 6) (emit_sub (cfg ! 5) (emit_sub (cfg ! 4) st)) else st)
                  in if cfg ! 1 AND 1 \<noteq> 0 then emit_sub (cfg ! 2) st else st
                else
                  let st = emit_sub (cfg ! 7) st
                  in if cfg ! 1 AND 1 \<noteq> 0 then emit_sub (cfg ! 8) st else st)
      in st\<lparr>tmpl0_mask := drop_bit 1 (tmpl0_mask st), tmpl0_i := tmpl0_i st + 1\<rparr>)"

lemma generate_t0_unfold:
  "mop_generate_next_t0 cfg st =
     (if tmpl0_sub st < tmpl0_num_sub st then take_sub st
      else if tmpl0_i st \<ge> tmpl0_count st then (None, st\<lparr>mop_active := False\<rparr>)
      else take_sub (t0_build cfg st))"
  by (simp add: mop_generate_next_t0_def t0_build_def Let_def)

lemma and_2_bit: "x AND 2 \<noteq> 0 \<longleftrightarrow> bit x 1" for x :: u32
  using tst_bit[of x 1] by (simp add: tst_def)

lemma and_1_bit: "x AND 1 \<noteq> 0 \<longleftrightarrow> bit x 0" for x :: u32
  using tst_bit[of x 0] by (simp add: tst_def)

lemma t0_build:
  fixes cfg :: "u32 list"
  assumes "length (tmpl0_sub_insns st) = 5"
  defines "st' \<equiv> t0_build cfg st"
  shows "subs st' = t0_iter cfg (bit (tmpl0_mask st) 0)" "tmpl0_sub st' = 0"
    "length (tmpl0_sub_insns st') = 5" "unat (tmpl0_num_sub st') = length (subs st')"
    "tmpl0_mask st' = drop_bit 1 (tmpl0_mask st)" "tmpl0_i st' = tmpl0_i st + 1"
    "tmpl0_count st' = tmpl0_count st" "mop_active st' = mop_active st" "mop_tmpl st' = mop_tmpl st"
proof -
  let ?s0 = "st\<lparr>tmpl0_num_sub := 0, tmpl0_sub := 0\<rparr>"
  have len: "length (tmpl0_sub_insns ?s0) = 5" "unat (tmpl0_num_sub ?s0) = 0" "subs ?s0 = []"
    using assms(1) by (simp_all add: subs_def)
  have mask_irrel: "subs (s\<lparr>tmpl0_mask := m, tmpl0_i := i\<rparr>) = subs s" for s m i
    by (simp add: subs_def)
  show "subs st' = t0_iter cfg (bit (tmpl0_mask st) 0)"
    using len and_1_bit[of "tmpl0_mask st"] and_1_bit[of "cfg ! 1"] and_2_bit[of "cfg ! 1"]
    by (auto simp: st'_def t0_build_def Let_def mask_irrel subs_emit_sub t0_iter_def)
  show "length (tmpl0_sub_insns st') = 5" "unat (tmpl0_num_sub st') = length (subs st')"
    using len by (auto simp: st'_def t0_build_def Let_def mask_irrel subs_emit_sub)
qed (auto simp: st'_def t0_build_def Let_def)

lemma t0_iter_length: "length (t0_iter cfg b) \<le> 5" "t0_iter cfg b \<noteq> []"
  by (auto simp: t0_iter_def)

lemma take_sub_step:
  assumes "t0_inv st" "tmpl0_sub st < tmpl0_num_sub st"
  shows "\<exists>x st'. take_sub st = (Some x, st') \<and> t0_inv st' \<and> t0_rest cfg st = x # t0_rest cfg st'"
proof -
  have lt: "unat (tmpl0_sub st) < unat (tmpl0_num_sub st)"
    using assms(2) by (simp add: word_less_nat_alt)
  then have s: "unat (tmpl0_sub st + 1) = Suc (unat (tmpl0_sub st))"
    using assms(1) by (simp add: t0_inv_def unat_word_ariths)
  have "unat (tmpl0_sub st) < length (subs st)"
    "subs st ! unat (tmpl0_sub st) = tmpl0_sub_insns st ! unat (tmpl0_sub st)"
    using lt assms(1) by (simp_all add: subs_def t0_inv_def)
  then have "drop (unat (tmpl0_sub st)) (subs st)
      = tmpl0_sub_insns st ! unat (tmpl0_sub st) # drop (Suc (unat (tmpl0_sub st))) (subs st)"
    by (metis Cons_nth_drop_Suc)
  moreover have "subs (st\<lparr>tmpl0_sub := k\<rparr>) = subs st" for k by (simp add: subs_def)
  moreover have "tmpl0_sub st + 1 \<le> tmpl0_num_sub st"
    using assms(2) by (simp add: inc_le)
  ultimately show ?thesis
    using s assms(1) by (simp add: take_sub_def t0_inv_def t0_rest_def)
qed

lemma t0_build_step:
  assumes "t0_inv st" "\<not> tmpl0_sub st < tmpl0_num_sub st" "\<not> tmpl0_i st \<ge> tmpl0_count st"
  shows "t0_inv (t0_build cfg st)" "tmpl0_sub (t0_build cfg st) < tmpl0_num_sub (t0_build cfg st)"
    "t0_rest cfg (t0_build cfg st) = t0_rest cfg st"
proof -
  have l: "length (tmpl0_sub_insns st) = 5" using assms(1) by (simp add: t0_inv_def)
  note b = t0_build[OF l, of cfg]
  show "t0_inv (t0_build cfg st)"
    using b t0_iter_length assms(1) by (simp add: t0_inv_def)
  show "tmpl0_sub (t0_build cfg st) < tmpl0_num_sub (t0_build cfg st)"
    using b t0_iter_length by (simp add: word_less_nat_alt)
  have lt: "unat (tmpl0_i st) < unat (tmpl0_count st)"
    using assms(3) by (simp add: word_le_nat_alt)
  moreover have "unat (tmpl0_i st + 1) = Suc (unat (tmpl0_i st))"
    using assms(3) by (intro unat_Suc_less_word[of _ "tmpl0_count st"]) simp
  ultimately have "unat (tmpl0_count st) - unat (tmpl0_i st)
      = Suc (unat (tmpl0_count st) - unat (tmpl0_i st + 1))" by simp
  moreover have "drop (unat (tmpl0_sub st)) (subs st) = []"
    using assms(2) by (simp add: subs_def word_less_nat_alt)
  ultimately show "t0_rest cfg (t0_build cfg st) = t0_rest cfg st"
    using b by (simp add: t0_rest_def mop_ref_t0_Suc)
qed

lemma t0_next:
  assumes "t0_inv st"
  shows "t0_rest cfg st = [] \<Longrightarrow>
      \<exists>st'. mop_generate_next cfg st = Some (None, st') \<and> \<not> mop_active st'"
    "t0_rest cfg st = x # xs \<Longrightarrow>
      \<exists>st'. mop_generate_next cfg st = Some (Some x, st') \<and> t0_inv st' \<and> t0_rest cfg st' = xs"
proof -
  have gen: "mop_generate_next cfg st = Some (mop_generate_next_t0 cfg st)"
    using assms by (simp add: mop_generate_next_def t0_inv_def)
  have fin: "t0_rest cfg st = []"
    if "\<not> tmpl0_sub st < tmpl0_num_sub st" "tmpl0_i st \<ge> tmpl0_count st"
    using that by (simp add: t0_rest_def subs_def mop_ref_t0_def word_le_nat_alt word_less_nat_alt)
  note steps = take_sub_step[OF assms, of cfg] t0_build_step[OF assms, of cfg]
    take_sub_step[of "t0_build cfg st" cfg]
  show "\<exists>st'. mop_generate_next cfg st = Some (None, st') \<and> \<not> mop_active st'"
    if "t0_rest cfg st = []"
    using that steps gen by (auto simp: generate_t0_unfold split: if_splits)
  show "\<exists>st'. mop_generate_next cfg st = Some (Some x, st') \<and> t0_inv st' \<and> t0_rest cfg st' = xs"
    if "t0_rest cfg st = x # xs"
    using that steps gen fin by (auto simp: generate_t0_unfold split: if_splits)
qed

interpretation t0: mop_iterator cfg t0_inv "t0_rest cfg" for cfg
  by unfold_locales (use t0_next in blast)+

section \<open>Template 1\<close>

definition t1_inv :: "u32 list \<Rightarrow> mop_expand_state \<Rightarrow> bool" where
  "t1_inv cfg st \<longleftrightarrow> mop_active st \<and> mop_tmpl st \<noteq> 0 \<and> tmpl1_phase st \<in> {0, 1, 2, 3}
     \<and> (even (unat (tmpl1_inner st)) \<or> tmpl1_loop_op_flip st = 0)
     \<and> (if tmpl1_phase st = 1
        then tmpl1_i st \<le> tmpl1_inner st
          \<and> tmpl1_loop_op st = (if even (unat (tmpl1_i st)) then cfg ! 5
                               else cfg ! 5 XOR tmpl1_loop_op_flip st)
        else tmpl1_loop_op st = cfg ! 5)"

definition t1_inner_ops :: "u32 list \<Rightarrow> mop_expand_state \<Rightarrow> nat \<Rightarrow> u32 list" where
  "t1_inner_ops cfg st k =
     map (t1_inner_op cfg (tmpl1_loop_op_flip st) (unat (tmpl1_outer st)) (unat (tmpl1_inner st))
            (unat (tmpl1_j st))) [k..<unat (tmpl1_inner st)]"

definition t1_tail :: "u32 list \<Rightarrow> mop_expand_state \<Rightarrow> u32 list" where
  "t1_tail cfg st =
     (if tmpl1_phase st = 0
      then opt_op (cfg ! 2) @ t1_inner_ops cfg st 0 @ opt_op (cfg ! 3) @ opt_op (cfg ! 4)
      else if tmpl1_phase st = 1
      then t1_inner_ops cfg st (unat (tmpl1_i st)) @ opt_op (cfg ! 3) @ opt_op (cfg ! 4)
      else if tmpl1_phase st = 2 then opt_op (cfg ! 3) @ opt_op (cfg ! 4)
      else opt_op (cfg ! 4))"

definition t1_later :: "u32 list \<Rightarrow> mop_expand_state \<Rightarrow> nat \<Rightarrow> u32 list" where
  "t1_later cfg st k =
     concat (map (t1_body cfg (tmpl1_loop_op_flip st) (unat (tmpl1_outer st)) (unat (tmpl1_inner st)))
               [k..<unat (tmpl1_outer st)])"

definition t1_rest :: "u32 list \<Rightarrow> mop_expand_state \<Rightarrow> u32 list" where
  "t1_rest cfg st =
     (if tmpl1_j st < tmpl1_outer st then t1_tail cfg st @ t1_later cfg st (Suc (unat (tmpl1_j st)))
      else [])"

text \<open>The number of phases still to enter bounds the silent iterations of the loop.\<close>

definition t1_measure :: "mop_expand_state \<Rightarrow> nat" where
  "t1_measure st = 4 * (unat (tmpl1_outer st) - unat (tmpl1_j st)) - unat (tmpl1_phase st)"

lemma t1_rest_phase0:
  assumes "tmpl1_phase st = 0"
  shows "t1_rest cfg st = t1_later cfg st (unat (tmpl1_j st))"
  using assms
  by (auto simp: t1_rest_def t1_tail_def t1_later_def t1_inner_ops_def t1_body_def upt_conv_Cons
      word_less_nat_alt)

lemma t1_end0:
  assumes "t1_inv cfg st" "tmpl1_phase st = 3" "tmpl1_j st < tmpl1_outer st"
  defines "st' \<equiv> st\<lparr>tmpl1_j := tmpl1_j st + 1, tmpl1_phase := 0\<rparr>"
  shows "t1_inv cfg st'" "t1_rest cfg st = opt_op (cfg ! 4) @ t1_rest cfg st'"
    "t1_measure st' < t1_measure st"
proof -
  have j: "unat (tmpl1_j st + 1) = Suc (unat (tmpl1_j st))"
    using assms(3) by (rule unat_Suc_less_word)
  show "t1_inv cfg st'" using assms(1,2) by (auto simp: t1_inv_def st'_def)
  have "t1_rest cfg st' = t1_later cfg st (Suc (unat (tmpl1_j st)))"
    using j by (subst t1_rest_phase0) (auto simp: st'_def t1_later_def)
  then show "t1_rest cfg st = opt_op (cfg ! 4) @ t1_rest cfg st'"
    using assms(2,3) by (simp add: t1_rest_def[of cfg st] t1_tail_def)
  show "t1_measure st' < t1_measure st"
    using assms(2,3) j by (simp add: t1_measure_def st'_def word_less_nat_alt)
qed

lemma t1_phase_step:
  assumes "t1_inv cfg st" "tmpl1_j st < tmpl1_outer st"
  shows "tmpl1_phase st = 0 \<Longrightarrow> t1_inv cfg (st\<lparr>tmpl1_phase := 1, tmpl1_i := 0\<rparr>)
      \<and> t1_rest cfg st = opt_op (cfg ! 2) @ t1_rest cfg (st\<lparr>tmpl1_phase := 1, tmpl1_i := 0\<rparr>)
      \<and> t1_measure (st\<lparr>tmpl1_phase := 1, tmpl1_i := 0\<rparr>) < t1_measure st"
    "tmpl1_phase st = 1 \<Longrightarrow> \<not> tmpl1_i st < tmpl1_inner st \<Longrightarrow> t1_inv cfg (st\<lparr>tmpl1_phase := 2\<rparr>)
      \<and> t1_rest cfg st = t1_rest cfg (st\<lparr>tmpl1_phase := 2\<rparr>)
      \<and> t1_measure (st\<lparr>tmpl1_phase := 2\<rparr>) < t1_measure st"
    "tmpl1_phase st = 2 \<Longrightarrow> t1_inv cfg (st\<lparr>tmpl1_phase := 3\<rparr>)
      \<and> t1_rest cfg st = opt_op (cfg ! 3) @ t1_rest cfg (st\<lparr>tmpl1_phase := 3\<rparr>)
      \<and> t1_measure (st\<lparr>tmpl1_phase := 3\<rparr>) < t1_measure st"
  using assms
  by (auto simp: t1_inv_def t1_rest_def t1_tail_def t1_later_def t1_inner_ops_def t1_measure_def
      word_less_nat_alt word_le_nat_alt dest: order.antisym)

lemma t1_inner_step:
  assumes "t1_inv cfg st" "tmpl1_j st < tmpl1_outer st" "tmpl1_phase st = 1"
    "tmpl1_i st < tmpl1_inner st"
  defines "st' \<equiv> st\<lparr>tmpl1_loop_op := tmpl1_loop_op st XOR tmpl1_loop_op_flip st,
                     tmpl1_i := tmpl1_i st + 1\<rparr>"
    and "insn \<equiv> (if tmpl1_i st \<noteq> tmpl1_inner st - 1 then tmpl1_loop_op st
                 else if tmpl1_j st \<noteq> tmpl1_outer st - 1 then cfg ! 8 else cfg ! 7)"
  shows "t1_inv cfg st'" "t1_rest cfg st = insn # t1_rest cfg st'"
proof -
  have i: "unat (tmpl1_i st + 1) = Suc (unat (tmpl1_i st))"
    using assms(4) by (rule unat_Suc_less_word)
  have pred: "unat (y - 1) = unat y - 1" if "x < y" for x y :: u32
    using that by (subst unat_sub) (auto simp: word_le_nat_alt word_less_nat_alt)
  have "tmpl1_i st + 1 \<le> tmpl1_inner st" using assms(4) by (simp add: inc_le)
  then show "t1_inv cfg st'"
    using assms(1,3) i by (auto simp: t1_inv_def st'_def xor.assoc)
  have "insn = t1_inner_op cfg (tmpl1_loop_op_flip st) (unat (tmpl1_outer st))
      (unat (tmpl1_inner st)) (unat (tmpl1_j st)) (unat (tmpl1_i st))"
    using assms(1,3) pred[OF assms(2)] pred[OF assms(4)]
    by (simp add: insn_def t1_inner_op_def t1_inv_def word_unat_eq_iff)
  then have "t1_inner_ops cfg st (unat (tmpl1_i st)) = insn # t1_inner_ops cfg st' (unat (tmpl1_i st'))"
    using assms(4) i by (simp add: t1_inner_ops_def st'_def upt_conv_Cons word_less_nat_alt)
  then show "t1_rest cfg st = insn # t1_rest cfg st'"
    using assms(2,3) by (simp add: t1_rest_def t1_tail_def t1_later_def st'_def)
qed

text \<open>What one call of the iterator must deliver.\<close>

definition t1_ok :: "u32 list \<Rightarrow> mop_expand_state \<Rightarrow> u32 list \<Rightarrow> bool" where
  "t1_ok cfg st r = (\<exists>out st'. mop_generate_next_t1 cfg st = Some (out, st') \<and>
     (case out of None \<Rightarrow> r = [] \<and> \<not> mop_active st'
      | Some x \<Rightarrow> t1_inv cfg st' \<and> r = x # t1_rest cfg st'))"

lemma t1_ok_opt:
  assumes "mop_generate_next_t1 cfg st =
      (if \<not> mop_is_nop x then Some (Some x, st') else mop_generate_next_t1 cfg st')"
    "t1_inv cfg st'" "t1_ok cfg st' (t1_rest cfg st')"
  shows "t1_ok cfg st (opt_op x @ t1_rest cfg st')"
  using assms by (auto simp: t1_ok_def opt_op_def split: option.splits)

lemma t1_generate: "t1_inv cfg st \<Longrightarrow> t1_ok cfg st (t1_rest cfg st)"
proof (induction "t1_measure st" arbitrary: st rule: less_induct)
  case less
  note unf = mop_generate_next_t1.simps[of cfg st]
  show ?case
  proof (cases "tmpl1_j st < tmpl1_outer st")
    case False
    then have "mop_generate_next_t1 cfg st = Some (None, st\<lparr>mop_active := False\<rparr>)"
      by (subst unf) (simp add: not_less)
    with False show ?thesis by (simp add: t1_ok_def t1_rest_def)
  next
    case True
    then have j: "\<not> tmpl1_outer st \<le> tmpl1_j st" by simp
    consider "tmpl1_phase st = 0" | "tmpl1_phase st = 1" "tmpl1_i st < tmpl1_inner st"
      | "tmpl1_phase st = 1" "\<not> tmpl1_i st < tmpl1_inner st"
      | "tmpl1_phase st = 2" | "tmpl1_phase st = 3"
      using less.prems by (auto simp: t1_inv_def)
    then show ?thesis
    proof cases
      case 1
      note p = t1_phase_step(1)[OF less.prems True 1]
      have "mop_generate_next_t1 cfg st =
          (if \<not> mop_is_nop (cfg ! 2) then Some (Some (cfg ! 2), st\<lparr>tmpl1_phase := 1, tmpl1_i := 0\<rparr>)
           else mop_generate_next_t1 cfg (st\<lparr>tmpl1_phase := 1, tmpl1_i := 0\<rparr>))"
        using j 1 by (subst unf) (simp add: Let_def)
      with p less.hyps show ?thesis by (auto intro: t1_ok_opt)
    next
      case 2
      note p = t1_inner_step[OF less.prems True 2]
      show ?thesis
        using j 2 p by (subst t1_ok_def, subst unf) (simp add: Let_def)
    next
      case 3
      note p = t1_phase_step(2)[OF less.prems True 3]
      have "mop_generate_next_t1 cfg st = mop_generate_next_t1 cfg (st\<lparr>tmpl1_phase := 2\<rparr>)"
        using j 3 by (subst unf) (simp add: Let_def)
      with p less.hyps show ?thesis by (simp add: t1_ok_def)
    next
      case 4
      note p = t1_phase_step(3)[OF less.prems True 4]
      have "mop_generate_next_t1 cfg st =
          (if \<not> mop_is_nop (cfg ! 3) then Some (Some (cfg ! 3), st\<lparr>tmpl1_phase := 3\<rparr>)
           else mop_generate_next_t1 cfg (st\<lparr>tmpl1_phase := 3\<rparr>))"
        using j 4 by (subst unf) (simp add: Let_def)
      with p less.hyps show ?thesis by (auto intro: t1_ok_opt)
    next
      case 5
      note p = t1_end0[OF less.prems 5 True]
      have "mop_generate_next_t1 cfg st =
          (if \<not> mop_is_nop (cfg ! 4)
           then Some (Some (cfg ! 4), st\<lparr>tmpl1_j := tmpl1_j st + 1, tmpl1_phase := 0\<rparr>)
           else mop_generate_next_t1 cfg (st\<lparr>tmpl1_j := tmpl1_j st + 1, tmpl1_phase := 0\<rparr>))"
        using j 5 by (subst unf) (simp add: Let_def)
      with p less.hyps show ?thesis by (auto intro: t1_ok_opt)
    qed
  qed
qed

interpretation t1: mop_iterator cfg "t1_inv cfg" "t1_rest cfg" for cfg
proof
  fix st x xs
  assume inv: "t1_inv cfg st"
  then have gen: "mop_generate_next cfg st = mop_generate_next_t1 cfg st"
    by (simp add: mop_generate_next_def t1_inv_def)
  note ok = t1_generate[OF inv, unfolded t1_ok_def]
  show "\<exists>st'. mop_generate_next cfg st = Some (None, st') \<and> \<not> mop_active st'"
    if "t1_rest cfg st = []"
    using ok that gen by (auto split: option.splits)
  show "\<exists>st'. mop_generate_next cfg st = Some (Some x, st') \<and> t1_inv cfg st' \<and> t1_rest cfg st' = xs"
    if "t1_rest cfg st = x # xs"
    using ok that gen by (auto split: option.splits)
qed

section \<open>A MOP instruction\<close>

lemma t0_expand_start:
  fixes th :: tensix_thread_cop
  assumes "\<not> bit param 23"
  defines "st \<equiv> mop_state (tensix_cop_mop_expand th param)"
  shows "t0_inv st" "t0_rest (mop_cfg th) st = mop_ref (mop_cfg th) (zmask_hi16 th) param"
proof -
  have tm: "drop_bit 23 param AND 1 = 0"
    using assms(1) and_1_bit[of "drop_bit 23 param"] by (simp add: bit_simps)
  have c: "unat (drop_bit 16 param AND 0x7F) < 128"
    using word_and_less_mask[of 7 "drop_bit 16 param"]
    by (simp add: word_less_nat_alt mask_eq_exp_minus_1)
  have "unat ((drop_bit 16 param AND 0x7F) + 1) = Suc (unat (drop_bit 16 param AND 0x7F))"
    using c by (rule unat_Suc_less) simp
  with tm show "t0_inv st" "t0_rest (mop_cfg th) st = mop_ref (mop_cfg th) (zmask_hi16 th) param"
    using assms(1)
    by (simp_all add: st_def tensix_cop_mop_expand_def t0_inv_def zero_mop_state_def t0_rest_def
        subs_def mop_ref_def Let_def)
qed

lemma t1_expand_start:
  fixes th :: tensix_thread_cop
  assumes "bit param 23"
  defines "st \<equiv> mop_state (tensix_cop_mop_expand th param)"
  shows "t1_inv (mop_cfg th) st" "t1_rest (mop_cfg th) st = mop_ref (mop_cfg th) (zmask_hi16 th) param"
proof -
  let ?cfg = "mop_cfg th"
  have tm: "drop_bit 23 param AND 1 \<noteq> 0"
    using assms(1) and_1_bit[of "drop_bit 23 param"] by (simp add: bit_simps)
  have c: "unat (x AND 127) < 128" for x :: u32
    using word_and_less_mask[of 7 x] by (simp add: word_less_nat_alt mask_eq_exp_minus_1)
  have dbl: "unat ((x AND 127) * 2) = unat (x AND 127) * 2" for x :: u32
    using c[of x] by (simp add: unat_word_ariths)
  have one: "unat (x AND 127) = Suc 0 \<longleftrightarrow> x AND 127 = 1" for x :: u32
    by (metis One_nat_def unat_1 word_unat_eq_iff)
  have zero: "(x AND 127) * 2 = 0 \<longleftrightarrow> unat (x AND 127) = 0" for x :: u32
    using dbl[of x] by (metis mult_eq_0_iff unat_eq_0 zero_neq_numeral)
  show "t1_inv ?cfg st"
    using tm by (simp add: st_def tensix_cop_mop_expand_def t1_inv_def zero_mop_state_def dbl
        Let_def split_def)
  have "tmpl1_phase st = 0" "tmpl1_j st = 0"
    using tm by (simp_all add: st_def tensix_cop_mop_expand_def Let_def split_def)
  then have "t1_rest ?cfg st = t1_later ?cfg st 0" by (simp add: t1_rest_phase0)
  also have "\<dots> = mop_ref ?cfg (zmask_hi16 th) param"
    using tm assms(1) by (simp add: st_def tensix_cop_mop_expand_def t1_later_def mop_ref_def
        mop_ref_t1_def dbl one zero unat_eq_0 Let_def split_def)
  finally show "t1_rest ?cfg st = mop_ref ?cfg (zmask_hi16 th) param" .
qed

text \<open>The iterator a MOP instruction sets up delivers exactly the described sequence and then
  becomes inactive.\<close>

lemma mop_expand_yields_ref:
  "\<exists>st'. mop_yields (mop_cfg th) (mop_state (tensix_cop_mop_expand th param))
      (mop_ref (mop_cfg th) (zmask_hi16 th) param) st' \<and> \<not> mop_active st'"
proof (cases "bit param 23")
  case True
  show ?thesis
    using t1.yields_rest[OF t1_expand_start(1)[OF True, of th]] t1_expand_start(2)[OF True, of th]
    by simp
next
  case False
  show ?thesis
    using t0.yields_rest[OF t0_expand_start(1)[OF False, of th], of "mop_cfg th"]
      t0_expand_start(2)[OF False, of th] by simp
qed

section \<open>Property\<close>

text \<open>C15: for every configuration, mask and parameter field, the iterator that a MOP instruction sets up
  delivers exactly the sequence its template describes (\<^const>\<open>mop_ref\<close>), then reports the end and is
  inactive; in particular the generator loop of template 1 always terminates.  By
  \<^verbatim>\<open>mop_yields_deterministic\<close> it delivers no other sequence.\<close>

theorem mop_iterator_delivers_reference:
  "\<exists>st'. mop_yields (mop_cfg th) (mop_state (tensix_cop_mop_expand th param))
      (mop_ref (mop_cfg th) (zmask_hi16 th) param) st' \<and> \<not> mop_active st'"
  by (rule mop_expand_yields_ref)

end
