(* ===== verification/Wait_Gate.thy ===== *)
theory Wait_Gate
  imports Mop_Expander
begin

text \<open>
  The Wait Gate of a coprocessor thread (\<^verbatim>\<open>tt_cop/tensix_cop.c\<close>): the classification of opcodes by
  the unit that executes them and by the operand banks they need, the latching of
  STALLWAIT/SEMWAIT/STREAMWAIT, the test of a latched condition, and its release.
\<close>

section \<open>Instruction words\<close>

definition tensix_insn_opcode :: "u32 \<Rightarrow> u32" where
  "tensix_insn_opcode insn = drop_bit 24 insn AND 0xFF"

definition tensix_insn_param :: "u32 \<Rightarrow> u32" where
  "tensix_insn_param insn = insn AND 0x00FFFFFF"

definition OPCODE_STALLWAIT :: u32 where "OPCODE_STALLWAIT = 0xA2"
definition OPCODE_SEMWAIT :: u32 where "OPCODE_SEMWAIT = 0xA6"
definition OPCODE_STREAMWAIT :: u32 where "OPCODE_STREAMWAIT = 0xA7"
definition OPCODE_UNPACR :: u32 where "OPCODE_UNPACR = 0x42"
definition OPCODE_PACR :: u32 where "OPCODE_PACR = 0x41"

lemmas opcode_defs = OPCODE_NOP_def OPCODE_STALLWAIT_def OPCODE_SEMWAIT_def OPCODE_STREAMWAIT_def
  OPCODE_UNPACR_def OPCODE_PACR_def

text \<open>ELWADD, ELWMUL, ELWSUB, DOTPV, MVMUL, CONV3S1/2, MPOOL3S1, APOOL3S1, MPOOL3S2, APOOL3S2,
  GMPOOL, GAPOOL, MFCONV3S1 and MOVA2D read SrcA.\<close>

definition insn_needs_srca :: "u32 \<Rightarrow> bool" where
  "insn_needs_srca opcode \<longleftrightarrow> opcode \<in> set [0x28, 0x27, 0x30, 0x29, 0x26, 0x22, 0x23, 0x24, 0x25,
     0x31, 0x32, 0x33, 0x34, 0x3a, 0x12]"

definition insn_needs_srcb :: "u32 \<Rightarrow> bool" where
  "insn_needs_srcb opcode \<longleftrightarrow> opcode \<in> set [0x28, 0x27, 0x30, 0x29, 0x26, 0x22, 0x23]"

definition insn_needs_dest :: "u32 \<Rightarrow> bool" where
  "insn_needs_dest opcode \<longleftrightarrow> opcode = OPCODE_PACR"

text \<open>The block-mask bits of an opcode: one bit per execution unit, bit 0 shared by the
  miscellaneous, mover, scalar, packer and unpacker units.\<close>

definition insn_get_block_bits :: "u32 \<Rightarrow> u32" where
  "insn_get_block_bits opcode =
     (if opcode \<in> set [0x53, 0x56, 0x52, 0x55, 0x44, 0x50, 0x5e, 0x51, 0x54, 0x57]
      then push_bit 0 1
      else if opcode \<in> set [0xa0, 0xa1, 0xa5, 0xa3, 0xa4] then push_bit 1 1
      else if opcode \<in> set [0x41, 0x4a] then push_bit 0 1 OR push_bit 2 1
      else if opcode \<in> set [0x42, 0x43] then push_bit 0 1 OR push_bit 3 1
      else if opcode = 0x40 then push_bit 0 1 OR push_bit 4 1
      else if opcode \<in> set [0x58, 0x64, 0x61, 0x62, 0x63, 0x5b, 0x5d, 0x60, 0x46, 0x49, 0x68, 0x5a,
          0x48, 0x45, 0x5c, 0x66, 0x67, 0x59] then push_bit 0 1 OR push_bit 5 1
      else if opcode \<in> set [0x25, 0x32, 0x36, 0x21, 0x22, 0x23, 0x29, 0x28, 0x27, 0x30, 0x34, 0x35,
          0x33, 0x38, 0x3a, 0x12, 0x0b, 0x13, 0x08, 0x0a, 0x09, 0x24, 0x31, 0x26, 0x37, 0x17, 0x18,
          0x16, 0x10, 0x11] then push_bit 6 1
      else if opcode \<in> set [0xb8, 0xb1, 0xb3, 0xb4, 0xb5, 0xb6, 0xb2, 0xb7, 0xb0] then push_bit 7 1
      else if opcode \<in> set [0x7d, 0x85, 0x75, 0x7e, 0x99, 0x90, 0x8b, 0x91, 0x76, 0x8a, 0x77, 0x78,
          0x97, 0x79, 0x96, 0x70, 0x71, 0x93, 0x73, 0x95, 0x81, 0x84, 0x7c, 0x86, 0x98, 0x74, 0x8f,
          0x80, 0x7f, 0x88, 0x87, 0x7b, 0x82, 0x83, 0x89, 0x7a, 0x94, 0x8e, 0x72, 0x92, 0x8c, 0x8d]
      then push_bit 8 1
      else if opcode \<in> set [0xa2, 0xa6, 0xa7] then 0x1FF
      else if opcode = 0x02 then 0
      else 0)"

section \<open>The gate\<close>

definition wait_gate_latch :: "tensix_thread_cop \<Rightarrow> u32 \<Rightarrow> tensix_thread_cop" where
  "wait_gate_latch thread insn =
     (let opcode = tensix_insn_opcode insn;
          param = tensix_insn_param insn;
          gate = (wait_gate thread)\<lparr>wg_active := True, wg_opcode := opcode\<rparr>;
          gate =
            (if opcode = OPCODE_STALLWAIT then
               let gate = gate\<lparr>wg_block_mask := drop_bit 15 param AND 0x1FF,
                               wg_condition_mask := param AND 0x7FFF, wg_semaphore_mask := 0\<rparr>;
                   gate = (if wg_condition_mask gate = 0 then gate\<lparr>wg_condition_mask := 0x0F\<rparr>
                           else gate)
               in (if wg_block_mask gate = 0 then gate\<lparr>wg_block_mask := push_bit 6 1\<rparr> else gate)
             else if opcode = OPCODE_SEMWAIT then
               let gate = gate\<lparr>wg_block_mask := drop_bit 15 param AND 0x1FF,
                               wg_semaphore_mask := drop_bit 2 param AND 0x1FFF,
                               wg_condition_mask := param AND 0x03\<rparr>;
                   gate = (if wg_block_mask gate = 0 then gate\<lparr>wg_block_mask := push_bit 6 1\<rparr>
                           else gate)
               in (if wg_condition_mask gate = 0
                   then gate\<lparr>wg_opcode := OPCODE_STALLWAIT, wg_condition_mask := 0x0F,
                             wg_semaphore_mask := 0\<rparr>
                   else gate)
             else if opcode = OPCODE_STREAMWAIT then
               let target_lo = drop_bit 4 param AND 0x7FF;
                   cond_idx = drop_bit 3 param AND 0x1;
                   gate = gate\<lparr>wg_block_mask := drop_bit 15 param AND 0x1FF,
                               wg_stream_select := param AND 0x7\<rparr>;
                   gate = (if wg_block_mask gate = 0 then gate\<lparr>wg_block_mask := push_bit 6 1\<rparr>
                           else gate)
               in gate\<lparr>wg_condition_mask := push_bit (unat cond_idx) 1, wg_target_value := target_lo\<rparr>
             else gate)
      in thread\<lparr>wait_gate := gate\<rparr>)"

text \<open>The loops \<^verbatim>\<open>for (int i = 0; i < 8; i++)\<close> return false at the first selected semaphore that
  meets the blocking condition.\<close>

definition wait_gate_check :: "tensix \<Rightarrow> tensix_wait_gate \<Rightarrow> bool" where
  "wait_gate_check c gate =
     (if \<not> wg_active gate then True
      else if wg_opcode gate = OPCODE_STALLWAIT then
        let cond = wg_condition_mask gate in
        if tst cond 5 \<and> srca_dvalid c (unat (unp_srca_bank c)) then False
        else if tst cond 6 \<and> srcb_dvalid c (unat (unp_srcb_bank c)) then False
        else if tst cond 7 \<and> \<not> srca_dvalid c (unat (math_srca_bank c)) then False
        else if tst cond 8 \<and> \<not> srcb_dvalid c (unat (math_srcb_bank c)) then False
        else True
      else if wg_opcode gate = OPCODE_SEMWAIT then
        let sem_mask = wg_semaphore_mask gate; cond_mask = wg_condition_mask gate in
        if cond_mask AND 0x1 \<noteq> 0 \<and> list_ex (\<lambda>i. tst sem_mask i \<and> sem c i = 0) [0..<8] then False
        else if cond_mask AND 0x2 \<noteq> 0
          \<and> list_ex (\<lambda>i. tst sem_mask i \<and> sem c i \<ge> sem_max c i) [0..<8] then False
        else True
      else True)"

definition wait_gate_clear :: "tensix_thread_cop \<Rightarrow> tensix_thread_cop" where
  "wait_gate_clear thread = thread\<lparr>wait_gate := zero_wait_gate\<rparr>"

definition is_wait_opcode :: "u32 \<Rightarrow> bool" where
  "is_wait_opcode opcode \<longleftrightarrow>
     opcode = OPCODE_STALLWAIT \<or> opcode = OPCODE_SEMWAIT \<or> opcode = OPCODE_STREAMWAIT"

section \<open>Facts\<close>

text \<open>An active gate blocks at least one of the nine units.\<close>

definition gate_wf :: "tensix_wait_gate \<Rightarrow> bool" where
  "gate_wf g \<longleftrightarrow> (wg_active g \<longrightarrow> wg_block_mask g \<noteq> 0 \<and> wg_block_mask g AND 0x1FF = wg_block_mask g)"

lemma gate_wf_clear [simp]: "gate_wf (wait_gate (wait_gate_clear th))"
  by (simp add: gate_wf_def wait_gate_clear_def zero_wait_gate_def)

lemma gate_wf_latch:
  assumes "is_wait_opcode (tensix_insn_opcode insn)"
  shows "gate_wf (wait_gate (wait_gate_latch th insn))" "wg_active (wait_gate (wait_gate_latch th insn))"
  using assms
  by (auto simp: is_wait_opcode_def gate_wf_def wait_gate_latch_def Let_def opcode_defs and.assoc)

lemma latch_frame [simp]:
  "insn_fifo (wait_gate_latch th insn) = insn_fifo th"
  "mop_state (wait_gate_latch th insn) = mop_state th"
  "has_current_insn (wait_gate_latch th insn) = has_current_insn th"
  "mop_cfg (wait_gate_latch th insn) = mop_cfg th"
  "zmask_hi16 (wait_gate_latch th insn) = zmask_hi16 th"
  "has_direct_insn (wait_gate_latch th insn) = has_direct_insn th"
  "direct_insn (wait_gate_latch th insn) = direct_insn th"
  "insn_executed (wait_gate_latch th insn) = insn_executed th"
  by (simp_all add: wait_gate_latch_def Let_def)

text \<open>Wait instructions carry all nine block bits, so an active gate always intercepts them.\<close>

lemma wait_insn_block_bits: "is_wait_opcode opcode \<Longrightarrow> insn_get_block_bits opcode = 0x1FF"
  unfolding is_wait_opcode_def opcode_defs
  by (elim disjE; hypsubst) (simp_all add: insn_get_block_bits_def)

lemma wait_insn_intercepted:
  "gate_wf g \<Longrightarrow> wg_active g \<Longrightarrow> is_wait_opcode opcode \<Longrightarrow>
     insn_get_block_bits opcode AND wg_block_mask g \<noteq> 0"
  by (simp add: wait_insn_block_bits gate_wf_def and.commute)

text \<open>What a SEMWAIT gate waits for.\<close>

lemma semwait_check_iff:
  assumes "wg_active g" "wg_opcode g = OPCODE_SEMWAIT"
  shows "wait_gate_check c g \<longleftrightarrow>
    (\<forall>i < 8. bit (wg_semaphore_mask g) i \<longrightarrow>
       (bit (wg_condition_mask g) 0 \<longrightarrow> 0 < sem c i) \<and>
       (bit (wg_condition_mask g) 1 \<longrightarrow> sem c i < sem_max c i))"
proof -
  have "wait_gate_check c g \<longleftrightarrow>
      \<not> (bit (wg_condition_mask g) 0 \<and> (\<exists>i\<in>set [0..<8]. bit (wg_semaphore_mask g) i \<and> sem c i = 0))
    \<and> \<not> (bit (wg_condition_mask g) 1 \<and>
         (\<exists>i\<in>set [0..<8]. bit (wg_semaphore_mask g) i \<and> sem_max c i \<le> sem c i))"
    using assms and_1_bit[of "wg_condition_mask g"] and_2_bit[of "wg_condition_mask g"]
    unfolding wait_gate_check_def list_ex_iff tst_bit Let_def
    by (auto simp: opcode_defs)
  then show ?thesis
    by (auto simp: word_neq_0_conv not_le)
qed

end
