(* ===== verification/Tensix_Sync.thy ===== *)
theory Tensix_Sync
  imports Wait_Gate
begin

text \<open>
  The synchronisation and configuration instructions of \<^verbatim>\<open>tt_cop/tt_insn.c\<close>: mutexes, semaphores,
  configuration-register access, MOP and REPLAY, and the dispatch \<^verbatim>\<open>tensix_execute_insn\<close>.  The
  remaining units (matrix, vector, pack, unpack, address and DMA instructions) only change the core
  state; they are a parameter \<^verbatim>\<open>unit_op\<close> of the dispatch, given the opcode, the core state, the MOP
  configuration of the thread (which MVMUL reads), the 24-bit immediate and the thread, and returning
  the completion flag and the new core state.
\<close>

section \<open>Pointwise loops\<close>

text \<open>A counting loop that updates, for each index, the array element at that index.\<close>

lemma fold_pointwise:
  assumes "distinct is"
  shows "fold (\<lambda>i f. if P i (f i) then f(i := g i (f i)) else f) is f
    = (\<lambda>i. if i \<in> set is \<and> P i (f i) then g i (f i) else f i)"
  using assms
proof (induction "is" arbitrary: f)
  case (Cons j js)
  then show ?case by (auto simp: fun_eq_iff)
qed simp

section \<open>Mutexes and semaphores\<close>

definition ttatgetm :: "tensix \<Rightarrow> u32 \<Rightarrow> nat \<Rightarrow> tensix" where
  "ttatgetm tt imm tid =
     (let mutex_id = unat (imm AND 0x7) in
      if mutex tt mutex_id = MUTEX_NONE then tt\<lparr>mutex := (mutex tt)(mutex_id := of_nat tid)\<rparr> else tt)"

definition ttatrelm :: "tensix \<Rightarrow> u32 \<Rightarrow> nat \<Rightarrow> tensix" where
  "ttatrelm tt imm tid =
     (let mutex_id = unat (imm AND 0x7) in
      if mutex tt mutex_id = of_nat tid then tt\<lparr>mutex := (mutex tt)(mutex_id := MUTEX_NONE)\<rparr> else tt)"

definition ttseminit :: "tensix \<Rightarrow> u32 \<Rightarrow> nat \<Rightarrow> tensix" where
  "ttseminit tt imm tid =
     (let max_val = drop_bit 20 imm AND 0xF;
          init_val = drop_bit 16 imm AND 0xF;
          sem_mask = drop_bit 2 imm AND 0xFF in
      tt\<lparr>sem := fold (\<lambda>i s. if tst sem_mask i then s(i := init_val) else s) [0..<8] (sem tt),
         sem_max := fold (\<lambda>i s. if tst sem_mask i then s(i := max_val) else s) [0..<8] (sem_max tt)\<rparr>)"

definition ttsempost :: "tensix \<Rightarrow> u32 \<Rightarrow> nat \<Rightarrow> tensix" where
  "ttsempost tt imm tid =
     (let sem_mask = drop_bit 2 imm AND 0xFF;
          tt = tt\<lparr>sem := fold (\<lambda>i s. if tst sem_mask i \<and> s i < 15 then s(i := s i + 1) else s)
                  [0..<8] (sem tt)\<rparr>
      in if tid = 1 then tt\<lparr>dest_dvalid := True\<rparr> else tt)"

definition ttsemget :: "tensix \<Rightarrow> u32 \<Rightarrow> nat \<Rightarrow> tensix" where
  "ttsemget tt imm tid =
     (let sem_mask = drop_bit 2 imm AND 0xFF in
      tt\<lparr>sem := fold (\<lambda>i s. if tst sem_mask i \<and> s i > 0 then s(i := s i - 1) else s)
                  [0..<8] (sem tt)\<rparr>)"

section \<open>Configuration registers\<close>

definition write_cfg_from_gpr :: "nat \<Rightarrow> u32 \<Rightarrow> u32 \<Rightarrow> tensix \<Rightarrow> tensix" where
  "write_cfg_from_gpr tid cfg_index gpr_addr tt =
     (if cfg_index < CFG_REG_COUNT \<and> gpr_addr < DMA_REG_COUNT then
        let v = dma_reg tt tid (unat gpr_addr);
            tt = tt\<lparr>mem := tensix_write_cfg (mem tt) cfg_index v\<rparr>
        in if cfg_index = 69 then tt\<lparr>pack_l1_write_offset := 0\<rparr> else tt
      else tt)"

definition ttwrcfg :: "tensix \<Rightarrow> u32 \<Rightarrow> nat \<Rightarrow> tensix" where
  "ttwrcfg tt imm tid =
     (let gpr_addr = drop_bit 16 imm AND 0x3F;
          wr128b = drop_bit 15 imm AND 0x1;
          cfg_index = imm AND 0x7FFF in
      if wr128b \<noteq> 0 then
        let cfg_base = cfg_index AND NOT 0x3;
            gpr_base = gpr_addr AND NOT 0x3
        in fold (\<lambda>i. write_cfg_from_gpr tid (cfg_base + i) (gpr_base + i)) [0, 1, 2, 3] tt
      else
        let v = dma_reg tt tid (unat gpr_addr);
            tt' = write_cfg_from_gpr tid cfg_index gpr_addr tt
        in if cfg_index < CFG_REG_COUNT \<and> gpr_addr < DMA_REG_COUNT \<and> cfg_index = 186
           then tt'\<lparr>prng_state := fold (\<lambda>lane s. s(lane := v + of_nat lane)) [0..<32] (prng_state tt')\<rparr>
           else tt')"

definition ttrdcfg :: "tensix \<Rightarrow> u32 \<Rightarrow> nat \<Rightarrow> tensix" where
  "ttrdcfg tt imm tid =
     (let gpr_addr = drop_bit 16 imm AND 0x3F;
          cfg_index = imm AND 0xFFFF in
      if cfg_index < CFG_REG_COUNT \<and> gpr_addr < DMA_REG_COUNT
      then tt\<lparr>dma_reg := (dma_reg tt)(tid := (dma_reg tt tid)
                (unat gpr_addr := tensix_read_cfg (mem tt) cfg_index))\<rparr>
      else tt)"

definition ttsetc16 :: "tensix \<Rightarrow> u32 \<Rightarrow> nat \<Rightarrow> tensix" where
  "ttsetc16 tt imm tid =
     (let cfg_index = drop_bit 16 imm AND 0xFF;
          v = imm AND 0xFFFF in
      if cfg_index < THD_REG_COUNT
      then tt\<lparr>thd_reg := (thd_reg tt)(tid := (thd_reg tt tid)(unat cfg_index := v))\<rparr>
      else tt)"

definition rmwcib_common :: "tensix \<Rightarrow> u32 \<Rightarrow> u32 \<Rightarrow> tensix" where
  "rmwcib_common tt imm byte_offset =
     (let mask = drop_bit 16 imm AND 0xFF;
          new_value = drop_bit 8 imm AND 0xFF;
          index4 = imm AND 0xFF in
      case high_mem (mem tt) of
        None \<Rightarrow> tt
      | Some hm \<Rightarrow>
          if index4 \<ge> CFG_REG_COUNT then tt
          else
            let a = TENSIX_CFG_OFFSET_IN_HIGH_MEM + index4 * 4 + byte_offset;
                old_byte = hm a;
                new_byte = (ucast (new_value AND mask) :: u8) OR (old_byte AND NOT (ucast mask));
                tt = tt\<lparr>mem := (mem tt)\<lparr>high_mem := Some (hm(a := new_byte))\<rparr>\<rparr>
            in if index4 = 69 then tt\<lparr>pack_l1_write_offset := 0\<rparr> else tt)"

text \<open>For a rotation by zero the C shift by 32 is undefined; the x86 shift leaves the value, so the
  disjunction is the value either way.\<close>

definition cfg_rotr32 :: "u32 \<Rightarrow> u32 \<Rightarrow> u32" where
  "cfg_rotr32 v n = (let n = unat (n AND 31) in drop_bit n v OR push_bit (32 - n) v)"

definition ttcfgshiftmask :: "tensix \<Rightarrow> u32 \<Rightarrow> nat \<Rightarrow> tensix" where
  "ttcfgshiftmask tt imm tid =
     (let mask_mode = drop_bit 23 imm AND 0x1;
          alu_mode = drop_bit 20 imm AND 0x7;
          mask_width = drop_bit 15 imm AND 0x1F;
          rotate_amt = drop_bit 10 imm AND 0x1F;
          scratch_sel = drop_bit 8 imm AND 0x3;
          cfg_index = imm AND 0xFF in
      if cfg_index \<ge> CFG_STATE_REGS then tt
      else
        let scratch_idx = (if scratch_sel < 3 then scratch_sel else of_nat tid);
            scratch_reg = 209 + scratch_idx;
            scratch_val = tensix_read_cfg (mem tt) scratch_reg;
            mask = push_bit (unat mask_width) 2 - 1;
            scratch_val = cfg_rotr32 (scratch_val AND mask) rotate_amt;
            state_id = thd_reg tt tid 0 AND 0x1;
            cfg_actual = cfg_index + state_id * CFG_STATE_REGS;
            cfg_val = tensix_read_cfg (mem tt) cfg_actual;
            cfg_val = (if mask_mode = 0 then cfg_val AND NOT (cfg_rotr32 mask rotate_amt) else cfg_val);
            cfg_val = (if alu_mode = 0 then cfg_val OR scratch_val
                       else if alu_mode = 1 then cfg_val AND scratch_val
                       else if alu_mode = 2 then cfg_val XOR scratch_val
                       else if alu_mode = 3 then cfg_val + scratch_val
                       else if alu_mode = 4 then cfg_val OR NOT scratch_val
                       else if alu_mode = 5 then cfg_val AND NOT scratch_val
                       else if alu_mode = 6 then cfg_val XOR NOT scratch_val
                       else cfg_val - scratch_val)
        in tt\<lparr>mem := tensix_write_cfg (mem tt) cfg_actual cfg_val\<rparr>)"

section \<open>MOP and REPLAY\<close>

definition ttmop_cfg :: "tensix_thread_cop \<Rightarrow> u32 \<Rightarrow> tensix_thread_cop" where
  "ttmop_cfg th imm =
     (let cfg_idx = drop_bit 20 imm AND 0xF;
          cfg_value = imm AND 0xFFFFF in
      if cfg_idx < 9 then th\<lparr>mop_cfg := (mop_cfg th)[unat cfg_idx := cfg_value]\<rparr>
      else if cfg_idx = 9 then th\<lparr>zmask_hi16 := cfg_value AND 0xFFFF\<rparr>
      else th)"

definition ttreplay :: "tensix \<Rightarrow> u32 \<Rightarrow> nat \<Rightarrow> tensix" where
  "ttreplay tt imm tid =
     (let start_idx = drop_bit 14 imm AND 0x1F;
          count = drop_bit 4 imm AND 0x3FF;
          exec = drop_bit 1 imm AND 0x1;
          load = imm AND 0x1;
          count = (if count = 0 then 64 else count) in
      if load \<noteq> 0 then
        tt\<lparr>replay_index := (replay_index tt)(tid := start_idx),
           replay_left := (replay_left tt)(tid := count),
           replay_execute_while_loading := (replay_execute_while_loading tt)(tid := (exec \<noteq> 0)),
           replay_recording := (replay_recording tt)(tid := True)\<rparr>
      else
        tt\<lparr>replay_expanding := (replay_expanding tt)(tid := True),
           replay_expand_start := (replay_expand_start tt)(tid := start_idx),
           replay_expand_count := (replay_expand_count tt)(tid := count),
           replay_expand_current := (replay_expand_current tt)(tid := 0)\<rparr>)"

section \<open>Dispatch\<close>

text \<open>Reserved opcodes, and the instructions whose body only reports that they are not implemented,
  do nothing and complete.\<close>

definition tt_stub :: "u32 \<Rightarrow> bool" where
  "tt_stub opcode \<longleftrightarrow> opcode \<in> set [0x00, 0x06, 0x07, 0x0d, 0x0e, 0x0f, 0x19, 0x1f, 0x20,
     0x2a, 0x2b, 0x2c, 0x2d, 0x2e, 0x2f, 0x3b, 0x3c, 0x3d, 0x3e, 0x3f, 0x47, 0x4c, 0x4d, 0x4e, 0x4f,
     0x5f, 0x65, 0x69, 0x6a, 0x6b, 0x6c, 0x6d, 0x6e, 0x6f, 0x9a, 0x9b, 0x9c, 0x9d, 0x9e, 0x9f,
     0xa8, 0xa9, 0xaa, 0xab, 0xac, 0xad, 0xae, 0xaf, 0xb9, 0xba, 0xbb, 0xbc, 0xbd, 0xbe, 0xbf]
     \<or> opcode \<ge> 0xc0
     \<or> opcode \<in> set [0x02, 0x05, 0x09, 0x0c, 0x14, 0x15, 0x17, 0x18, 0x1a, 0x1b, 0x1c, 0x1d, 0x1e,
     0x21, 0x22, 0x23, 0x24, 0x25, 0x29, 0x31, 0x32, 0x35, 0x39, 0x3a, 0x40, 0x44, 0x46, 0x48, 0x49,
     0x4a, 0x4b, 0x60, 0x61, 0x62, 0x63, 0x64, 0x66, 0x73, 0x76, 0x81, 0x83, 0x8f, 0x93, 0x94, 0x96,
     0x97, 0x98, 0xa2, 0xa6, 0xa7, 0xb7]"

type_synonym unit_op = "u32 \<Rightarrow> tensix \<Rightarrow> u32 list \<Rightarrow> u32 \<Rightarrow> nat \<Rightarrow> bool \<times> tensix"

text \<open>A unit that completes every instruction without an effect, for concrete instances.\<close>

definition idle_unit :: unit_op where
  "idle_unit opcode tt cfg imm tid = (True, tt)"

definition tensix_execute_insn :: "unit_op \<Rightarrow> tensix_cop \<Rightarrow> u32 \<Rightarrow> nat \<Rightarrow> bool \<times> tensix_cop" where
  "tensix_execute_insn unit_op cop insn tid =
     (let opcode = drop_bit 24 insn AND 0xFF;
          imm = insn AND 0x00FFFFFF;
          on_core = (\<lambda>g. (True, upd_core (\<lambda>tt. g tt imm tid) cop)) in
      if tt_stub opcode then (True, cop)
      else if opcode = 0x01 then (True, upd_thread tid (\<lambda>th. tensix_cop_mop_expand th imm) cop)
      else if opcode = 0x03 then (True, upd_thread tid (\<lambda>th. ttmop_cfg th imm) cop)
      else if opcode = 0x04 then on_core ttreplay
      else if opcode = 0xa0 then on_core ttatgetm
      else if opcode = 0xa1 then on_core ttatrelm
      else if opcode = 0xa3 then on_core ttseminit
      else if opcode = 0xa4 then on_core ttsempost
      else if opcode = 0xa5 then on_core ttsemget
      else if opcode = 0xb0 then on_core ttwrcfg
      else if opcode = 0xb1 then on_core ttrdcfg
      else if opcode = 0xb2 then on_core ttsetc16
      else if opcode = 0xb3 then on_core (\<lambda>tt imm tid. rmwcib_common tt imm 0)
      else if opcode = 0xb4 then on_core (\<lambda>tt imm tid. rmwcib_common tt imm 1)
      else if opcode = 0xb5 then on_core (\<lambda>tt imm tid. rmwcib_common tt imm 2)
      else if opcode = 0xb6 then on_core (\<lambda>tt imm tid. rmwcib_common tt imm 3)
      else if opcode = 0xb8 then on_core ttcfgshiftmask
      else (let (ok, tt) = unit_op opcode (core cop) (mop_cfg (threads cop tid)) imm tid
            in (ok, upd_core (\<lambda>_. tt) cop)))"

section \<open>Semaphores stay in range\<close>

definition sems_ok :: "tensix \<Rightarrow> bool" where
  "sems_ok tt \<longleftrightarrow> (\<forall>i < 8. sem tt i \<le> 15)"

lemma and_15_le: "x AND 0xF \<le> 15" for x :: u32
  using word_and_le1[of x 15] by (simp add: and.commute)

lemma seminit_sem: "sem (ttseminit tt imm tid) i =
    (if i < 8 \<and> bit (drop_bit 2 imm AND 0xFF) i then drop_bit 16 imm AND 0xF else sem tt i)"
  using fold_pointwise[of "[0..<8]" "\<lambda>i _. tst (drop_bit 2 imm AND 0xFF) i" "\<lambda>_ _. drop_bit 16 imm AND 0xF"]
  by (simp add: ttseminit_def Let_def tst_bit)

lemma sempost_sem: "sem (ttsempost tt imm tid) i =
    (if i < 8 \<and> bit (drop_bit 2 imm AND 0xFF) i \<and> sem tt i < 15 then sem tt i + 1 else sem tt i)"
  using fold_pointwise[of "[0..<8]" "\<lambda>i (x :: u32). tst (drop_bit 2 imm AND 0xFF) i \<and> x < 15"
      "\<lambda>_ x. x + 1"]
  by (simp add: ttsempost_def Let_def tst_bit)

lemma semget_sem: "sem (ttsemget tt imm tid) i =
    (if i < 8 \<and> bit (drop_bit 2 imm AND 0xFF) i \<and> sem tt i > 0 then sem tt i - 1 else sem tt i)"
  using fold_pointwise[of "[0..<8]" "\<lambda>i (x :: u32). tst (drop_bit 2 imm AND 0xFF) i \<and> x > 0"
      "\<lambda>_ x. x - 1"]
  by (simp add: ttsemget_def Let_def tst_bit)

lemma inc_le_15: "x < 15 \<Longrightarrow> x + 1 \<le> 15" for x :: u32
  by (simp add: inc_le)

lemma dec_le_15: "x \<le> 15 \<Longrightarrow> 0 < x \<Longrightarrow> x - 1 \<le> 15" for x :: u32
  by (simp add: word_le_nat_alt word_less_nat_alt unat_sub_if')

lemma sems_ok_seminit [wf_intros]: "sems_ok tt \<Longrightarrow> sems_ok (ttseminit tt imm tid)"
  by (simp add: sems_ok_def seminit_sem and_15_le)

lemma sems_ok_sempost [wf_intros]: "sems_ok tt \<Longrightarrow> sems_ok (ttsempost tt imm tid)"
  by (simp add: sems_ok_def sempost_sem inc_le_15)

lemma sems_ok_semget [wf_intros]: "sems_ok tt \<Longrightarrow> sems_ok (ttsemget tt imm tid)"
  by (simp add: sems_ok_def semget_sem dec_le_15)

section \<open>Properties\<close>

lemma tst_sem_mask: "i < 8 \<Longrightarrow> tst (drop_bit 2 imm AND 0xFF :: u32) i \<longleftrightarrow> bit imm (i + 2)"
proof -
  assume "i < 8"
  moreover have m: "(0xFF :: u32) = mask 8" by (simp add: mask_eq_exp_minus_1)
  ultimately show ?thesis unfolding m tst_bit by (auto simp: bit_simps ac_simps dest: bit_imp_le_length)
qed

text \<open>C31: SEMPOST and SEMGET move exactly the selected semaphores (bits 2 to 9 of the instruction) by one and nothing else,
  except that a post by thread 1 also marks the destination register valid.  A semaphore at 15 is not
  posted and one at 0 is not taken, and a post followed by a get of the same selection restores every semaphore that was
  below 15.\<close>

theorem sempost_semget_roundtrip:
  shows "ttsempost tt imm tid = tt\<lparr>sem := (\<lambda>i. if i < 8 \<and> bit imm (i + 2) \<and> sem tt i < 15 then sem tt i + 1 else sem tt i),
      dest_dvalid := (tid = 1 \<or> dest_dvalid tt)\<rparr>
    \<and> ttsemget tt imm tid = tt\<lparr>sem := (\<lambda>i. if i < 8 \<and> bit imm (i + 2) \<and> sem tt i > 0 then sem tt i - 1 else sem tt i)\<rparr>
    \<and> (\<forall>i. sem tt i < 15 \<longrightarrow> sem (ttsemget (ttsempost tt imm tid) imm tid') i = sem tt i)"
proof -
  have post: "ttsempost tt imm tid = tt\<lparr>sem := (\<lambda>i. if i < 8 \<and> bit imm (i + 2) \<and> sem tt i < 15 then sem tt i + 1 else sem tt i),
      dest_dvalid := (tid = 1 \<or> dest_dvalid tt)\<rparr>" for tt tid
  proof -
    have "fold (\<lambda>i s. if tst (drop_bit 2 imm AND 0xFF) i \<and> s i < 15 then s(i := s i + 1) else s) [0..<8] (sem tt)
        = (\<lambda>i. if i < 8 \<and> bit imm (i + 2) \<and> sem tt i < 15 then sem tt i + 1 else sem tt i)"
      using fold_pointwise[of "[0..<8]" "\<lambda>i (x :: u32). tst (drop_bit 2 imm AND 0xFF) i \<and> x < 15" "\<lambda>_ x. x + 1" "sem tt"]
      by (auto simp: fun_eq_iff tst_sem_mask)
    then show ?thesis by (simp add: ttsempost_def Let_def)
  qed
  have get: "ttsemget tt imm tid = tt\<lparr>sem := (\<lambda>i. if i < 8 \<and> bit imm (i + 2) \<and> sem tt i > 0 then sem tt i - 1 else sem tt i)\<rparr>" for tt tid
  proof -
    have "fold (\<lambda>i s. if tst (drop_bit 2 imm AND 0xFF) i \<and> s i > 0 then s(i := s i - 1) else s) [0..<8] (sem tt)
        = (\<lambda>i. if i < 8 \<and> bit imm (i + 2) \<and> sem tt i > 0 then sem tt i - 1 else sem tt i)"
      using fold_pointwise[of "[0..<8]" "\<lambda>i (x :: u32). tst (drop_bit 2 imm AND 0xFF) i \<and> x > 0" "\<lambda>_ x. x - 1" "sem tt"]
      by (auto simp: fun_eq_iff tst_sem_mask)
    then show ?thesis by (simp add: ttsemget_def Let_def)
  qed
  have "sem tt i + 1 \<noteq> 0" if "sem tt i < 15" for i using that by (metis Zero_not_Suc unat_0 unat_Suc_less_word)
  then have "sem (ttsemget (ttsempost tt imm tid) imm tid') i = sem tt i" if "sem tt i < 15" for i
    using that by (simp add: post get word_neq_0_conv)
  with post get show ?thesis by blast
qed

theorem sempost_semget_roundtrip_witness:
  "sem (ttsemget (ttsempost (zero_tensix demo_memory) 4 0) 4 0) 0 = 0 \<and> sem (ttsempost (zero_tensix demo_memory) 4 0) 0 = 1"
proof -
  have z: "sem (zero_tensix demo_memory) i = 0" for i by (simp add: zero_tensix_def)
  note r = sempost_semget_roundtrip[of "zero_tensix demo_memory" 4 0 0]
  have "sem (ttsemget (ttsempost (zero_tensix demo_memory) 4 0) 4 0) 0 = 0" using r[THEN conjunct2, THEN conjunct2] z by simp
  moreover have "sem (ttsempost (zero_tensix demo_memory) 4 0) 0 = 1" using r[THEN conjunct1] z by (simp add: bit_numeral_rec)
  ultimately show ?thesis by blast
qed

text \<open>C32: ATGETM does not wait.  When the mutex is held by another thread the instruction completes
  without changing the owner, so the requesting thread goes on as if it had acquired the mutex; ATRELM
  releases only the owner's mutex.\<close>

theorem atgetm_completes_without_mutex:
  assumes "tensix_insn_opcode insn = 0xA0" "imm = tensix_insn_param insn"
    "mutex (core cop) (unat (imm AND 7)) = owner" "owner \<noteq> MUTEX_NONE" "owner \<noteq> of_nat tid"
  shows "tensix_execute_insn u cop insn tid = (True, cop) \<and> ttatrelm (core cop) imm tid = core cop"
proof -
  have "upd_core (\<lambda>tt. ttatgetm tt imm tid) cop = cop"
    using assms by (simp add: upd_core_def ttatgetm_def Let_def)
  then show ?thesis
    using assms by (simp add: tensix_execute_insn_def Let_def tt_stub_def ttatrelm_def
        tensix_insn_opcode_def tensix_insn_param_def)
qed

theorem atgetm_completes_without_mutex_witness:
  "tensix_execute_insn idle_unit \<lparr>threads = (\<lambda>_. zero_thread),
       core = (zero_tensix demo_memory)\<lparr>mutex := (\<lambda>_. 2)\<rparr>, halted = False, total_cycles = 0\<rparr> 0xA0000003 1
   = (True, \<lparr>threads = (\<lambda>_. zero_thread),
       core = (zero_tensix demo_memory)\<lparr>mutex := (\<lambda>_. 2)\<rparr>, halted = False, total_cycles = 0\<rparr>)"
  using atgetm_completes_without_mutex[of "0xA0000003" 3 "\<lparr>threads = (\<lambda>_. zero_thread),
       core = (zero_tensix demo_memory)\<lparr>mutex := (\<lambda>_. 2)\<rparr>, halted = False, total_cycles = 0\<rparr>" 2 1 idle_unit]
  by (simp add: tensix_insn_opcode_def tensix_insn_param_def MUTEX_NONE_def)

text \<open>C30: WRCFG followed by RDCFG of the same configuration register into another general-purpose
  register copies the value, and leaves every other configuration register unchanged.\<close>

theorem wrcfg_rdcfg_roundtrip:
  assumes "high_mem (mem tt) \<noteq> None" "r < CFG_REG_COUNT"
    "drop_bit 16 wr AND 0x3F = g" "drop_bit 15 wr AND 1 = 0" "wr AND 0x7FFF = r"
    "drop_bit 16 rd AND 0x3F = h" "rd AND 0xFFFF = r"
  shows "dma_reg (ttrdcfg (ttwrcfg tt wr tid) rd tid) tid (unat h) = dma_reg tt tid (unat g)
    \<and> (\<forall>s. s = r \<or> tensix_read_cfg (mem (ttwrcfg tt wr tid)) s = tensix_read_cfg (mem tt) s)"
proof -
  have gpr: "x AND 0x3F < DMA_REG_COUNT" for x :: u32
    using word_and_less_mask[of 6 x] by (simp add: cfg_consts mask_eq_exp_minus_1)
  have m: "mem (ttwrcfg tt wr tid) = tensix_write_cfg (mem tt) r (dma_reg tt tid (unat g))"
    using assms gpr[of "drop_bit 16 wr"]
    by (simp add: ttwrcfg_def write_cfg_from_gpr_def Let_def)
  then have "dma_reg (ttrdcfg (ttwrcfg tt wr tid) rd tid) tid (unat h) = dma_reg tt tid (unat g)"
    using assms gpr[of "drop_bit 16 rd"] by (simp add: ttrdcfg_def Let_def read_write_cfg_same)
  with m show ?thesis using read_write_cfg_other[OF assms(2)] by metis
qed

theorem wrcfg_rdcfg_roundtrip_witness:
  "dma_reg (ttrdcfg (ttwrcfg ((zero_tensix \<lparr>l1_scratchpad = (\<lambda>_. 0), high_mem = Some (\<lambda>_. 0), t0_ldm = None,
       t1_ldm = None, t2_ldm = None\<rparr>)\<lparr>dma_reg := (\<lambda>_ _. 42)\<rparr>) 0x10045 0) 0x20045 0) 0 2 = 42"
  using wrcfg_rdcfg_roundtrip[of "(zero_tensix \<lparr>l1_scratchpad = (\<lambda>_. 0), high_mem = Some (\<lambda>_. 0),
      t0_ldm = None, t1_ldm = None, t2_ldm = None\<rparr>)\<lparr>dma_reg := (\<lambda>_ _. 42)\<rparr>" "0x45" "0x10045" 1 "0x20045" 2 0]
  by (simp add: zero_tensix_def cfg_consts)

end
