(* ===== verification/Tensix_Cop.thy ===== *)
theory Tensix_Cop
  imports Tensix_Sync
begin

text \<open>
  The coprocessor state machine (\<^verbatim>\<open>tt_cop/tensix_cop.c\<close>): initialisation, the FIFO interface, one
  step of a thread (fetch, Wait Gate, operand auto-wait, execution), the loops built on it, and the
  direct path for instructions embedded in RISC-V code, which drains the FIFO, a MOP expansion and a
  REPLAY expansion before it executes its instruction.  Loops that an instruction stream can keep
  alive (a REPLAY inside a replayed sequence, a MOP inside a MOP) are partial: \<^const>\<open>None\<close> means
  that the call does not return.
\<close>

section \<open>Initialisation and the FIFO interface\<close>

definition tensix_cop_init_thread :: "tensix_thread_cop \<Rightarrow> tensix_thread_cop" where
  "tensix_cop_init_thread thread =
     thread\<lparr>insn_fifo := tensix_fifo_init, th_state := THREAD_STATE_IDLE, wait_gate := zero_wait_gate,
            current_insn := 0, has_current_insn := False, direct_insn := 0, has_direct_insn := False,
            mop_state := zero_mop_state, insn_executed := 0, cycles_idle := 0, cycles_waiting := 0\<rparr>"

definition tensix_cop_init :: "tensix \<Rightarrow> tensix_cop" where
  "tensix_cop_init tt = \<lparr>threads = (\<lambda>_. tensix_cop_init_thread zero_thread), core = tt,
     halted = False, total_cycles = 0\<rparr>"

definition tensix_cop_reset :: "tensix_cop \<Rightarrow> tensix_cop" where
  "tensix_cop_reset cop =
     (fold (\<lambda>i. upd_thread i tensix_cop_init_thread) [0..<3] cop)\<lparr>halted := False, total_cycles := 0\<rparr>"

definition tensix_cop_halt :: "tensix_cop \<Rightarrow> tensix_cop" where
  "tensix_cop_halt cop = cop\<lparr>halted := True\<rparr>"

definition tensix_cop_resume :: "tensix_cop \<Rightarrow> tensix_cop" where
  "tensix_cop_resume cop = cop\<lparr>halted := False\<rparr>"

definition bad_core :: "int \<Rightarrow> bool" where
  "bad_core core_id \<longleftrightarrow> core_id < 0 \<or> core_id \<ge> 3"

definition tensix_cop_push :: "tensix_cop \<Rightarrow> int \<Rightarrow> u32 \<Rightarrow> bool \<times> tensix_cop" where
  "tensix_cop_push cop core_id insn =
     (if bad_core core_id then (False, cop)
      else let (ok, f) = tensix_fifo_push (insn_fifo (threads cop (nat core_id))) insn
           in (ok, upd_thread (nat core_id) (\<lambda>th. th\<lparr>insn_fifo := f\<rparr>) cop))"

definition tensix_cop_is_waiting :: "tensix_cop \<Rightarrow> int \<Rightarrow> bool" where
  "tensix_cop_is_waiting cop core_id =
     (if bad_core core_id then False else wg_active (wait_gate (threads cop (nat core_id))))"

definition tensix_cop_fifo_empty :: "tensix_cop \<Rightarrow> int \<Rightarrow> bool" where
  "tensix_cop_fifo_empty cop core_id =
     (if bad_core core_id then True else tensix_fifo_is_empty (insn_fifo (threads cop (nat core_id))))"

definition tensix_cop_fifo_full :: "tensix_cop \<Rightarrow> int \<Rightarrow> bool" where
  "tensix_cop_fifo_full cop core_id =
     (if bad_core core_id then False else tensix_fifo_is_full (insn_fifo (threads cop (nat core_id))))"

definition tensix_cop_fifo_count :: "tensix_cop \<Rightarrow> int \<Rightarrow> u32" where
  "tensix_cop_fifo_count cop core_id =
     (if bad_core core_id then 0 else tensix_fifo_count (insn_fifo (threads cop (nat core_id))))"

section \<open>One step of a thread\<close>

text \<open>The next instruction: the held one, else the head of the FIFO.\<close>

definition fetch_insn :: "tensix_thread_cop \<Rightarrow> (u32 \<times> tensix_thread_cop) option" where
  "fetch_insn thread =
     (if has_current_insn thread then Some (current_insn thread, thread\<lparr>has_current_insn := False\<rparr>)
      else case tensix_fifo_pop (insn_fifo thread) of
             None \<Rightarrow> None
           | Some (insn, f) \<Rightarrow> Some (insn, thread\<lparr>insn_fifo := f\<rparr>))"

text \<open>Blocked instructions stay with the thread.\<close>

definition hold_insn :: "u32 \<Rightarrow> tensix_thread_cop \<Rightarrow> tensix_thread_cop" where
  "hold_insn insn thread =
     thread\<lparr>current_insn := insn, has_current_insn := True, th_state := THREAD_STATE_WAITING\<rparr>"

definition count_waiting :: "tensix_thread_cop \<Rightarrow> tensix_thread_cop" where
  "count_waiting thread = thread\<lparr>cycles_waiting := cycles_waiting thread + 1\<rparr>"

definition count_executed :: "tensix_thread_cop \<Rightarrow> tensix_thread_cop" where
  "count_executed thread =
     thread\<lparr>th_state := THREAD_STATE_RUNNING, insn_executed := insn_executed thread + 1\<rparr>"

text \<open>The Wait Gate: \<^const>\<open>None\<close> if the instruction is blocked, else the thread, with the gate
  released if the instruction was one the gate blocks.\<close>

definition wait_gate_pass :: "tensix \<Rightarrow> tensix_thread_cop \<Rightarrow> u32 \<Rightarrow> tensix_thread_cop option" where
  "wait_gate_pass c thread opcode =
     (if wg_active (wait_gate thread) then
        let insn_block_bits = insn_get_block_bits opcode;
            insn_block_bits =
              (if opcode = OPCODE_NOP \<and> wg_block_mask (wait_gate thread) = 0x1FF then 0x1FF
               else insn_block_bits) in
        if insn_block_bits AND wg_block_mask (wait_gate thread) \<noteq> 0 then
          if \<not> wait_gate_check c (wait_gate thread) then None else Some (wait_gate_clear thread)
        else Some thread
      else Some thread)"

text \<open>The operand auto-wait on the data-valid flags of the source and destination banks.\<close>

definition dvalid_blocked :: "tensix \<Rightarrow> u32 \<Rightarrow> bool" where
  "dvalid_blocked c insn =
     (let opcode = tensix_insn_opcode insn in
      if insn_needs_srca opcode \<and> \<not> srca_dvalid c (unat (math_srca_bank c)) then True
      else if insn_needs_srcb opcode \<and> \<not> srcb_dvalid c (unat (math_srcb_bank c)) then True
      else if insn_needs_dest opcode \<and> \<not> dest_dvalid c then True
      else if opcode = OPCODE_UNPACR then
        let which_unp = drop_bit 23 insn AND 0x1 in
        (which_unp = 0 \<and> srca_dvalid c (unat (unp_srca_bank c)))
        \<or> (which_unp = 1 \<and> srcb_dvalid c (unat (unp_srcb_bank c)))
      else False)"

definition tensix_cop_execute_insn :: "unit_op \<Rightarrow> tensix_cop \<Rightarrow> nat \<Rightarrow> u32 \<Rightarrow> bool \<times> tensix_cop" where
  "tensix_cop_execute_insn unit_op cop core_id insn = tensix_execute_insn unit_op cop insn core_id"

definition tensix_cop_step :: "unit_op \<Rightarrow> tensix_cop \<Rightarrow> int \<Rightarrow> bool \<times> tensix_cop" where
  "tensix_cop_step unit_op cop core_id =
     (if bad_core core_id then (False, cop)
      else if halted cop then (False, cop)
      else let i = nat core_id in
      case fetch_insn (threads cop i) of
        None \<Rightarrow>
          (False, upd_thread i (\<lambda>th. th\<lparr>th_state := THREAD_STATE_IDLE,
                                        cycles_idle := cycles_idle th + 1\<rparr>) cop)
      | Some (insn, th) \<Rightarrow>
          let opcode = tensix_insn_opcode insn; cop = upd_thread i (\<lambda>_. th) cop in
          if opcode = 0x03 then
            (True, upd_thread i (\<lambda>th. count_executed (th\<lparr>zmask_hi16 := insn AND 0x00FFFFFF\<rparr>)) cop)
          else
            case wait_gate_pass (core cop) th opcode of
              None \<Rightarrow> (False, upd_thread i (\<lambda>th. count_waiting (hold_insn insn th)) cop)
            | Some th \<Rightarrow>
                let cop = upd_thread i (\<lambda>_. th) cop in
                if is_wait_opcode opcode then
                  (True, upd_thread i (\<lambda>th. count_executed (wait_gate_latch th insn)) cop)
                else if dvalid_blocked (core cop) insn then
                  (False, upd_thread i (hold_insn insn) cop)
                else
                  let (ok, cop) = tensix_cop_execute_insn unit_op cop i insn in
                  if \<not> ok then (False, upd_thread i (\<lambda>th. count_waiting (hold_insn insn th)) cop)
                  else (True, upd_thread i count_executed cop))"

definition tensix_cop_step_all :: "unit_op \<Rightarrow> tensix_cop \<Rightarrow> int \<times> tensix_cop" where
  "tensix_cop_step_all unit_op cop =
     (let (b0, cop) = tensix_cop_step unit_op cop 0;
          (b1, cop) = tensix_cop_step unit_op cop 1;
          (b2, cop) = tensix_cop_step unit_op cop 2
      in (of_bool b0 + of_bool b1 + of_bool b2, cop\<lparr>total_cycles := total_cycles cop + 1\<rparr>))"

fun run_steps :: "unit_op \<Rightarrow> nat \<Rightarrow> tensix_cop \<Rightarrow> int \<Rightarrow> int \<times> tensix_cop" where
  "run_steps unit_op 0 cop core_id = (0, cop)"
| "run_steps unit_op (Suc n) cop core_id =
     (let (ok, cop) = tensix_cop_step unit_op cop core_id in
      if \<not> ok then (0, cop)
      else let (k, cop) = run_steps unit_op n cop core_id in (k + 1, cop))"

definition tensix_cop_run_until_wait :: "unit_op \<Rightarrow> tensix_cop \<Rightarrow> int \<Rightarrow> int \<Rightarrow> int \<times> tensix_cop" where
  "tensix_cop_run_until_wait unit_op cop core_id max_insns = run_steps unit_op (nat max_insns) cop core_id"

definition tensix_cop_run_until_wait_all :: "unit_op \<Rightarrow> tensix_cop \<Rightarrow> int \<Rightarrow> int \<times> tensix_cop" where
  "tensix_cop_run_until_wait_all unit_op cop max_insns =
     (let (n0, cop) = tensix_cop_run_until_wait unit_op cop 0 max_insns;
          (n1, cop) = tensix_cop_run_until_wait unit_op cop 1 max_insns;
          (n2, cop) = tensix_cop_run_until_wait unit_op cop 2 max_insns
      in (n0 + n1 + n2, cop))"

section \<open>What a step consumes\<close>

text \<open>The instructions a thread still has to execute, oldest first.\<close>

definition pending :: "tensix_thread_cop \<Rightarrow> u32 list" where
  "pending th = (if has_current_insn th then [current_insn th] else []) @ fifo_abs (insn_fifo th)"

text \<open>The number of entries left, which bounds the loops over \<^const>\<open>tensix_cop_step\<close>.\<close>

definition backlog :: "tensix_cop \<Rightarrow> nat \<Rightarrow> nat" where
  "backlog cop i = unat (fifo_count (insn_fifo (threads cop i))) + of_bool (has_current_insn (threads cop i))"

lemma mop_expand_frame [simp]:
  "insn_fifo (tensix_cop_mop_expand th p) = insn_fifo th"
  "wait_gate (tensix_cop_mop_expand th p) = wait_gate th"
  "has_current_insn (tensix_cop_mop_expand th p) = False"
  "mop_cfg (tensix_cop_mop_expand th p) = mop_cfg th"
  "direct_insn (tensix_cop_mop_expand th p) = direct_insn th"
  "has_direct_insn (tensix_cop_mop_expand th p) = has_direct_insn th"
  by (simp_all add: tensix_cop_mop_expand_def Let_def)

lemma ttmop_cfg_frame [simp]:
  "insn_fifo (ttmop_cfg th p) = insn_fifo th"
  "wait_gate (ttmop_cfg th p) = wait_gate th"
  "has_current_insn (ttmop_cfg th p) = has_current_insn th"
  "length (mop_cfg (ttmop_cfg th p)) = length (mop_cfg th)"
  "direct_insn (ttmop_cfg th p) = direct_insn th"
  "has_direct_insn (ttmop_cfg th p) = has_direct_insn th"
  by (simp_all add: ttmop_cfg_def Let_def)

text \<open>An instruction changes at most the MOP state and configuration of its own thread.\<close>

lemma execute_cases:
  assumes "tensix_execute_insn u cop insn tid = (ok, cop')"
  obtains g where "threads cop' = threads cop" "core cop' = g" "halted cop' = halted cop"
      "total_cycles cop' = total_cycles cop"
  | "ok" "cop' = upd_thread tid (\<lambda>th. tensix_cop_mop_expand th (insn AND 0x00FFFFFF)) cop"
  | "ok" "cop' = upd_thread tid (\<lambda>th. ttmop_cfg th (insn AND 0x00FFFFFF)) cop"
  using assms
  by (auto simp: tensix_execute_insn_def Let_def split: if_splits prod.splits)

lemma execute_frame:
  assumes "tensix_execute_insn u cop insn tid = (ok, cop')"
  shows "j \<noteq> tid \<Longrightarrow> threads cop' j = threads cop j"
    "insn_fifo (threads cop' j) = insn_fifo (threads cop j)"
    "wait_gate (threads cop' j) = wait_gate (threads cop j)"
    "has_current_insn (threads cop' j) \<Longrightarrow> has_current_insn (threads cop j)"
    "length (mop_cfg (threads cop' j)) = length (mop_cfg (threads cop j))"
    "direct_insn (threads cop' j) = direct_insn (threads cop j)"
    "has_direct_insn (threads cop' j) = has_direct_insn (threads cop j)"
    "halted cop' = halted cop" "total_cycles cop' = total_cycles cop"
  using assms by (auto elim!: execute_cases split: if_splits)

lemma hold_count_simps [simp]:
  "insn_fifo (hold_insn insn th) = insn_fifo th" "wait_gate (hold_insn insn th) = wait_gate th"
  "has_current_insn (hold_insn insn th)" "current_insn (hold_insn insn th) = insn"
  "mop_cfg (hold_insn insn th) = mop_cfg th" "direct_insn (hold_insn insn th) = direct_insn th"
  "has_direct_insn (hold_insn insn th) = has_direct_insn th"
  "th_state (hold_insn insn th) = THREAD_STATE_WAITING"
  "insn_fifo (count_waiting th) = insn_fifo th" "wait_gate (count_waiting th) = wait_gate th"
  "has_current_insn (count_waiting th) = has_current_insn th"
  "current_insn (count_waiting th) = current_insn th" "mop_cfg (count_waiting th) = mop_cfg th"
  "direct_insn (count_waiting th) = direct_insn th" "th_state (count_waiting th) = th_state th"
  "has_direct_insn (count_waiting th) = has_direct_insn th"
  "insn_fifo (count_executed th) = insn_fifo th" "wait_gate (count_executed th) = wait_gate th"
  "has_current_insn (count_executed th) = has_current_insn th"
  "current_insn (count_executed th) = current_insn th" "mop_cfg (count_executed th) = mop_cfg th"
  "direct_insn (count_executed th) = direct_insn th"
  "has_direct_insn (count_executed th) = has_direct_insn th"
  "th_state (count_executed th) = THREAD_STATE_RUNNING"
  by (simp_all add: hold_insn_def count_waiting_def count_executed_def)

lemma wait_gate_clear_simps [simp]:
  "insn_fifo (wait_gate_clear th) = insn_fifo th" "wait_gate (wait_gate_clear th) = zero_wait_gate"
  "has_current_insn (wait_gate_clear th) = has_current_insn th" "mop_cfg (wait_gate_clear th) = mop_cfg th"
  "direct_insn (wait_gate_clear th) = direct_insn th"
  "has_direct_insn (wait_gate_clear th) = has_direct_insn th"
  by (simp_all add: wait_gate_clear_def)

lemma wait_gate_pass_cases:
  assumes "wait_gate_pass c th opcode = Some th'"
  shows "th' = th \<or> th' = wait_gate_clear th"
  using assms by (auto simp: wait_gate_pass_def Let_def split: if_splits)

lemma fetch_frame:
  assumes "fetch_insn th = Some (insn, th')"
  shows "\<not> has_current_insn th'" "wait_gate th' = wait_gate th" "mop_cfg th' = mop_cfg th"
    "direct_insn th' = direct_insn th" "has_direct_insn th' = has_direct_insn th"
  using assms by (auto simp: fetch_insn_def split: if_splits option.splits)

lemma fetch_pending:
  assumes "fifo_wf (insn_fifo th)"
  shows "fetch_insn th = Some (insn, th') \<Longrightarrow>
      pending th = insn # fifo_abs (insn_fifo th') \<and> fifo_wf (insn_fifo th')"
    "fetch_insn th = None \<longleftrightarrow> pending th = []"
  using assms tfifo.pop_Some_abs tfifo.pop_None_iff tfifo.wf_pop
  by (auto simp: fetch_insn_def pending_def split: if_splits option.splits)

lemma fetch_backlog:
  assumes "fetch_insn (threads cop i) = Some (insn, th')"
  shows "unat (fifo_count (insn_fifo th')) < backlog cop i"
  using assms
  by (auto simp: fetch_insn_def backlog_def tensix_fifo_pop_def tensix_fifo_is_empty_def measure_unat
      split: if_splits option.splits)

text \<open>The shape of a step: idle, or an instruction was fetched and the thread ends up holding it
  (blocked) or not (executed).\<close>

lemma step_cases:
  assumes "tensix_cop_step u cop core_id = (ok, cop')"
  obtains (off) "bad_core core_id \<or> halted cop" "\<not> ok" "cop' = cop"
  | (idle) "\<not> bad_core core_id" "\<not> halted cop" "\<not> ok" "fetch_insn (threads cop (nat core_id)) = None"
      "cop' = upd_thread (nat core_id) (\<lambda>th. th\<lparr>th_state := THREAD_STATE_IDLE,
                                        cycles_idle := cycles_idle th + 1\<rparr>) cop"
  | (fetched) insn th where "\<not> bad_core core_id" "\<not> halted cop"
      "fetch_insn (threads cop (nat core_id)) = Some (insn, th)"
      "insn_fifo (threads cop' (nat core_id)) = insn_fifo th"
      "has_current_insn (threads cop' (nat core_id)) = (\<not> ok)"
      "\<not> ok \<Longrightarrow> current_insn (threads cop' (nat core_id)) = insn"
proof (cases "bad_core core_id \<or> halted cop")
  case True
  then have "tensix_cop_step u cop core_id = (False, cop)" by (auto simp: tensix_cop_step_def)
  with assms have "\<not> ok" "cop' = cop" by simp_all
  with True show ?thesis by (rule off)
next
  case False
  let ?i = "nat core_id"
  show ?thesis
  proof (cases "fetch_insn (threads cop ?i)")
    case None
    with False assms have "\<not> ok" "cop' = upd_thread ?i (\<lambda>th. th\<lparr>th_state := THREAD_STATE_IDLE,
        cycles_idle := cycles_idle th + 1\<rparr>) cop"
      by (auto simp: tensix_cop_step_def Let_def)
    with False None show ?thesis by (intro idle) auto
  next
    case (Some p)
    obtain insn th where p: "fetch_insn (threads cop ?i) = Some (insn, th)" using Some by (cases p) auto
    note nc = fetch_frame(1)[OF p]
    have "insn_fifo (threads cop' ?i) = insn_fifo th \<and> has_current_insn (threads cop' ?i) = (\<not> ok)
      \<and> (\<not> ok \<longrightarrow> current_insn (threads cop' ?i) = insn)"
      using assms False p nc
      by (auto simp: tensix_cop_step_def tensix_cop_execute_insn_def Let_def split: if_splits option.splits
          prod.splits dest!: wait_gate_pass_cases dest: execute_frame)
    with False p show ?thesis by (intro fetched) auto
  qed
qed

lemma step_backlog:
  "tensix_cop_step u cop core_id = (True, cop') \<Longrightarrow> backlog cop' (nat core_id) < backlog cop (nat core_id)"
  by (erule step_cases) (auto simp: backlog_def dest: fetch_backlog)

section \<open>The direct path\<close>

text \<open>\<^verbatim>\<open>while (tensix_cop_step(cop, core_id));\<close> ends because every successful step consumes an entry.\<close>

function drain_fifo :: "unit_op \<Rightarrow> tensix_cop \<Rightarrow> int \<Rightarrow> tensix_cop" where
  "drain_fifo u cop core_id =
     (case tensix_cop_step u cop core_id of
        (True, cop') \<Rightarrow> drain_fifo u cop' core_id
      | (False, cop') \<Rightarrow> cop')"
  by pat_completeness auto
termination
  by (relation "measure (\<lambda>(u, cop, c). backlog cop (nat c))") (auto dest: step_backlog[OF sym])

declare drain_fifo.simps [simp del]

definition tensix_cop_set_direct :: "tensix_cop \<Rightarrow> int \<Rightarrow> u32 \<Rightarrow> tensix_cop" where
  "tensix_cop_set_direct cop core_id insn =
     (if bad_core core_id then cop
      else upd_thread (nat core_id) (\<lambda>th. th\<lparr>direct_insn := insn, has_direct_insn := True\<rparr>) cop)"

definition set_current :: "u32 \<Rightarrow> tensix_thread_cop \<Rightarrow> tensix_thread_cop" where
  "set_current insn th = th\<lparr>current_insn := insn, has_current_insn := True\<rparr>"

definition restore_direct :: "u32 \<Rightarrow> tensix_thread_cop \<Rightarrow> tensix_thread_cop" where
  "restore_direct insn th = th\<lparr>direct_insn := insn, has_direct_insn := True\<rparr>"

partial_function (option) drain_replay_expansion ::
  "unit_op \<Rightarrow> tensix_cop \<Rightarrow> int \<Rightarrow> (bool \<times> tensix_cop) option" where
  "drain_replay_expansion u cop core_id =
     (let i = nat core_id in
      if \<not> replay_expanding (core cop) i then Some (True, cop)
      else
        let (ok, cop) = (if has_current_insn (threads cop i) then tensix_cop_step u cop core_id
                         else (True, cop)) in
        if \<not> ok then Some (False, cop)
        else if replay_expand_current (core cop) i \<ge> replay_expand_count (core cop) i
        then Some (True, upd_core (\<lambda>tt. tt\<lparr>replay_expanding := (replay_expanding tt)(i := False)\<rparr>) cop)
        else
          let buf_idx = (replay_expand_start (core cop) i + replay_expand_current (core cop) i) AND 31;
              insn = replay_buffer (core cop) i (unat buf_idx);
              cop = upd_core (\<lambda>tt. tt\<lparr>replay_expand_current :=
                      (replay_expand_current tt)(i := replay_expand_current tt i + 1)\<rparr>) cop;
              cop = upd_thread i (set_current insn) cop;
              (ok, cop) = tensix_cop_step u cop core_id in
          if \<not> ok then Some (False, cop) else drain_replay_expansion u cop core_id)"

text \<open>\<^verbatim>\<open>if (cop->core->replay_expanding[core_id]) { if (!drain_replay_expansion(...)) return false; }\<close>\<close>

definition drain_if_expanding :: "unit_op \<Rightarrow> tensix_cop \<Rightarrow> int \<Rightarrow> (bool \<times> tensix_cop) option" where
  "drain_if_expanding u cop core_id =
     (if replay_expanding (core cop) (nat core_id) then drain_replay_expansion u cop core_id
      else Some (True, cop))"

text \<open>The loop of \<^verbatim>\<open>mop_continue_execution\<close> over the generated instructions, and its exit.\<close>

partial_function (option) mop_loop ::
  "unit_op \<Rightarrow> tensix_cop \<Rightarrow> int \<Rightarrow> (bool \<times> tensix_cop) option" where
  "mop_loop u cop core_id =
     (let i = nat core_id; th = threads cop i in
      Option.bind (mop_generate_next (mop_cfg th) (mop_state th)) (\<lambda>(next_insn, st).
        let cop = upd_thread i (\<lambda>th. th\<lparr>mop_state := st\<rparr>) cop in
        case next_insn of
          None \<Rightarrow>
            Some (True, upd_thread i (\<lambda>th. count_executed
              (th\<lparr>mop_state := (mop_state th)\<lparr>mop_active := False\<rparr>, has_direct_insn := False\<rparr>)) cop)
        | Some insn \<Rightarrow>
            let (ok, cop) = tensix_cop_step u (upd_thread i (set_current insn) cop) core_id in
            if \<not> ok then Some (False, cop)
            else Option.bind (drain_if_expanding u cop core_id) (\<lambda>(ok, cop).
              if \<not> ok then Some (False, cop) else mop_loop u cop core_id)))"

definition mop_continue_execution ::
  "unit_op \<Rightarrow> tensix_cop \<Rightarrow> int \<Rightarrow> (bool \<times> tensix_cop) option" where
  "mop_continue_execution u cop core_id =
     (let i = nat core_id in
      Option.bind (drain_if_expanding u cop core_id) (\<lambda>(ok, cop).
        if \<not> ok then Some (False, cop)
        else if has_current_insn (threads cop i) then
          let (ok, cop) = tensix_cop_step u cop core_id in
          if \<not> ok then Some (False, cop)
          else
            let cop = upd_thread i (\<lambda>th. th\<lparr>has_current_insn := False\<rparr>) cop in
            Option.bind (drain_if_expanding u cop core_id) (\<lambda>(ok, cop).
              if \<not> ok then Some (False, cop) else mop_loop u cop core_id)
        else mop_loop u cop core_id))"

text \<open>\<^verbatim>\<open>while (thread->mop_state.active)\<close> after the FIFO drain.\<close>

partial_function (option) finish_mop ::
  "unit_op \<Rightarrow> tensix_cop \<Rightarrow> int \<Rightarrow> (bool \<times> tensix_cop) option" where
  "finish_mop u cop core_id =
     (if mop_active (mop_state (threads cop (nat core_id))) then
        Option.bind (mop_continue_execution u cop core_id) (\<lambda>(ok, cop).
          if \<not> ok then Some (False, cop) else finish_mop u cop core_id)
      else Some (True, cop))"

text \<open>Recording of a REPLAY buffer: the instruction is stored and the counters move.\<close>

definition record_insn :: "nat \<Rightarrow> u32 \<Rightarrow> tensix \<Rightarrow> tensix" where
  "record_insn i insn tt =
     (let buf_idx = replay_index tt i AND 31;
          tt = tt\<lparr>replay_buffer := (replay_buffer tt)(i := (replay_buffer tt i)(unat buf_idx := insn)),
                  replay_index := (replay_index tt)(i := replay_index tt i + 1),
                  replay_left := (replay_left tt)(i := replay_left tt i - 1)\<rparr>
      in if replay_left tt i = 0
         then tt\<lparr>replay_recording := (replay_recording tt)(i := False)\<rparr> else tt)"

definition direct_done :: "tensix_thread_cop \<Rightarrow> tensix_thread_cop" where
  "direct_done th = count_executed (th\<lparr>has_direct_insn := False\<rparr>)"

definition direct_waiting :: "tensix_thread_cop \<Rightarrow> tensix_thread_cop" where
  "direct_waiting th = th\<lparr>th_state := THREAD_STATE_WAITING\<rparr>"

text \<open>The direct instruction itself, once everything older has been executed.\<close>

definition direct_execute :: "unit_op \<Rightarrow> tensix_cop \<Rightarrow> int \<Rightarrow> (bool \<times> tensix_cop) option" where
  "direct_execute u cop core_id =
     (let i = nat core_id; th = threads cop i; insn = direct_insn th; opcode = tensix_insn_opcode insn in
      if opcode = 0x03 then
        Some (True, upd_thread i (\<lambda>th. direct_done (th\<lparr>zmask_hi16 := insn AND 0x00FFFFFF\<rparr>)) cop)
      else if replay_recording (core cop) i then
        let cop = upd_core (record_insn i insn) cop;
            cop = (if replay_execute_while_loading (core cop) i
                   then snd (tensix_cop_execute_insn u cop i insn) else cop)
        in Some (True, upd_thread i direct_done cop)
      else
        case wait_gate_pass (core cop) th opcode of
          None \<Rightarrow> Some (False, upd_thread i (\<lambda>th. count_waiting (direct_waiting th)) cop)
        | Some th \<Rightarrow>
            let cop = upd_thread i (\<lambda>_. th) cop in
            if is_wait_opcode opcode
            then Some (True, upd_thread i (\<lambda>th. direct_done (wait_gate_latch th insn)) cop)
            else if dvalid_blocked (core cop) insn then Some (False, upd_thread i direct_waiting cop)
            else
              let (ok, cop) = tensix_cop_execute_insn u cop i insn in
              if \<not> ok then Some (False, upd_thread i (\<lambda>th. count_waiting (direct_waiting th)) cop)
              else if opcode = 0x01 then mop_continue_execution u cop core_id
              else Option.bind (drain_if_expanding u cop core_id) (\<lambda>(ok, cop).
                if \<not> ok then Some (False, cop) else Some (True, upd_thread i direct_done cop)))"

text \<open>Draining the FIFO, and a MOP that the FIFO started, before the direct instruction.\<close>

definition direct_after_mop :: "unit_op \<Rightarrow> tensix_cop \<Rightarrow> int \<Rightarrow> (bool \<times> tensix_cop) option" where
  "direct_after_mop u cop core_id =
     (let i = nat core_id; cop = drain_fifo u cop core_id in
      if mop_active (mop_state (threads cop i)) then
        let saved_direct = direct_insn (threads cop i) in
        Option.bind (finish_mop u cop core_id) (\<lambda>(ok, cop).
          let cop = upd_thread i (restore_direct saved_direct) cop in
          if \<not> ok then Some (False, cop) else direct_execute u cop core_id)
      else direct_execute u cop core_id)"

definition tensix_cop_step_direct :: "unit_op \<Rightarrow> tensix_cop \<Rightarrow> int \<Rightarrow> (bool \<times> tensix_cop) option" where
  "tensix_cop_step_direct u cop core_id =
     (let i = nat core_id in
      if bad_core core_id then Some (False, cop)
      else if halted cop then Some (False, cop)
      else if \<not> has_direct_insn (threads cop i) then Some (True, cop)
      else if mop_active (mop_state (threads cop i)) then
        let saved_direct = direct_insn (threads cop i) in
        Option.bind (mop_continue_execution u cop core_id) (\<lambda>(ok, cop).
          if ok then
            if tensix_insn_opcode saved_direct \<noteq> 0x01
            then direct_after_mop u (upd_thread i (restore_direct saved_direct) cop) core_id
            else Some (True, cop)
          else Some (False, upd_thread i (restore_direct saved_direct) cop))
      else direct_after_mop u cop core_id)"

section \<open>Invariants\<close>

definition thread_wf :: "tensix_thread_cop \<Rightarrow> bool" where
  "thread_wf th \<longleftrightarrow> fifo_wf (insn_fifo th) \<and> gate_wf (wait_gate th) \<and> length (mop_cfg th) = 9"

definition cop_wf :: "tensix_cop \<Rightarrow> bool" where
  "cop_wf cop \<longleftrightarrow> (\<forall>i < 3. thread_wf (threads cop i))"

lemma thread_wf_init [wf_intros]: "length (mop_cfg th) = 9 \<Longrightarrow> thread_wf (tensix_cop_init_thread th)"
  by (simp add: thread_wf_def tensix_cop_init_thread_def gate_wf_def zero_wait_gate_def)

lemma cop_wf_init: "cop_wf (tensix_cop_init tt)"
  by (auto simp: cop_wf_def tensix_cop_init_def zero_thread_def intro!: wf_intros)

lemma cop_wf_reset [wf_intros]: "cop_wf cop \<Longrightarrow> cop_wf (tensix_cop_reset cop)"
  by (auto simp: cop_wf_def tensix_cop_reset_def thread_wf_def upt_rec intro!: wf_intros
      thread_wf_init[unfolded thread_wf_def, rule_format])

lemma cop_wf_push [wf_intros]: "cop_wf cop \<Longrightarrow> cop_wf (snd (tensix_cop_push cop core_id insn))"
  using tfifo.wf_push[of "insn_fifo (threads cop (nat core_id))" insn]
  by (auto simp: cop_wf_def tensix_cop_push_def thread_wf_def bad_core_def split_def Let_def)

lemma gate_wf_zero [simp]: "gate_wf zero_wait_gate"
  by (simp add: gate_wf_def zero_wait_gate_def)

text \<open>A step leaves the other threads alone and keeps the invariant of its own.\<close>

lemma step_other_threads:
  "tensix_cop_step u cop core_id = (ok, cop') \<Longrightarrow> j \<noteq> nat core_id \<Longrightarrow> threads cop' j = threads cop j"
  by (auto simp: tensix_cop_step_def tensix_cop_execute_insn_def Let_def dest: execute_frame(1)
      split: if_splits option.splits prod.splits)

lemma step_thread_wf:
  assumes "tensix_cop_step u cop core_id = (ok, cop')" "thread_wf (threads cop (nat core_id))"
  shows "thread_wf (threads cop' (nat core_id))"
proof -
  have "fifo_wf (insn_fifo (threads cop' (nat core_id)))"
    using assms by (elim step_cases) (auto simp: thread_wf_def dest: fetch_pending(1))
  moreover have "gate_wf (wait_gate (threads cop' (nat core_id)))
      \<and> length (mop_cfg (threads cop' (nat core_id))) = 9"
    using assms
    by (auto simp: thread_wf_def tensix_cop_step_def tensix_cop_execute_insn_def Let_def gate_wf_latch
        execute_frame(3,5) dest!: wait_gate_pass_cases dest: fetch_frame
        split: if_splits option.splits prod.splits)
  ultimately show ?thesis by (simp add: thread_wf_def)
qed

lemma cop_wf_step:
  "tensix_cop_step u cop core_id = (ok, cop') \<Longrightarrow> cop_wf cop \<Longrightarrow> cop_wf cop'"
  unfolding cop_wf_def by (metis step_other_threads step_thread_wf)

section \<open>Consumption in order\<close>

text \<open>A successful step removes exactly the oldest pending instruction; an unsuccessful one keeps
  them all.\<close>

lemma step_pending:
  assumes "tensix_cop_step u cop core_id = (ok, cop')" "cop_wf cop" "\<not> bad_core core_id"
  defines "i \<equiv> nat core_id"
  shows "if ok then \<exists>insn. pending (threads cop i) = insn # pending (threads cop' i)
     else pending (threads cop' i) = pending (threads cop i)"
proof -
  have "fifo_wf (insn_fifo (threads cop i))"
    using assms(2,3) by (auto simp: cop_wf_def thread_wf_def i_def bad_core_def)
  note fp = fetch_pending(1)[OF this]
  show ?thesis
    using assms(1)
  proof (cases rule: step_cases)
    case (fetched insn th)
    then show ?thesis using fp[of insn th] by (auto simp: pending_def[of "threads cop' (nat core_id)"] i_def)
  qed (auto simp: pending_def i_def)
qed

lemma drain_fifo_induct:
  assumes "\<And>cop. (\<And>cop'. tensix_cop_step u cop c = (True, cop') \<Longrightarrow> P cop') \<Longrightarrow> P cop"
  shows "P cop"
proof (induction "backlog cop (nat c)" arbitrary: cop rule: less_induct)
  case less
  then show ?case using assms step_backlog by blast
qed

lemma drain_fifo_wf: "cop_wf cop \<Longrightarrow> cop_wf (drain_fifo u cop c)"
proof (induction cop rule: drain_fifo_induct[of u c])
  case (1 cop)
  obtain ok cop' where s: "tensix_cop_step u cop c = (ok, cop')" by fastforce
  show ?case
    using 1 s cop_wf_step[OF s] by (cases ok) (auto simp: drain_fifo.simps[of u cop])
qed

lemma drain_fifo_pending:
  assumes "cop_wf cop" "\<not> bad_core c"
  shows "\<exists>xs. pending (threads cop (nat c)) = xs @ pending (threads (drain_fifo u cop c) (nat c))"
  using assms(1)
proof (induction cop rule: drain_fifo_induct[of u c])
  case (1 cop)
  obtain ok cop' where s: "tensix_cop_step u cop c = (ok, cop')" by fastforce
  note p = step_pending[OF s "1.prems" assms(2)] cop_wf_step[OF s "1.prems"]
  show ?case
  proof (cases ok)
    case True
    with "1.IH" s p obtain insn xs where
      "pending (threads cop (nat c)) = insn # xs @ pending (threads (drain_fifo u cop c) (nat c))"
      by (auto simp: drain_fifo.simps[of u cop])
    then show ?thesis by (metis append_Cons)
  next
    case False
    with s p show ?thesis by (auto simp: drain_fifo.simps[of u cop])
  qed
qed

section \<open>The Wait Gate in a step\<close>

text \<open>An instruction of a blocked unit does not execute while the condition is unsatisfied: the core
  and the gate are unchanged and the instruction is held.\<close>

lemma step_gate_blocks:
  assumes "\<not> bad_core core_id" "\<not> halted cop" "fetch_insn (threads cop (nat core_id)) = Some (insn, th)"
    "wg_active (wait_gate (threads cop (nat core_id)))" "tensix_insn_opcode insn \<noteq> 0x03"
    "insn_get_block_bits (tensix_insn_opcode insn) AND wg_block_mask (wait_gate (threads cop (nat core_id))) \<noteq> 0"
    "\<not> wait_gate_check (core cop) (wait_gate (threads cop (nat core_id)))"
    "tensix_insn_opcode insn \<noteq> OPCODE_NOP"
  obtains cop' where "tensix_cop_step u cop core_id = (False, cop')" "core cop' = core cop"
    "wait_gate (threads cop' (nat core_id)) = wait_gate (threads cop (nat core_id))"
    "has_current_insn (threads cop' (nat core_id))" "current_insn (threads cop' (nat core_id)) = insn"
proof -
  note f = fetch_frame[OF assms(3)]
  have "wait_gate_pass (core cop) th (tensix_insn_opcode insn) = None"
    using assms f by (simp add: wait_gate_pass_def Let_def)
  then have "tensix_cop_step u cop core_id
      = (False, upd_thread (nat core_id) (\<lambda>th. count_waiting (hold_insn insn th))
           (upd_thread (nat core_id) (\<lambda>_. th) cop))"
    using assms by (simp add: tensix_cop_step_def Let_def)
  then show ?thesis by (rule that) (use f in simp_all)
qed

text \<open>The partial loops keep the invariant whenever they return.\<close>

lemma cop_wf_upd_thread [wf_intros]:
  "cop_wf cop \<Longrightarrow> (\<And>th. thread_wf th \<Longrightarrow> thread_wf (g th)) \<Longrightarrow> cop_wf (upd_thread i g cop)"
  by (simp add: cop_wf_def)

lemma cop_wf_upd_core [simp]: "cop_wf (upd_core g cop) = cop_wf cop"
  by (simp add: cop_wf_def)

lemma thread_wf_simps [simp]:
  "thread_wf (set_current x th) = thread_wf th" "thread_wf (restore_direct x th) = thread_wf th"
  "thread_wf (count_executed th) = thread_wf th" "thread_wf (count_waiting th) = thread_wf th"
  "thread_wf (direct_done th) = thread_wf th" "thread_wf (direct_waiting th) = thread_wf th"
  "thread_wf (th\<lparr>mop_state := st\<rparr>) = thread_wf th" "thread_wf (th\<lparr>has_direct_insn := b\<rparr>) = thread_wf th"
  "thread_wf (th\<lparr>has_current_insn := b\<rparr>) = thread_wf th"
  "thread_wf (th\<lparr>zmask_hi16 := z\<rparr>) = thread_wf th" "thread_wf (th\<lparr>direct_insn := x\<rparr>) = thread_wf th"
  by (simp_all add: thread_wf_def set_current_def restore_direct_def direct_done_def direct_waiting_def)

lemma cop_wf_step_snd [wf_intros]: "cop_wf cop \<Longrightarrow> cop_wf (snd (tensix_cop_step u cop c))"
  by (metis cop_wf_step prod.collapse)

lemma drain_replay_wf_aux:
  "drain_replay_expansion u cop c = Some r \<Longrightarrow> cop_wf cop \<longrightarrow> cop_wf (snd r)"
proof (erule drain_replay_expansion.raw_induct[of "\<lambda>u cop c r. cop_wf cop \<longrightarrow> cop_wf (snd r)", rotated],
    goal_cases)
  case (1 f u cop c r)
  note hyp = 1(1)[THEN mp]
  show ?case
    using 1(2)
    by (auto simp: Let_def split_def split: if_splits intro!: wf_intros elim!: hyp)
qed

lemmas drain_replay_wf = drain_replay_wf_aux[THEN mp]

lemma drain_if_expanding_wf:
  "drain_if_expanding u cop c = Some (ok, cop') \<Longrightarrow> cop_wf cop \<Longrightarrow> cop_wf cop'"
  by (auto simp: drain_if_expanding_def dest: drain_replay_wf split: if_splits)

lemma mop_loop_wf_aux: "mop_loop u cop c = Some r \<Longrightarrow> cop_wf cop \<longrightarrow> cop_wf (snd r)"
proof (erule mop_loop.raw_induct[of "\<lambda>u cop c r. cop_wf cop \<longrightarrow> cop_wf (snd r)", rotated], goal_cases)
  case (1 f u cop c r)
  note hyp = 1(1)[THEN mp]
  obtain nx st where "mop_generate_next (mop_cfg (threads cop (nat c))) (mop_state (threads cop (nat c)))
      = Some (nx, st)"
    using 1(2) by (auto simp: Let_def bind_eq_Some_conv)
  then show ?case
    using 1(2)
    by (cases nx) (auto simp: Let_def split_def bind_eq_Some_conv split: if_splits
        intro!: wf_intros elim!: hyp drain_if_expanding_wf)
qed

lemmas mop_loop_wf = mop_loop_wf_aux[THEN mp]

lemma mop_continue_wf:
  "mop_continue_execution u cop c = Some r \<Longrightarrow> cop_wf cop \<Longrightarrow> cop_wf (snd r)"
  by (auto simp: mop_continue_execution_def Let_def split_def bind_eq_Some_conv split: if_splits
      intro!: wf_intros elim!: drain_if_expanding_wf mop_loop_wf)

text \<open>A completed MOP leaves the iterator inactive and consumes the direct instruction.\<close>

lemma mop_loop_done_aux:
  "mop_loop u cop c = Some r \<Longrightarrow> fst r \<longrightarrow> \<not> mop_active (mop_state (threads (snd r) (nat c)))
     \<and> \<not> has_direct_insn (threads (snd r) (nat c))"
proof (erule mop_loop.raw_induct[of "\<lambda>u cop c r. fst r \<longrightarrow> \<not> mop_active (mop_state (threads (snd r) (nat c)))
     \<and> \<not> has_direct_insn (threads (snd r) (nat c))", rotated], goal_cases)
  case (1 f u cop c r)
  obtain nx st where "mop_generate_next (mop_cfg (threads cop (nat c))) (mop_state (threads cop (nat c)))
      = Some (nx, st)"
    using 1(2) by (auto simp: Let_def bind_eq_Some_conv)
  then show ?case
    using 1(2)
    by (cases nx) (auto simp: Let_def split_def bind_eq_Some_conv count_executed_def split: if_splits
        dest: 1(1))
qed

lemma mop_continue_done:
  assumes "mop_continue_execution u cop c = Some (True, cop')"
  shows "\<not> mop_active (mop_state (threads cop' (nat c)))" "\<not> has_direct_insn (threads cop' (nat c))"
  using assms mop_loop_done_aux
  by (fastforce simp: mop_continue_execution_def Let_def split_def bind_eq_Some_conv split: if_splits)+

lemma finish_mop_once:
  "finish_mop u cop c =
     (if mop_active (mop_state (threads cop (nat c))) then mop_continue_execution u cop c
      else Some (True, cop))"
proof (cases "mop_active (mop_state (threads cop (nat c)))")
  case True
  show ?thesis
  proof (cases "mop_continue_execution u cop c")
    case None
    with True show ?thesis by (subst finish_mop.simps) simp
  next
    case (Some r)
    obtain ok cop' where r: "mop_continue_execution u cop c = Some (ok, cop')" using Some by (cases r) auto
    then show ?thesis
      using True mop_continue_done(1)[of u cop c cop'] finish_mop.simps[of u cop' c]
      by (subst finish_mop.simps) (cases ok; simp)
  qed
next
  case False
  then show ?thesis by (subst finish_mop.simps) simp
qed

lemma thread_wf_latch [wf_intros]:
  "thread_wf th \<Longrightarrow> is_wait_opcode (tensix_insn_opcode insn) \<Longrightarrow> thread_wf (wait_gate_latch th insn)"
  by (simp add: thread_wf_def gate_wf_latch)

lemma thread_wf_pass:
  "wait_gate_pass c th opc = Some th' \<Longrightarrow> thread_wf th \<Longrightarrow> thread_wf th'"
  by (auto simp: thread_wf_def dest!: wait_gate_pass_cases)

lemma cop_wf_execute [wf_intros]:
  "cop_wf cop \<Longrightarrow> cop_wf (snd (tensix_cop_execute_insn u cop i insn))"
proof -
  obtain ok cop' where e: "tensix_execute_insn u cop insn i = (ok, cop')" by fastforce
  then show "cop_wf cop \<Longrightarrow> cop_wf (snd (tensix_cop_execute_insn u cop i insn))"
    using execute_frame(2,3,5)[OF e] by (simp add: tensix_cop_execute_insn_def cop_wf_def thread_wf_def)
qed

lemma cop_wf_const_thread: "cop_wf cop \<Longrightarrow> (i < 3 \<Longrightarrow> thread_wf th) \<Longrightarrow> cop_wf (upd_thread i (\<lambda>_. th) cop)"
  by (simp add: cop_wf_def)

lemma direct_execute_wf:
  assumes "direct_execute u cop c = Some r" "cop_wf cop"
  shows "cop_wf (snd r)"
proof -
  have pass: "cop_wf (upd_thread (nat c) (\<lambda>_. th) cop)"
    if "wait_gate_pass (core cop) (threads cop (nat c)) opc = Some th" for th opc
    using that assms(2) thread_wf_pass by (intro cop_wf_const_thread) (auto simp: cop_wf_def)
  show ?thesis
    using assms
    by (auto simp: direct_execute_def Let_def split_def bind_eq_Some_conv split: if_splits option.splits
        intro!: wf_intros pass elim!: drain_if_expanding_wf mop_continue_wf)
qed

lemma step_direct_wf:
  assumes "tensix_cop_step_direct u cop c = Some r" "cop_wf cop"
  shows "cop_wf (snd r)"
proof -
  have after: "cop_wf (snd r)" if "direct_after_mop u cop c = Some r" "cop_wf cop" for cop r
    using that
    by (auto simp: direct_after_mop_def Let_def bind_eq_Some_conv finish_mop_once drain_fifo_wf
        split: if_splits intro!: wf_intros elim!: direct_execute_wf dest!: mop_continue_wf)
  show ?thesis
    using assms
    by (auto simp: tensix_cop_step_direct_def Let_def bind_eq_Some_conv
        split: if_splits intro!: wf_intros elim!: after dest!: mop_continue_wf)
qed

section \<open>Reachable states\<close>

text \<open>The coprocessor states that its operations can produce from initialisation; the tile may change
  the core state (semaphores, mailboxes, memory) between them.\<close>

inductive cop_reachable :: "unit_op \<Rightarrow> tensix_cop \<Rightarrow> bool" for u where
  reach_init: "cop_reachable u (tensix_cop_init tt)"
| reach_reset: "cop_reachable u cop \<Longrightarrow> cop_reachable u (tensix_cop_reset cop)"
| reach_halt: "cop_reachable u cop \<Longrightarrow> cop_reachable u (tensix_cop_halt cop)"
| reach_resume: "cop_reachable u cop \<Longrightarrow> cop_reachable u (tensix_cop_resume cop)"
| reach_core: "cop_reachable u cop \<Longrightarrow> cop_reachable u (upd_core g cop)"
| reach_push: "cop_reachable u cop \<Longrightarrow> cop_reachable u (snd (tensix_cop_push cop c insn))"
| reach_set_direct: "cop_reachable u cop \<Longrightarrow> cop_reachable u (tensix_cop_set_direct cop c insn)"
| reach_step: "cop_reachable u cop \<Longrightarrow> cop_reachable u (snd (tensix_cop_step u cop c))"
| reach_step_direct: "cop_reachable u cop \<Longrightarrow> tensix_cop_step_direct u cop c = Some (ok, cop') \<Longrightarrow>
    cop_reachable u cop'"

lemma cop_wf_flags [simp]: "cop_wf (cop\<lparr>halted := b\<rparr>) = cop_wf cop" "cop_wf (cop\<lparr>total_cycles := n\<rparr>) = cop_wf cop"
  by (simp_all add: cop_wf_def)

lemma cop_wf_set_direct [wf_intros]: "cop_wf cop \<Longrightarrow> cop_wf (tensix_cop_set_direct cop c insn)"
  by (simp add: tensix_cop_set_direct_def cop_wf_def)

text \<open>A fresh coprocessor, for the instances below.\<close>

definition demo_cop :: tensix_cop where
  "demo_cop = tensix_cop_init (zero_tensix demo_memory)"

lemma demo_cop_facts [simp]:
  "cop_wf demo_cop" "core demo_cop = zero_tensix demo_memory" "\<not> halted demo_cop"
  "threads demo_cop i = tensix_cop_init_thread zero_thread"
  using cop_wf_init by (auto simp: demo_cop_def) (simp_all add: tensix_cop_init_def)

section \<open>Properties\<close>

text \<open>C19: in every state the coprocessor can reach, each of the three threads has a well-formed
  instruction FIFO, nine MOP configuration words, and a Wait Gate that, when active, blocks at least
  one of the nine execution units.\<close>

theorem cop_reachable_wf:
  assumes "cop_reachable u cop"
  shows "cop_wf cop"
  using assms
proof induction
  case (reach_step_direct cop c ok cop')
  then show ?case using step_direct_wf by fastforce
qed (auto simp: tensix_cop_halt_def tensix_cop_resume_def intro: cop_wf_init wf_intros)

theorem cop_reachable_wf_witness: "cop_wf (snd (tensix_cop_step idle_unit demo_cop 0))"
  by (rule cop_reachable_wf[of idle_unit]) (auto simp: demo_cop_def intro: cop_reachable.intros)

text \<open>C17: one step of a thread consumes the pending instructions in order and loses none.  If it reports
  success exactly the oldest pending instruction (the held one, else the head of the FIFO) is gone; if
  it reports failure, because nothing is pending or because the Wait Gate, a data-valid flag or the
  executing unit blocks, the pending instructions are unchanged.  The other threads are untouched.\<close>

theorem cop_step_in_order:
  assumes "cop_wf cop" "0 \<le> c" "c < 3" "tensix_cop_step u cop c = (ok, cop')"
  shows "(if ok then \<exists>insn. pending (threads cop (nat c)) = insn # pending (threads cop' (nat c))
      else pending (threads cop' (nat c)) = pending (threads cop (nat c)))
    \<and> (\<forall>j. j = nat c \<or> threads cop' j = threads cop j)"
  using step_pending[OF assms(4,1)] step_other_threads[OF assms(4)] assms(2,3)
  by (auto simp: bad_core_def)

theorem cop_step_in_order_witness:
  "\<exists>insn. pending (threads (snd (tensix_cop_push demo_cop 1 0x02000000)) 1)
    = insn # pending (threads (snd (tensix_cop_step idle_unit
        (snd (tensix_cop_push demo_cop 1 0x02000000)) 1)) 1)"
proof -
  let ?cop = "snd (tensix_cop_push demo_cop 1 0x02000000)"
  have wf: "cop_wf ?cop" by (intro cop_wf_push demo_cop_facts)
  have "threads ?cop 1 = (tensix_cop_init_thread zero_thread)\<lparr>insn_fifo :=
      snd (tensix_fifo_push tensix_fifo_init 0x02000000)\<rparr>" "\<not> halted ?cop"
    by (simp_all add: tensix_cop_push_def bad_core_def tensix_cop_init_thread_def zero_thread_def
        Let_def split_def)
  then have "fetch_insn (threads ?cop 1) \<noteq> None"
    "fst (the (fetch_insn (threads ?cop 1))) = 0x02000000"
    "wait_gate (snd (the (fetch_insn (threads ?cop 1)))) = zero_wait_gate"
    by (simp_all add: fetch_insn_def tensix_cop_init_thread_def tensix_fifo_push_def
        tensix_fifo_is_full_def tensix_fifo_pop_def tensix_fifo_is_empty_def tensix_fifo_init_def
        TENSIX_FIFO_SIZE_def)
  then have "fst (tensix_cop_step idle_unit ?cop 1)"
    using \<open>\<not> halted ?cop\<close>
    by (auto simp: tensix_cop_step_def bad_core_def Let_def tensix_insn_opcode_def wait_gate_pass_def
        is_wait_opcode_def opcode_defs dvalid_blocked_def insn_needs_srca_def insn_needs_srcb_def
        insn_needs_dest_def tensix_cop_execute_insn_def tensix_execute_insn_def tt_stub_def
        zero_wait_gate_def)
  then show ?thesis
    using cop_step_in_order[OF wf, of 1 idle_unit] by (cases "tensix_cop_step idle_unit ?cop 1") auto
qed

text \<open>C18: while an active Wait Gate's condition is not met, an instruction of a blocked unit does not
  execute, and a further wait instruction never overwrites the gate: the step fails, the core state and
  the gate are unchanged, and the instruction stays at the front of the pending ones.\<close>

theorem wait_gate_holds:
  assumes "cop_wf cop" "0 \<le> c" "c < 3" "\<not> halted cop"
    "fetch_insn (threads cop (nat c)) = Some (insn, th)"
    "wg_active (wait_gate (threads cop (nat c)))"
    "\<not> wait_gate_check (core cop) (wait_gate (threads cop (nat c)))"
    "tensix_insn_opcode insn \<notin> {0x02, 0x03}"
    "is_wait_opcode (tensix_insn_opcode insn) \<or> insn_get_block_bits (tensix_insn_opcode insn)
      AND wg_block_mask (wait_gate (threads cop (nat c))) \<noteq> 0"
  shows "\<exists>cop'. tensix_cop_step u cop c = (False, cop') \<and> core cop' = core cop
    \<and> wait_gate (threads cop' (nat c)) = wait_gate (threads cop (nat c))
    \<and> pending (threads cop' (nat c)) = pending (threads cop (nat c))"
proof -
  have c: "\<not> bad_core c" using assms(2,3) by (simp add: bad_core_def)
  have "gate_wf (wait_gate (threads cop (nat c)))"
    using assms(1-3) by (simp add: cop_wf_def thread_wf_def)
  then have "insn_get_block_bits (tensix_insn_opcode insn)
      AND wg_block_mask (wait_gate (threads cop (nat c))) \<noteq> 0"
    using assms(6,9) wait_insn_intercepted by blast
  then obtain cop' where s: "tensix_cop_step u cop c = (False, cop')" "core cop' = core cop"
    "wait_gate (threads cop' (nat c)) = wait_gate (threads cop (nat c))"
    using step_gate_blocks[OF c assms(4-6), of u] assms(7,8) by (auto simp: opcode_defs)
  then show ?thesis using step_pending[OF s(1) assms(1) c] by auto
qed

theorem wait_gate_holds_witness:
  "\<exists>cop'. tensix_cop_step idle_unit
      (upd_thread 0 (\<lambda>th. set_current 0xA2000000 (wait_gate_latch th 0xA6010005)) demo_cop) 0 = (False, cop')
    \<and> core cop' = zero_tensix demo_memory"
proof -
  let ?th = "set_current 0xA2000000 (wait_gate_latch (tensix_cop_init_thread zero_thread) 0xA6010005)"
  let ?cop = "upd_thread 0 (\<lambda>th. set_current 0xA2000000 (wait_gate_latch th 0xA6010005)) demo_cop"
  have op: "is_wait_opcode (tensix_insn_opcode 0xA6010005)" "is_wait_opcode (tensix_insn_opcode 0xA2000000)"
    "tensix_insn_opcode 0xA2000000 \<notin> {0x02, 0x03}"
    by (simp_all add: is_wait_opcode_def tensix_insn_opcode_def opcode_defs)
  have g: "wait_gate ?th = zero_wait_gate\<lparr>wg_active := True, wg_opcode := 0xA6, wg_block_mask := 2,
      wg_semaphore_mask := 1, wg_condition_mask := 1\<rparr>"
    by (simp add: set_current_def wait_gate_latch_def tensix_insn_opcode_def tensix_insn_param_def
        opcode_defs Let_def zero_wait_gate_def tensix_cop_init_thread_def)
  have nc: "\<not> wait_gate_check (zero_tensix demo_memory) (wait_gate ?th)"
    unfolding g by (simp add: wait_gate_check_def opcode_defs zero_tensix_def tst_def upt_rec)
  have wf: "cop_wf ?cop"
    by (intro cop_wf_upd_thread demo_cop_facts) (simp add: thread_wf_latch op)
  have f: "fetch_insn (threads ?cop (nat 0)) = Some (0xA2000000, ?th\<lparr>has_current_insn := False\<rparr>)"
    by (simp add: fetch_insn_def set_current_def)
  show ?thesis
    using wait_gate_holds[OF wf _ _ _ f, of idle_unit] op nc g by auto
qed

end
