(* ===== verification/Mop_Execution.thy ===== *)
theory Mop_Execution
  imports Tensix_Cop
begin





lemma upd_core_thread [simp]: "upd_core f (upd_thread i g c) = upd_thread i g (upd_core f c)"
  by (simp add: upd_core_def upd_thread_def)

lemma mop_state_update_commute [simp]:
  "(count_executed th)\<lparr>mop_state := st\<rparr> = count_executed (th\<lparr>mop_state := st\<rparr>)"
  "(count_waiting th)\<lparr>mop_state := st\<rparr> = count_waiting (th\<lparr>mop_state := st\<rparr>)"
  "(hold_insn x th)\<lparr>mop_state := st\<rparr> = hold_insn x (th\<lparr>mop_state := st\<rparr>)"
  "(wait_gate_latch th x)\<lparr>mop_state := st\<rparr> = wait_gate_latch (th\<lparr>mop_state := st\<rparr>) x"
  "(wait_gate_clear th)\<lparr>mop_state := st\<rparr> = wait_gate_clear (th\<lparr>mop_state := st\<rparr>)"
  "(ttmop_cfg th p)\<lparr>mop_state := st\<rparr> = ttmop_cfg (th\<lparr>mop_state := st\<rparr>) p"
  "(set_current x th)\<lparr>mop_state := st\<rparr> = set_current x (th\<lparr>mop_state := st\<rparr>)"
  by (simp_all add: count_executed_def count_waiting_def hold_insn_def wait_gate_latch_def
      wait_gate_clear_def ttmop_cfg_def set_current_def Let_def)





text \<open>A step issued for a given instruction does that instruction.\<close>

lemma fetch_set_current [simp]:
  "fetch_insn (set_current x th) = Some (x, (set_current x th)\<lparr>has_current_insn := False\<rparr>)"
  "wait_gate (set_current x th) = wait_gate th"
  by (simp_all add: fetch_insn_def set_current_def)




section \<open>Property\<close>






end
