(* ===== verification/Mailbox.thy ===== *)
theory Mailbox
  imports Tensix_State
begin

text \<open>
  The mailboxes of a tile (\<^verbatim>\<open>tt_cop/mailbox.c\<close>, \<^verbatim>\<open>tt_cop/mailbox.h\<close>): sixteen 4-entry FIFOs, one
  for each ordered pair of the cores B, T0, T1, T2, addressed through four 4 KB windows of the
  memory map.  A store to window \<^verbatim>\<open>N\<close> by core \<^verbatim>\<open>S\<close> pushes to FIFO (S, N); a load from window \<^verbatim>\<open>N\<close>
  by core \<^verbatim>\<open>R\<close> pops FIFO (N, R), or raises the stall flag of R when it is empty; a load with
  address bit 2 set only asks whether the FIFO holds anything.
\<close>

definition MAILBOX_FIFO_DEPTH :: int where "MAILBOX_FIFO_DEPTH = 4"
definition MAILBOX_ADDR_BASE :: u32 where "MAILBOX_ADDR_BASE = 0xFFEC0000"
definition MAILBOX_ADDR_END :: u32 where "MAILBOX_ADDR_END = 0xFFEC3FFF"

definition mailbox_target :: "u32 \<Rightarrow> nat" where
  "mailbox_target addr = unat (drop_bit 12 (addr - MAILBOX_ADDR_BASE))"

definition in_mailbox_range :: "u32 \<Rightarrow> bool" where
  "in_mailbox_range addr \<longleftrightarrow> addr \<ge> MAILBOX_ADDR_BASE \<and> addr \<le> MAILBOX_ADDR_END"

text \<open>\<^verbatim>\<open>mailbox_core_index\<close> maps B (-1), T0, T1, T2 (0 to 2) to 0 to 3 and returns -1 otherwise.\<close>

definition mailbox_core_index :: "int \<Rightarrow> int" where
  "mailbox_core_index core_id =
     (if core_id = -1 then 0 else if core_id \<ge> 0 \<and> core_id \<le> 2 then core_id + 1 else -1)"

definition fifo_push :: "tensix \<Rightarrow> nat \<Rightarrow> nat \<Rightarrow> u32 \<Rightarrow> bool \<times> tensix" where
  "fifo_push tt src dst v =
     (let count = mailbox_count tt src dst in
      if count \<ge> MAILBOX_FIFO_DEPTH then (False, tt)
      else
        let idx = c_rem (mailbox_head tt src dst + count) MAILBOX_FIFO_DEPTH in
        (True, tt\<lparr>mailbox_fifo := (mailbox_fifo tt)(src := (mailbox_fifo tt src)
                    (dst := (mailbox_fifo tt src dst)[nat idx := v])),
                 mailbox_count := (mailbox_count tt)(src := (mailbox_count tt src)
                    (dst := count + 1))\<rparr>))"

definition fifo_pop :: "tensix \<Rightarrow> nat \<Rightarrow> nat \<Rightarrow> (u32 \<times> tensix) option" where
  "fifo_pop tt src dst =
     (let count = mailbox_count tt src dst in
      if count \<le> 0 then None
      else
        let head = mailbox_head tt src dst in
        Some (mailbox_fifo tt src dst ! nat head,
              tt\<lparr>mailbox_head := (mailbox_head tt)(src := (mailbox_head tt src)
                    (dst := c_rem (head + 1) MAILBOX_FIFO_DEPTH)),
                 mailbox_count := (mailbox_count tt)(src := (mailbox_count tt src)
                    (dst := count - 1))\<rparr>))"

text \<open>The two handlers return whether the address was a mailbox address; a read also returns the
  value stored in \<^verbatim>\<open>*result\<close>.\<close>

definition mailbox_write :: "tensix \<Rightarrow> int \<Rightarrow> u32 \<Rightarrow> u32 \<Rightarrow> bool \<times> tensix" where
  "mailbox_write tt core_id addr v =
     (if \<not> in_mailbox_range addr then (False, tt)
      else
        let src = mailbox_core_index core_id in
        if src < 0 then (True, tt)
        else (True, snd (fifo_push tt (nat src) (mailbox_target addr) v)))"

definition mailbox_read :: "tensix \<Rightarrow> int \<Rightarrow> u32 \<Rightarrow> (u32 option) \<times> tensix" where
  "mailbox_read tt core_id addr =
     (if \<not> in_mailbox_range addr then (None, tt)
      else
        let reader = mailbox_core_index core_id in
        if reader < 0 then (Some 0, tt)
        else
          let src = mailbox_target addr; dst = nat reader in
          if addr AND 4 \<noteq> 0 then (Some (if mailbox_count tt src dst > 0 then 1 else 0), tt)
          else (case fifo_pop tt src dst of
                  Some (v, tt') \<Rightarrow> (Some v, tt')
                | None \<Rightarrow> (Some 0, tt\<lparr>mailbox_stall := (mailbox_stall tt)(nat reader := True)\<rparr>)))"

definition mailbox_process :: "tensix \<Rightarrow> int \<Rightarrow> bool \<times> tensix" where
  "mailbox_process tt core_id =
     (let mci = mailbox_core_index core_id in
      if mci < 0 then (False, tt)
      else if mailbox_stall tt (nat mci)
      then (True, tt\<lparr>mailbox_stall := (mailbox_stall tt)(nat mci := False)\<rparr>)
      else (False, tt))"

lemmas mailbox_consts = MAILBOX_FIFO_DEPTH_def MAILBOX_ADDR_BASE_def MAILBOX_ADDR_END_def

section \<open>The FIFOs implement the bounded-queue interface\<close>

definition mbox_wf :: "nat \<Rightarrow> nat \<Rightarrow> tensix \<Rightarrow> bool" where
  "mbox_wf s d tt \<longleftrightarrow> length (mailbox_fifo tt s d) = 4
     \<and> 0 \<le> mailbox_head tt s d \<and> mailbox_head tt s d < 4
     \<and> 0 \<le> mailbox_count tt s d \<and> mailbox_count tt s d \<le> 4"

definition mbox :: "nat \<Rightarrow> nat \<Rightarrow> tensix \<Rightarrow> u32 list" where
  "mbox s d tt = ring (mailbox_fifo tt s d) (nat (mailbox_head tt s d)) (nat (mailbox_count tt s d))"

lemma nat_c_rem_4:
  "0 \<le> h \<Longrightarrow> 0 \<le> n \<Longrightarrow> nat (c_rem (h + n) 4) = (nat h + nat n) mod 4"
  by (simp add: nat_mod_distrib nat_add_distrib)

lemma mbox_push_room:
  assumes "mbox_wf s d tt" "length (mbox s d tt) < 4"
  shows "\<exists>tt'. fifo_push tt s d v = (True, tt') \<and> mbox_wf s d tt' \<and> mbox s d tt' = mbox s d tt @ [v]"
proof -
  have "nat (mailbox_count tt s d + 1) = Suc (nat (mailbox_count tt s d))"
    using assms(1) by (auto simp: mbox_wf_def)
  then show ?thesis
    using assms ring_push[of "nat (mailbox_count tt s d)" "mailbox_fifo tt s d"
        "nat (mailbox_head tt s d)" v]
    by (auto simp: fifo_push_def mbox_wf_def mbox_def Let_def mailbox_consts nat_c_rem_4
        simp del: c_rem_nonneg)
qed

lemma mbox_pop_some:
  assumes "mbox_wf s d tt" "mbox s d tt = v # vs"
  shows "\<exists>tt'. fifo_pop tt s d = Some (v, tt') \<and> mbox_wf s d tt' \<and> mbox s d tt' = vs"
proof -
  have "0 < nat (mailbox_count tt s d)"
    using arg_cong[OF assms(2), of length] by (simp add: mbox_def)
  then have n: "nat (mailbox_count tt s d) = Suc (nat (mailbox_count tt s d - 1))"
    "0 < mailbox_count tt s d" by simp_all
  have h: "nat (c_rem (mailbox_head tt s d + 1) 4) = Suc (nat (mailbox_head tt s d)) mod 4"
    "0 \<le> c_rem (mailbox_head tt s d + 1) 4" "c_rem (mailbox_head tt s d + 1) 4 < 4"
    using assms(1) nat_c_rem_4[of "mailbox_head tt s d" 1] by (simp_all add: mbox_wf_def)
  show ?thesis
    using assms n h ring_pop[of "nat (mailbox_head tt s d)" "mailbox_fifo tt s d"
        "nat (mailbox_count tt s d - 1)"]
    by (auto simp: fifo_pop_def mbox_wf_def mbox_def Let_def mailbox_consts simp del: c_rem_nonneg)
qed

interpretation mb: bounded_fifo "mbox_wf s d" "mbox s d" 4 "\<lambda>tt. fifo_push tt s d"
    "\<lambda>tt. fifo_pop tt s d" for s d
proof
  show "length (mbox s d f) \<le> 4" if "mbox_wf s d f" for f
    using that by (auto simp: mbox_wf_def mbox_def)
  show "fifo_push f s d x = (False, f)" if "mbox_wf s d f" "length (mbox s d f) = 4" for f x
    using that by (auto simp: mbox_wf_def mbox_def fifo_push_def mailbox_consts Let_def)
  show "fifo_pop f s d = None" if "mbox_wf s d f" "mbox s d f = []" for f
    using that by (auto simp: mbox_wf_def mbox_def fifo_pop_def)
qed (fact mbox_push_room mbox_pop_some)+

text \<open>An operation on one FIFO leaves the other fifteen alone.\<close>

lemma fifo_push_other [frame_simps]:
  "(s', d') \<noteq> (s, d) \<Longrightarrow> mbox s' d' (snd (fifo_push tt s d v)) = mbox s' d' tt"
  "(s', d') \<noteq> (s, d) \<Longrightarrow> mbox_wf s' d' (snd (fifo_push tt s d v)) = mbox_wf s' d' tt"
  by (auto simp: fifo_push_def mbox_def mbox_wf_def Let_def)

lemma fifo_pop_other [frame_simps]:
  "(s', d') \<noteq> (s, d) \<Longrightarrow> fifo_pop tt s d = Some (v, tt') \<Longrightarrow> mbox s' d' tt' = mbox s' d' tt"
  "(s', d') \<noteq> (s, d) \<Longrightarrow> fifo_pop tt s d = Some (v, tt') \<Longrightarrow> mbox_wf s' d' tt' = mbox_wf s' d' tt"
  by (auto simp: fifo_pop_def mbox_def mbox_wf_def Let_def split: if_splits)

text \<open>All sixteen FIFOs well-formed.\<close>

definition mailboxes_wf :: "tensix \<Rightarrow> bool" where
  "mailboxes_wf tt \<longleftrightarrow> (\<forall>s < 4. \<forall>d < 4. mbox_wf s d tt)"

lemma mailboxes_wf_push [wf_intros]:
  "mailboxes_wf tt \<Longrightarrow> mailboxes_wf (snd (fifo_push tt s d v))"
  unfolding mailboxes_wf_def
  by (metis fifo_push_other(2) mb.wf_push prod.inject)

lemma mailboxes_wf_pop [wf_intros]:
  "mailboxes_wf tt \<Longrightarrow> fifo_pop tt s d = Some (v, tt') \<Longrightarrow> mailboxes_wf tt'"
  unfolding mailboxes_wf_def
  by (metis fifo_pop_other(2) mb.wf_pop prod.inject)

lemma mbox_stall_irrel [simp]:
  "mbox s d (tt\<lparr>mailbox_stall := f\<rparr>) = mbox s d tt"
  "mbox_wf s d (tt\<lparr>mailbox_stall := f\<rparr>) = mbox_wf s d tt"
  "mailboxes_wf (tt\<lparr>mailbox_stall := f\<rparr>) = mailboxes_wf tt"
  by (simp_all add: mbox_def mbox_wf_def mailboxes_wf_def)

lemma mailbox_target_less: "in_mailbox_range addr \<Longrightarrow> mailbox_target addr < 4"
proof -
  assume "in_mailbox_range addr"
  then have "unat (addr - MAILBOX_ADDR_BASE) \<le> 0x3FFF"
    by (auto simp: in_mailbox_range_def mailbox_consts word_le_nat_alt unat_sub_if')
  then show ?thesis
    by (simp add: mailbox_target_def unat_drop_bit_eq drop_bit_eq_div unat_div)
qed

lemma mailboxes_wf_write [wf_intros]:
  "mailboxes_wf tt \<Longrightarrow> mailboxes_wf (snd (mailbox_write tt c addr v))"
  by (auto simp: mailbox_write_def Let_def intro: wf_intros)

lemma mailboxes_wf_read [wf_intros]:
  "mailboxes_wf tt \<Longrightarrow> mailboxes_wf (snd (mailbox_read tt c addr))"
  by (auto simp: mailbox_read_def Let_def intro: wf_intros split: option.split)

lemma mailboxes_wf_process [wf_intros]:
  "mailboxes_wf tt \<Longrightarrow> mailboxes_wf (snd (mailbox_process tt c))"
  by (auto simp: mailbox_process_def Let_def)

section \<open>Properties\<close>

text \<open>A tile whose mailboxes are empty, for the instances below.\<close>

definition mailbox_demo :: tensix where
  "mailbox_demo = (zero_tensix demo_memory)\<lparr>mailbox_fifo := (\<lambda>_ _. replicate 4 0), mailbox_head := (\<lambda>_ _. 0),
     mailbox_count := (\<lambda>_ _. 0), mailbox_stall := (\<lambda>_. False)\<rparr>"

lemma mailbox_demo_facts: "mailboxes_wf mailbox_demo" "mbox s d mailbox_demo = []" "mbox_wf s d mailbox_demo"
  by (simp_all add: mailbox_demo_def mailboxes_wf_def mbox_wf_def mbox_def)

text \<open>C24: each of the sixteen mailbox FIFOs refines the abstract queue of capacity 4: every sequence of
  pushes and pops on FIFO (s, d) gives the answers of the abstract queue and ends well-formed with the
  abstract queue's contents.\<close>

theorem mailbox_fifo_refines_queue:
  assumes "mbox_wf s d tt"
    "fifo_run (\<lambda>tt. fifo_push tt s d) (\<lambda>tt. fifo_pop tt s d) tt cs = (as, tt')"
  shows "mbox_wf s d tt' \<and> spec_run 4 (mbox s d tt) cs = (as, mbox s d tt')"
  using assms by (rule mb.run_refines)

theorem mailbox_fifo_refines_queue_witness:
  "fst (fifo_run (\<lambda>tt. fifo_push tt 0 1) (\<lambda>tt. fifo_pop tt 0 1) mailbox_demo [Push 7, Pop, Pop])
     = fst (spec_run 4 [] [Push 7, Pop, Pop])"
  using mailbox_fifo_refines_queue[of 0 1 mailbox_demo "[Push 7, Pop, Pop]"] mailbox_demo_facts
  by (metis prod.collapse fst_conv)

lemma mailbox_core_index_bounds:
  "mailbox_core_index c < 4" "mailbox_core_index c \<ge> 0 \<longleftrightarrow> -1 \<le> c \<and> c \<le> 2"
  by (auto simp: mailbox_core_index_def)

text \<open>C25: a store of core S to the window of core R appends the value to FIFO (S, R) if it has room; if
  the FIFO already holds four values the store is reported as handled and the value is dropped; the
  other fifteen FIFOs are unchanged in both cases.\<close>

theorem mailbox_write_appends:
  assumes "mailboxes_wf tt" "in_mailbox_range addr" "-1 \<le> c" "c \<le> 2"
    "s = nat (mailbox_core_index c)" "d = mailbox_target addr" "mailbox_write tt c addr v = (ok, tt')"
  shows "ok \<and> mbox s d tt' = (if length (mbox s d tt) < 4 then mbox s d tt @ [v] else mbox s d tt)
    \<and> (\<forall>s' d'. (s', d') = (s, d) \<or> mbox s' d' tt' = mbox s' d' tt)"
proof -
  have idx: "0 \<le> mailbox_core_index c" "s < 4" "d < 4"
    using assms mailbox_core_index_bounds[of c] mailbox_target_less by auto
  then have w: "mbox_wf s d tt" using assms(1) by (simp add: mailboxes_wf_def)
  have e: "ok" "tt' = snd (fifo_push tt s d v)"
    using assms idx(1) by (auto simp: mailbox_write_def Let_def)
  have "mbox s d tt' = (if length (mbox s d tt) < 4 then mbox s d tt @ [v] else mbox s d tt)"
    by (rule mb.push_cases[OF w, of v]) (auto simp: e)
  moreover have "(s', d') = (s, d) \<or> mbox s' d' tt' = mbox s' d' tt" for s' d'
    using fifo_push_other(1)[of s' d' s d tt v] e by auto
  ultimately show ?thesis using e by blast
qed

theorem mailbox_write_appends_witness:
  "\<exists>tt'. mailbox_write mailbox_demo 0 0xFFEC2000 5 = (True, tt') \<and> mbox 1 2 tt' = [5]"
proof -
  obtain ok tt' where w: "mailbox_write mailbox_demo 0 0xFFEC2000 5 = (ok, tt')" by fastforce
  then have "ok \<and> mbox 1 2 tt' = (if length (mbox 1 2 mailbox_demo) < 4
      then mbox 1 2 mailbox_demo @ [5] else mbox 1 2 mailbox_demo)"
    using mailbox_write_appends[where tt = mailbox_demo and addr = "0xFFEC2000" and c = 0, OF _ _ _ _ refl refl w] mailbox_demo_facts
    by (simp add: mailbox_core_index_def mailbox_target_def in_mailbox_range_def mailbox_consts)
  with w mailbox_demo_facts show ?thesis by simp
qed

text \<open>C26: a load by core R from the window of core S (address bit 2 clear) delivers the oldest value of
  FIFO (S, R) and removes it; on an empty FIFO it returns 0, changes no FIFO and raises R's stall
  flag, which \<^const>\<open>mailbox_process\<close> reports once and clears.\<close>

theorem mailbox_read_pops:
  assumes "mailboxes_wf tt" "in_mailbox_range addr" "addr AND 4 = 0" "-1 \<le> c" "c \<le> 2"
    "r = nat (mailbox_core_index c)" "s = mailbox_target addr" "mailbox_read tt c addr = (res, tt')"
  shows "case mbox s r tt of
      v # vs \<Rightarrow> res = Some v \<and> mbox s r tt' = vs
    | [] \<Rightarrow> res = Some 0 \<and> tt' = tt\<lparr>mailbox_stall := (mailbox_stall tt)(r := True)\<rparr>
        \<and> mailbox_process tt' c = (True, tt\<lparr>mailbox_stall := (mailbox_stall tt)(r := False)\<rparr>)"
proof -
  have idx: "0 \<le> mailbox_core_index c" "r < 4" "s < 4"
    using assms mailbox_core_index_bounds[of c] mailbox_target_less by auto
  then have w: "mbox_wf s r tt" using assms(1) by (simp add: mailboxes_wf_def)
  have e: "(res, tt') = (case fifo_pop tt s r of
      Some (v, tt') \<Rightarrow> (Some v, tt')
    | None \<Rightarrow> (Some 0, tt\<lparr>mailbox_stall := (mailbox_stall tt)(r := True)\<rparr>))"
    using assms idx(1) by (simp add: mailbox_read_def Let_def split: option.splits prod.splits)
  show ?thesis
  proof (cases "mbox s r tt")
    case Nil
    then show ?thesis
      using mb.pop_empty[OF w] idx(1) e assms(6) by (simp add: mailbox_process_def Let_def)
  next
    case (Cons v vs)
    then show ?thesis using mbox_pop_some[OF w] e by auto
  qed
qed

theorem mailbox_read_pops_witness:
  "\<exists>tt'. mailbox_read mailbox_demo 0 0xFFEC2000 = (Some 0, tt') \<and> mailbox_stall tt' 1"
proof -
  obtain res tt' where r: "mailbox_read mailbox_demo 0 0xFFEC2000 = (res, tt')" by fastforce
  then have "case mbox 2 1 mailbox_demo of
      v # vs \<Rightarrow> res = Some v \<and> mbox 2 1 tt' = vs
    | [] \<Rightarrow> res = Some 0 \<and> tt' = mailbox_demo\<lparr>mailbox_stall := (mailbox_stall mailbox_demo)(1 := True)\<rparr>
        \<and> mailbox_process tt' 0
          = (True, mailbox_demo\<lparr>mailbox_stall := (mailbox_stall mailbox_demo)(1 := False)\<rparr>)"
    using mailbox_read_pops[where tt = mailbox_demo and addr = "0xFFEC2000" and c = 0, OF _ _ _ _ _ refl refl r] mailbox_demo_facts
    by (auto simp: mailbox_core_index_def mailbox_target_def in_mailbox_range_def mailbox_consts)
  with r mailbox_demo_facts show ?thesis by auto
qed

end
