(* ===== verification/Tensix_Mmio.thy ===== *)
theory Tensix_Mmio
  imports Mop_Execution Mailbox
begin

text \<open>
  The interface of the tile to the RISC-V cores (\<^verbatim>\<open>tt_cop/tensix_impl.c\<close>): initialisation, reset and
  the clearing of per-kernel state, and the memory-mapped registers: mailboxes, semaphores, per-core
  memory, instruction buffers, stream overlay, configuration and debug registers.  A write that ends
  in the failed assertion on a full and blocked instruction FIFO is \<^const>\<open>None\<close>.
\<close>

section \<open>Initialisation, reset, clearing\<close>

text \<open>The constant SFPU registers: 0.8373, 0, 1.0, -1.0 and twice the lane number.\<close>

definition lreg_constants :: "(nat \<Rightarrow> nat \<Rightarrow> u32) \<Rightarrow> nat \<Rightarrow> nat \<Rightarrow> u32" where
  "lreg_constants r = r(8 := (\<lambda>i. if i < 32 then 0x3f56594b else r 8 i),
                       9 := (\<lambda>i. if i < 32 then 0 else r 9 i),
                       10 := (\<lambda>i. if i < 32 then 0x3F800000 else r 10 i),
                       11 := (\<lambda>i. if i < 32 then 0xBF800000 else r 11 i),
                       15 := (\<lambda>i. if i < 32 then of_nat (2 * i) else r 15 i))"

definition tensix_init :: "tensix_memory \<Rightarrow> u16 \<Rightarrow> tensix_cop" where
  "tensix_init m xy =
     (let tt = zero_tensix m;
          tt = tt\<lparr>noc_xy := xy,
                  mutex := fold (\<lambda>i s. s(i := MUTEX_NONE)) [0..<8] (mutex tt),
                  sem_max := (sem_max tt)(2 := 1, 4 := 1, 7 := 1),
                  flag_stack_top := -1,
                  lane_flags := fold (\<lambda>i s. s(i := True)) [0..<32] (lane_flags tt),
                  use_lane_flags := fold (\<lambda>i s. s(i := True)) [0..<32] (use_lane_flags tt),
                  lreg := lreg_constants (lreg tt),
                  neginf := 0xFF800000\<rparr>
      in tensix_cop_init tt)"

definition tensix_reset :: "tensix_cop \<Rightarrow> tensix_cop" where
  "tensix_reset cop = upd_core (\<lambda>tt.
     tt\<lparr>srca := (\<lambda>_ _ _. 0), srcb := (\<lambda>_ _ _. 0), dest := (\<lambda>_ _. 0),
        srca_dvalid := (\<lambda>_. False), srcb_dvalid := (\<lambda>_. False), unp_srca_bank := 0,
        unp_srcb_bank := 0, math_srca_bank := 0, math_srcb_bank := 0, dest_dvalid := False,
        pack_l1_write_offset := 0, pack_l1_dest_addr_raw := 0,
        mutex := fold (\<lambda>i s. s(i := MUTEX_NONE)) [0..<8] (mutex tt),
        sem := fold (\<lambda>i s. s(i := 0)) [0..<8] (sem tt)\<rparr>) (tensix_cop_reset cop)"

text \<open>\<^verbatim>\<open>memset\<close> over the parts of the high memory before and after the configuration registers.\<close>

definition clear_high_mem :: "region \<Rightarrow> region" where
  "clear_high_mem hm =
     (let cfg_start = TENSIX_CFG_OFFSET_IN_HIGH_MEM; cfg_end = cfg_start + CFG_REG_COUNT * 4 in
      (\<lambda>a. if a < cfg_start then 0 else if cfg_end \<le> a \<and> a < 0x600000 then 0 else hm a))"

definition tensix_clear :: "tensix_cop \<Rightarrow> tensix_cop" where
  "tensix_clear cop =
     (let old = core cop;
          tt = zero_tensix (mem old);
          tt = tt\<lparr>noc_xy := noc_xy old, cores_in_kernel := cores_in_kernel old,
                  sem_max := sem_max old,
                  mutex := fold (\<lambda>i s. s(i := MUTEX_NONE)) [0..<8] (mutex tt),
                  flag_stack_top := -1, lane_flags := lane_flags old,
                  use_lane_flags := use_lane_flags old, neginf := 0xFF800000,
                  lreg := lreg_constants (lreg tt)\<rparr>;
          tt = tt\<lparr>mem := (mem tt)\<lparr>high_mem := map_option clear_high_mem (high_mem (mem tt))\<rparr>\<rparr>
      in \<lparr>threads = (\<lambda>t. zero_thread\<lparr>mop_cfg := mop_cfg (threads cop t),
                                     zmask_hi16 := zmask_hi16 (threads cop t)\<rparr>),
          core = tt, halted = False, total_cycles = 0\<rparr>)"

section \<open>Pushing and stepping\<close>

definition tensix_push :: "tensix_cop \<Rightarrow> u32 \<Rightarrow> int \<Rightarrow> bool \<times> tensix_cop" where
  "tensix_push cop insn core_id =
     (if core_id < 0 \<or> core_id > 2 then (False, cop) else tensix_cop_push cop core_id insn)"

definition tensix_write_mop_cfg :: "tensix_cop \<Rightarrow> int \<Rightarrow> u32 \<Rightarrow> u32 \<Rightarrow> tensix_cop" where
  "tensix_write_mop_cfg cop core_id offset data =
     (if core_id < 0 \<or> core_id > 2 then cop
      else let reg_idx = offset div 4 in
        if reg_idx < 9
        then upd_thread (nat core_id) (\<lambda>th. th\<lparr>mop_cfg := (mop_cfg th)[unat reg_idx := data]\<rparr>) cop
        else cop)"

definition tensix_step :: "unit_op \<Rightarrow> tensix_cop \<Rightarrow> int \<Rightarrow> bool \<times> tensix_cop" where
  "tensix_step u cop core_id = tensix_cop_step u cop core_id"

definition tensix_set_direct :: "tensix_cop \<Rightarrow> u32 \<Rightarrow> int \<Rightarrow> tensix_cop" where
  "tensix_set_direct cop insn core_id =
     (if core_id < 0 \<or> core_id > 2 then cop else tensix_cop_set_direct cop core_id insn)"

definition tensix_step_direct :: "unit_op \<Rightarrow> tensix_cop \<Rightarrow> int \<Rightarrow> (bool \<times> tensix_cop) option" where
  "tensix_step_direct u cop core_id = tensix_cop_step_direct u cop core_id"

section \<open>Memory-mapped reads\<close>

definition get_core_ldm :: "tensix \<Rightarrow> int \<Rightarrow> region option" where
  "get_core_ldm tt core_id =
     (if core_id = 0 then t0_ldm (mem tt) else if core_id = 1 then t1_ldm (mem tt)
      else if core_id = 2 then t2_ldm (mem tt) else None)"

definition set_core_ldm :: "int \<Rightarrow> region \<Rightarrow> tensix \<Rightarrow> tensix" where
  "set_core_ldm core_id r tt =
     (if core_id = 0 then tt\<lparr>mem := (mem tt)\<lparr>t0_ldm := Some r\<rparr>\<rparr>
      else if core_id = 1 then tt\<lparr>mem := (mem tt)\<lparr>t1_ldm := Some r\<rparr>\<rparr>
      else if core_id = 2 then tt\<lparr>mem := (mem tt)\<lparr>t2_ldm := Some r\<rparr>\<rparr> else tt)"

definition in_range :: "u32 \<Rightarrow> u32 \<Rightarrow> u32 \<Rightarrow> bool" where
  "in_range lo hi addr \<longleftrightarrow> addr \<ge> lo \<and> addr \<le> hi"

definition is_per_core_addr :: "u32 \<Rightarrow> bool" where
  "is_per_core_addr addr \<longleftrightarrow> in_range 0xFFB80000 0xFFB80023 addr
     \<or> in_range 0xFFE00000 0xFFE00FFF addr \<or> in_range 0xFFE80000 0xFFE8001F addr"

definition addr_to_ldm_offset :: "u32 \<Rightarrow> u32" where
  "addr_to_ldm_offset addr =
     (if in_range 0xFFB80000 0xFFB80023 addr then 0x2000 + (addr - 0xFFB80000)
      else if in_range 0xFFE00000 0xFFE00FFF addr then 0x2100 + (addr - 0xFFE00000)
      else if in_range 0xFFE80000 0xFFE8001F addr then 0x3100 + (addr - 0xFFE80000)
      else 0xFFFFFFFF)"

text \<open>The word an array-read command selects from the destination registers.\<close>

definition dbg_array_word :: "tensix \<Rightarrow> u32" where
  "dbg_array_word tt =
     (let cmd = dbg_array_rd_cmd tt;
          row_addr = cmd AND 0xFFF;
          row_32b_sel = drop_bit 12 cmd AND 0xF;
          array_id = drop_bit 16 cmd AND 0x7 in
      if array_id = 2 \<and> row_addr < 1024 then
        let col0 = row_32b_sel * 2;
            col1 = col0 + 1;
            v0 = (if col0 < 16 then dest tt (unat row_addr) (unat col0) else 0);
            v1 = (if col1 < 16 then dest tt (unat row_addr) (unat col1) else 0)
        in (v0 AND 0xFFFF) OR push_bit 16 (v1 AND 0xFFFF)
      else 0)"

text \<open>The last part of \<^verbatim>\<open>tensix_mmio_read\<close>, for addresses that are neither mailbox, semaphore nor
  per-core memory.  \<^const>\<open>None\<close>: not handled, the caller reads memory.\<close>

definition mmio_read_other :: "tensix \<Rightarrow> u32 \<Rightarrow> u32 option" where
  "mmio_read_other tt addr =
     (if in_range 0xFFE40000 0xFFE6FFFF addr then Some 0
      else if addr \<ge> 0xFFB40000 \<and> addr < 0xFFB80000 then
        let offset = addr - 0xFFB00000 in
        (case high_mem (mem tt) of
           Some hm \<Rightarrow> if offset < 0x400000 then Some (ld32 hm offset) else None
         | None \<Rightarrow> None)
      else if in_range 0xFFEF0000 0xFFEFFFFF addr then None
      else if addr = 0xFFB121F0 \<or> addr = 0xFFB121F8 then Some 0xFFFFFFFF
      else if addr = 0xFFB1206C then Some (dbg_array_word tt)
      else None)"

definition tensix_mmio_read :: "tensix \<Rightarrow> int \<Rightarrow> u32 \<Rightarrow> u32 option \<times> tensix" where
  "tensix_mmio_read tt core_id addr =
     (if in_range 0xFFEC0000 0xFFEC3FFF addr then mailbox_read tt core_id addr
      else if in_range 0xFFE80020 0xFFE8003F addr \<and> (addr - 0xFFE80020) div 4 < 8
      then (Some (sem tt (unat ((addr - 0xFFE80020) div 4))), tt)
      else if is_per_core_addr addr \<and> core_id \<ge> 0 \<and> core_id \<le> 2
        \<and> get_core_ldm tt core_id \<noteq> None \<and> addr_to_ldm_offset addr < 0x4000
      then (Some (ld32 (the (get_core_ldm tt core_id)) (addr_to_ldm_offset addr)), tt)
      else (mmio_read_other tt addr, tt))"

section \<open>Memory-mapped writes\<close>

definition mmio_sem_write :: "nat \<Rightarrow> u32 \<Rightarrow> tensix \<Rightarrow> tensix" where
  "mmio_sem_write k data tt =
     (if data = 0 then (if sem tt k < 15 then tt\<lparr>sem := (sem tt)(k := sem tt k + 1)\<rparr> else tt)
      else if data = 1 then (if sem tt k > 0 then tt\<lparr>sem := (sem tt)(k := sem tt k - 1)\<rparr> else tt)
      else tt\<lparr>sem := (sem tt)(k := data AND 0xF)\<rparr>)"

lemma push_refused_backlog:
  "tensix_push cop data t = (False, cop') \<Longrightarrow> backlog cop' (nat t) = backlog cop (nat t)"
  by (auto simp: tensix_push_def tensix_cop_push_def tensix_fifo_push_def backlog_def split_def Let_def
      split: if_splits)

text \<open>\<^verbatim>\<open>while (!tensix_push(...)) { if (!tensix_step(...)) assert(0); }\<close> ends because each step frees
  an entry.\<close>

function push_with_drain :: "unit_op \<Rightarrow> tensix_cop \<Rightarrow> u32 \<Rightarrow> int \<Rightarrow> tensix_cop option" where
  "push_with_drain u cop data t =
     (case tensix_push cop data t of
        (True, cop') \<Rightarrow> Some cop'
      | (False, cop') \<Rightarrow>
          (case tensix_step u cop' t of
             (True, cop'') \<Rightarrow> push_with_drain u cop'' data t
           | (False, cop'') \<Rightarrow> None))"
  by pat_completeness auto
termination
  by (relation "measure (\<lambda>(u, cop, d, t). backlog cop (nat t))")
    (auto dest!: push_refused_backlog[OF sym] step_backlog[OF sym] simp: tensix_step_def)

declare push_with_drain.simps [simp del]

text \<open>The thread that an instruction-buffer write goes to: -1 for the combinations that the tile
  rejects.\<close>

definition instrn_target :: "int \<Rightarrow> u32 \<Rightarrow> int" where
  "instrn_target core_id addr =
     (if addr \<le> 0xFFE4FFFF then
        (if core_id \<ge> 0 \<and> core_id \<le> 2 then core_id else if core_id = -1 then 0 else -1)
      else if addr \<le> 0xFFE5FFFF then (if core_id = -1 then 1 else -1)
      else (if core_id = -1 then 2 else -1))"

definition mmio_stream_write :: "u32 \<Rightarrow> u32 \<Rightarrow> tensix \<Rightarrow> tensix" where
  "mmio_stream_write addr data tt =
     (let off_in_stream = (addr - 0xFFB40000) AND 0xFFF;
          offset = addr - 0xFFB00000 in
      case high_mem (mem tt) of
        None \<Rightarrow> tt
      | Some hm \<Rightarrow>
          let hm = (if off_in_stream = 0x438 then
                      let raw = drop_bit 6 data AND 0x1FFFF;
                          increment = (if raw AND 0x10000 \<noteq> 0 then raw OR 0xFFFE0000 else raw);
                          avail_offset = offset + 0x6C
                      in if avail_offset < 0x400000
                         then st32 hm avail_offset (ld32 hm avail_offset + increment) else hm
                    else hm);
              hm = (if offset < 0x400000 then st32 hm offset data else hm)
          in tt\<lparr>mem := (mem tt)\<lparr>high_mem := Some hm\<rparr>\<rparr>)"

definition mmio_cfg_write :: "u32 \<Rightarrow> u32 \<Rightarrow> tensix \<Rightarrow> tensix" where
  "mmio_cfg_write addr data tt =
     (let reg_idx = (addr - 0xFFEF0000) div 4;
          tt = (if reg_idx = 69 then tt\<lparr>pack_l1_write_offset := 0\<rparr> else tt)
      in if reg_idx = 186 \<or> reg_idx = 186 + 224
         then tt\<lparr>prng_state := fold (\<lambda>lane s. s(lane := data + of_nat lane)) [0..<32] (prng_state tt)\<rparr>
         else tt)"

text \<open>\<^const>\<open>True\<close>: handled; \<^const>\<open>False\<close>: the caller also writes memory.\<close>

definition tensix_mmio_write :: "unit_op \<Rightarrow> tensix_cop \<Rightarrow> int \<Rightarrow> u32 \<Rightarrow> u32 \<Rightarrow> (bool \<times> tensix_cop) option"
  where "tensix_mmio_write u cop core_id addr data =
    (if in_range 0xFFEC0000 0xFFEC3FFF addr
     then Some (False, upd_core (\<lambda>tt. snd (mailbox_write tt core_id addr data)) cop)
     else if in_range 0xFFE80020 0xFFE8003F addr \<and> (addr - 0xFFE80020) div 4 < 8
     then Some (True, upd_core (mmio_sem_write (unat ((addr - 0xFFE80020) div 4)) data) cop)
     else if is_per_core_addr addr \<and> core_id \<ge> 0 \<and> core_id \<le> 2 then
       let cop = (case get_core_ldm (core cop) core_id of
                    Some ldm \<Rightarrow> if addr_to_ldm_offset addr < 0x4000
                      then upd_core (set_core_ldm core_id (st32 ldm (addr_to_ldm_offset addr) data)) cop
                      else cop
                  | None \<Rightarrow> cop);
           cop = (if in_range 0xFFB80000 0xFFB80023 addr
                  then tensix_write_mop_cfg cop core_id (addr - 0xFFB80000) data else cop)
       in Some (True, cop)
     else if in_range 0xFFE40000 0xFFE6FFFF addr then
       let target_thread = instrn_target core_id addr in
       if target_thread \<ge> 0
       then map_option (Pair True) (push_with_drain u cop data target_thread)
       else Some (True, cop)
     else if addr \<ge> 0xFFB40000 \<and> addr < 0xFFB80000
     then Some (True, upd_core (mmio_stream_write addr data) cop)
     else if in_range 0xFFEF0000 0xFFEFFFFF addr
     then Some (False, upd_core (mmio_cfg_write addr data) cop)
     else if addr = 0xFFB12064 then Some (True, upd_core (\<lambda>tt. tt\<lparr>dbg_array_rd_cmd := data\<rparr>) cop)
     else if addr = 0xFFB12060 then Some (True, cop)
     else Some (False, cop))"

section \<open>Facts\<close>

lemma sems_ok_mmio [wf_intros]: "sems_ok tt \<Longrightarrow> sems_ok (mmio_sem_write k data tt)"
  by (auto simp: sems_ok_def mmio_sem_write_def inc_le_15 dec_le_15 and_15_le)

lemma push_accepted_pending:
  assumes "tensix_push cop data t = (True, cop')" "cop_wf cop"
  shows "pending (threads cop' (nat t)) = pending (threads cop (nat t)) @ [data]"
proof -
  have t: "\<not> bad_core t" "fifo_wf (insn_fifo (threads cop (nat t)))"
    using assms by (auto simp: tensix_push_def tensix_cop_push_def bad_core_def cop_wf_def thread_wf_def
        split: if_splits)
  show ?thesis
    by (rule tfifo.push_cases[OF t(2), of data])
      (use assms(1) t(1) in \<open>auto simp: tensix_push_def tensix_cop_push_def pending_def Let_def
        split: if_splits\<close>)
qed

lemma push_refused:
  assumes "tensix_push cop data t = (False, cop')" "cop_wf cop" "0 \<le> t" "t < 3"
  shows "cop' = cop" "length (fifo_abs (insn_fifo (threads cop (nat t)))) = 32"
proof -
  have t: "fifo_wf (insn_fifo (threads cop (nat t)))"
    using assms by (simp add: cop_wf_def thread_wf_def)
  have "cop' = cop \<and> length (fifo_abs (insn_fifo (threads cop (nat t)))) = 32"
    by (rule tfifo.push_cases[OF t, of data])
      (use assms in \<open>auto simp: tensix_push_def tensix_cop_push_def bad_core_def upd_thread_def
        tensix_cop.equality\<close>)
  then show "cop' = cop" "length (fifo_abs (insn_fifo (threads cop (nat t)))) = 32" by auto
qed

text \<open>A number of steps of a thread, all of which succeed.\<close>

fun steps_ok :: "unit_op \<Rightarrow> int \<Rightarrow> nat \<Rightarrow> tensix_cop \<Rightarrow> tensix_cop option" where
  "steps_ok u t 0 cop = Some cop"
| "steps_ok u t (Suc n) cop = (case tensix_step u cop t of (True, cop') \<Rightarrow> steps_ok u t n cop' | (False, _) \<Rightarrow> None)"

text \<open>Steps as long as the FIFO refuses the instruction, then the push; or a step that fails.\<close>

lemma push_with_drain_steps:
  "\<exists>n cop1. steps_ok u t n cop = Some cop1
    \<and> (\<forall>k < n. \<exists>c. steps_ok u t k cop = Some c \<and> \<not> fst (tensix_push c data t))
    \<and> (case push_with_drain u cop data t of
         Some cop' \<Rightarrow> tensix_push cop1 data t = (True, cop')
       | None \<Rightarrow> \<not> fst (tensix_push cop1 data t) \<and> \<not> fst (tensix_step u cop1 t))"
  if "cop_wf cop" "0 \<le> t" "t < 3"
  using that
proof (induction u cop data t rule: push_with_drain.induct)
  case (1 u cop data t)
  obtain ok cop1 where p: "tensix_push cop data t = (ok, cop1)" by fastforce
  show ?case
  proof (cases ok)
    case True
    with p show ?thesis by (intro exI[of _ 0] exI[of _ cop]) (simp add: push_with_drain.simps[of u cop])
  next
    case False
    with p have c1: "cop1 = cop" using push_refused(1)[of cop data t cop1] "1.prems" by simp
    obtain ok2 cop2 where s: "tensix_step u cop t = (ok2, cop2)" by fastforce
    show ?thesis
    proof (cases ok2)
      case no: False
      with False p c1 s show ?thesis by (intro exI[of _ 0] exI[of _ cop]) (simp add: push_with_drain.simps[of u cop])
    next
      case True
      have d: "push_with_drain u cop data t = push_with_drain u cop2 data t"
        using False True p c1 s by (simp add: push_with_drain.simps[of u cop])
      have "cop_wf cop2" using cop_wf_step[OF s[unfolded tensix_step_def]] "1.prems"(1) by simp
      then obtain n cop3 where n: "steps_ok u t n cop2 = Some cop3"
        "\<forall>k < n. \<exists>c. steps_ok u t k cop2 = Some c \<and> \<not> fst (tensix_push c data t)"
        "case push_with_drain u cop2 data t of
           Some cop' \<Rightarrow> tensix_push cop3 data t = (True, cop')
         | None \<Rightarrow> \<not> fst (tensix_push cop3 data t) \<and> \<not> fst (tensix_step u cop3 t)"
        using "1.IH"[OF p[symmetric] _ s[folded c1, symmetric] _ _ "1.prems"(2,3)] False True c1 by auto
      have "\<exists>c. steps_ok u t k cop = Some c \<and> \<not> fst (tensix_push c data t)" if "k < Suc n" for k
        using that n(2) s True False p by (cases k) auto
      with n(1,3) d s True show ?thesis by (intro exI[of _ "Suc n"] exI[of _ cop3]) simp
    qed
  qed
qed

text \<open>Each step executes the oldest pending instruction.\<close>

lemma steps_ok_pending:
  assumes "steps_ok u t n cop = Some cop1" "cop_wf cop" "0 \<le> t" "t < 3"
  shows "cop_wf cop1 \<and> (\<exists>xs. length xs = n \<and> pending (threads cop (nat t)) = xs @ pending (threads cop1 (nat t)))"
  using assms
proof (induction n arbitrary: cop)
  case (Suc n)
  then obtain cop2 where s: "tensix_step u cop t = (True, cop2)" "steps_ok u t n cop2 = Some cop1"
    by (auto split: prod.splits bool.splits)
  note st = s(1)[unfolded tensix_step_def]
  have "\<not> bad_core t" using Suc.prems by (simp add: bad_core_def)
  then obtain insn where i: "pending (threads cop (nat t)) = insn # pending (threads cop2 (nat t))"
    using step_pending[OF st] Suc.prems(2) by auto
  from Suc.IH[OF s(2) cop_wf_step[OF st Suc.prems(2)] Suc.prems(3,4)] obtain xs where
    "cop_wf cop1" "length xs = n" "pending (threads cop2 (nat t)) = xs @ pending (threads cop1 (nat t))" by blast
  with i show ?case by (intro conjI exI[of _ "insn # xs"]) simp_all
qed simp

lemma fold_all: "fold (\<lambda>i s. s(i := v)) [0..<n] f = (\<lambda>i. if i < n then v else f i)"
  using fold_pointwise[of "[0..<n]" "\<lambda>_ _. True" "\<lambda>_ _. v" f] by simp

lemma clear_high_mem_cfg:
  assumes "r < CFG_REG_COUNT"
  shows "ld32 (clear_high_mem hm) (cfg_addr r) = ld32 hm (cfg_addr r)"
proof -
  have r: "unat r < 448" using assms by (simp add: cfg_consts word_less_nat_alt)
  have "clear_high_mem hm (cfg_addr r + k) = hm (cfg_addr r + k)" if "unat k < 4" for k
  proof -
    have "unat (cfg_addr r + k) = 0x3F0000 + 4 * unat r + unat k"
      using r that by (simp add: cfg_addr_def cfg_consts unat_word_ariths)
    then show ?thesis
      using r that by (simp add: clear_high_mem_def Let_def cfg_consts word_less_nat_alt word_le_nat_alt)
  qed
  from this[of 0] this[of 1] this[of 2] this[of 3] show ?thesis by (simp add: ld32_def)
qed

lemma per_core_offset:
  assumes "is_per_core_addr addr"
  shows "addr_to_ldm_offset addr < 0x3120" "addr_to_ldm_offset addr \<ge> 0x2000"
  using assms
  by (auto simp: is_per_core_addr_def addr_to_ldm_offset_def in_range_def word_le_nat_alt
      word_less_nat_alt unat_word_ariths unat_sub_if')

section \<open>Properties\<close>

text \<open>C29: no semaphore ever exceeds 15: SEMINIT, SEMPOST, SEMGET and every memory-mapped semaphore write
  keep the eight counters in range, whatever their immediate or data.\<close>

theorem semaphores_stay_bounded:
  assumes "sems_ok tt"
  shows "sems_ok (ttseminit tt imm tid) \<and> sems_ok (ttsempost tt imm tid) \<and> sems_ok (ttsemget tt imm tid)
    \<and> sems_ok (mmio_sem_write k data tt)"
  using assms by (simp add: wf_intros)

theorem semaphores_stay_bounded_witness:
  "sems_ok (ttsempost ((zero_tensix demo_memory)\<lparr>sem := (\<lambda>_. 15)\<rparr>) 0x3FC 1)"
  using semaphores_stay_bounded[of "(zero_tensix demo_memory)\<lparr>sem := (\<lambda>_. 15)\<rparr>" _ _ 0 0]
  by (simp add: sems_ok_def zero_tensix_def)

text \<open>C20: a store to an instruction buffer executes pending instructions of the thread, oldest first, as long as the
  FIFO is full, and then queues the instruction behind the ones that are left; nothing else happens to the
  pending instructions.  The store ends in the failed assertion exactly when the FIFO is full and the oldest pending instruction cannot
  be executed.\<close>

theorem instrn_buf_write_queues:
  assumes "cop_wf cop" "in_range 0xFFE40000 0xFFE6FFFF addr" "t = instrn_target core_id addr" "0 \<le> t"
  shows "\<exists>xs ys cop1. pending (threads cop (nat t)) = xs @ ys
    \<and> steps_ok u t (length xs) cop = Some cop1 \<and> pending (threads cop1 (nat t)) = ys
    \<and> (\<forall>k < length xs. \<exists>c. steps_ok u t k cop = Some c \<and> \<not> fst (tensix_push c data t))
    \<and> (case tensix_mmio_write u cop core_id addr data of
         None \<Rightarrow> \<not> fst (tensix_push cop1 data t) \<and> \<not> fst (tensix_step u cop1 t)
       | Some (ok, cop') \<Rightarrow> ok \<and> tensix_push cop1 data t = (True, cop') \<and> cop_wf cop'
           \<and> pending (threads cop' (nat t)) = ys @ [data])"
proof -
  have "\<not> in_range 0xFFEC0000 0xFFEC3FFF addr" "\<not> in_range 0xFFE80020 0xFFE8003F addr" "\<not> is_per_core_addr addr"
    using assms(2) by (auto simp: in_range_def is_per_core_addr_def word_le_nat_alt)
  then have w: "tensix_mmio_write u cop core_id addr data = map_option (Pair True) (push_with_drain u cop data t)"
    using assms by (auto simp: tensix_mmio_write_def Let_def)
  have t: "t < 3" using assms(3) by (auto simp: instrn_target_def)
  from push_with_drain_steps[OF assms(1,4) t, of u data] obtain n cop1 where n: "steps_ok u t n cop = Some cop1"
    "\<forall>k < n. \<exists>c. steps_ok u t k cop = Some c \<and> \<not> fst (tensix_push c data t)"
    and p: "case push_with_drain u cop data t of
         Some cop' \<Rightarrow> tensix_push cop1 data t = (True, cop')
       | None \<Rightarrow> \<not> fst (tensix_push cop1 data t) \<and> \<not> fst (tensix_step u cop1 t)" by blast
  from steps_ok_pending[OF n(1) assms(1,4) t] obtain xs where
    xs: "cop_wf cop1" "length xs = n" "pending (threads cop (nat t)) = xs @ pending (threads cop1 (nat t))" by blast
  have "cop_wf cop' \<and> pending (threads cop' (nat t)) = pending (threads cop1 (nat t)) @ [data]"
    if "tensix_push cop1 data t = (True, cop')" for cop'
    using that push_accepted_pending[OF that] cop_wf_push[OF xs(1), of t data] xs(1) assms(4) t
    by (auto simp: tensix_push_def split: if_splits)
  with n p xs w show ?thesis
    by (intro exI[of _ xs] exI[of _ "pending (threads cop1 (nat t))"] exI[of _ cop1]) (auto split: option.splits)
qed

theorem instrn_buf_write_queues_witness:
  "\<exists>cop' cop1 xs ys. tensix_mmio_write idle_unit demo_cop (-1) 0xFFE50000 7 = Some (True, cop')
    \<and> pending (threads demo_cop 1) = xs @ ys \<and> steps_ok idle_unit 1 (length xs) demo_cop = Some cop1
    \<and> pending (threads cop' 1) = ys @ [7]"
proof -
  have "\<not> in_range 0xFFEC0000 0xFFEC3FFF 0xFFE50000" "\<not> in_range 0xFFE80020 0xFFE8003F 0xFFE50000"
    "\<not> is_per_core_addr 0xFFE50000" "in_range 0xFFE40000 0xFFE6FFFF 0xFFE50000"
    "instrn_target (-1) 0xFFE50000 = 1"
    by (simp_all add: in_range_def is_per_core_addr_def instrn_target_def)
  moreover have "push_with_drain idle_unit demo_cop 7 1 = Some (snd (tensix_push demo_cop 7 1))"
    by (subst push_with_drain.simps)
      (simp add: tensix_push_def tensix_cop_push_def bad_core_def tensix_cop_init_thread_def
        tensix_fifo_push_def tensix_fifo_is_full_def tensix_fifo_init_def TENSIX_FIFO_SIZE_def)
  moreover define cop' where "cop' = snd (tensix_push demo_cop 7 1)"
  ultimately have w: "tensix_mmio_write idle_unit demo_cop (-1) 0xFFE50000 7 = Some (True, cop')"
    by (simp add: tensix_mmio_write_def Let_def)
  show ?thesis
    using instrn_buf_write_queues[OF demo_cop_facts(1), of "0xFFE50000" 1 "-1" idle_unit 7] w
    by (fastforce simp: in_range_def instrn_target_def)
qed

text \<open>C28: a word a TRISC core stores to its memory-mapped per-core registers is what the same core loads
  back, and the two other cores' memories are unchanged.\<close>

theorem per_core_mmio_roundtrip:
  assumes "is_per_core_addr addr" "0 \<le> c" "c \<le> 2" "get_core_ldm (core cop) c \<noteq> None"
    "tensix_mmio_write u cop c addr data = Some (ok, cop')"
  shows "ok \<and> fst (tensix_mmio_read (core cop') c addr) = Some data
    \<and> (\<forall>d. d = c \<or> get_core_ldm (core cop') d = get_core_ldm (core cop) d)"
proof -
  have off: "addr_to_ldm_offset addr < 0x4000"
    using per_core_offset(1)[OF assms(1)] by (rule less_trans) simp
  have nr: "\<not> in_range 0xFFEC0000 0xFFEC3FFF addr" "\<not> in_range 0xFFE80020 0xFFE8003F addr"
    using assms(1) by (auto simp: in_range_def is_per_core_addr_def word_le_nat_alt)
  obtain ldm where ldm: "get_core_ldm (core cop) c = Some ldm" using assms(4) by blast
  have core': "core cop' = set_core_ldm c (st32 ldm (addr_to_ldm_offset addr) data) (core cop)" "ok"
    using assms nr off ldm
    by (auto simp: tensix_mmio_write_def Let_def tensix_write_mop_cfg_def split: if_splits)
  have "get_core_ldm (core cop') c = Some (st32 ldm (addr_to_ldm_offset addr) data)"
    using assms(2,3) core' by (auto simp: get_core_ldm_def set_core_ldm_def)
  then have "fst (tensix_mmio_read (core cop') c addr) = Some data"
    using assms(1-3) nr off by (simp add: tensix_mmio_read_def)
  moreover have "d = c \<or> get_core_ldm (core cop') d = get_core_ldm (core cop) d" for d
    using core' by (auto simp: get_core_ldm_def set_core_ldm_def)
  ultimately show ?thesis using core' by blast
qed

theorem per_core_mmio_roundtrip_witness:
  "\<exists>cop'. tensix_mmio_write idle_unit demo_cop 2 0xFFE00010 99 = Some (True, cop')
    \<and> fst (tensix_mmio_read (core cop') 2 0xFFE00010) = Some 99"
proof -
  have a: "is_per_core_addr 0xFFE00010" "get_core_ldm (core demo_cop) 2 \<noteq> None"
    by (simp_all add: is_per_core_addr_def in_range_def get_core_ldm_def zero_tensix_def demo_memory_def)
  obtain ok cop' where w: "tensix_mmio_write idle_unit demo_cop 2 0xFFE00010 99 = Some (ok, cop')"
    using a by (cases "tensix_mmio_write idle_unit demo_cop 2 0xFFE00010 99")
      (auto simp: tensix_mmio_write_def in_range_def Let_def)
  show ?thesis using per_core_mmio_roundtrip[OF a(1) _ _ a(2) w] w by auto
qed

text \<open>C27: clearing the tile between kernels keeps what must survive: every configuration register, the
  semaphore limits, the MOP configuration words and masks; it empties all mailboxes and instruction
  FIFOs, frees all mutexes, zeroes all semaphores, and leaves the coprocessor invariant true.\<close>

theorem tensix_clear_keeps_config:
  assumes "cop_wf cop"
  defines "cop' \<equiv> tensix_clear cop"
  shows "(\<forall>r. tensix_read_cfg (mem (core cop')) r = tensix_read_cfg (mem (core cop)) r)
    \<and> sem_max (core cop') = sem_max (core cop)
    \<and> (\<forall>t. mop_cfg (threads cop' t) = mop_cfg (threads cop t) \<and> zmask_hi16 (threads cop' t) = zmask_hi16 (threads cop t)
        \<and> pending (threads cop' t) = [])
    \<and> cop_wf cop' \<and> mailboxes_wf (core cop') \<and> (\<forall>s d. mbox s d (core cop') = [])
    \<and> (\<forall>i. sem (core cop') i = 0) \<and> (\<forall>i. i \<ge> 8 \<or> mutex (core cop') i = MUTEX_NONE)"
proof -
  have "tensix_read_cfg (mem (core cop')) r = tensix_read_cfg (mem (core cop)) r" for r
    by (auto simp: cop'_def tensix_clear_def Let_def tensix_read_cfg_def clear_high_mem_cfg zero_tensix_def
        split: option.split)
  moreover have "cop_wf cop'"
    using assms(1) by (simp add: cop_wf_def cop'_def tensix_clear_def Let_def thread_wf_def zero_thread_def)
  ultimately show ?thesis
    by (auto simp: cop'_def tensix_clear_def Let_def zero_tensix_def mailboxes_wf_def mbox_wf_def mbox_def
        pending_def zero_thread_def fold_all)
qed

theorem tensix_clear_keeps_config_witness:
  "tensix_read_cfg (mem (core (tensix_clear demo_cop))) 69 = tensix_read_cfg (mem (core demo_cop)) 69"
  using tensix_clear_keeps_config[OF demo_cop_facts(1)] by blast

end
