(* ===== verification/Rv_Tile.thy ===== *)
theory Rv_Tile
  imports Tensix_Mmio Rv_Isa
begin

text \<open>
  The memory of a tile and the callbacks the cores reach it through: \<^verbatim>\<open>io.c\<close>, the handlers
  \<^verbatim>\<open>on_mem_*\<close> of \<^verbatim>\<open>riscv.c\<close> and the Tensix calls of the instruction functions.

  The cores of a tile share one buffer: \<^verbatim>\<open>rv32_create\<close> makes \<^verbatim>\<open>mem_base\<close> its start and \<^verbatim>\<open>mem_high\<close> the byte
  after the first \<^verbatim>\<open>mem_size\<close> bytes.  The comment in \<^verbatim>\<open>rv32sim.h\<close> fixes how it is wired to the
  coprocessor: its scratchpad pointer is the start of the buffer, its high-memory pointer is
  \<^verbatim>\<open>mem_high\<close>, and the local memories of the three TRISC cores are the regions \<^verbatim>\<open>t0_ldm\<close> to \<^verbatim>\<open>t2_ldm\<close>.
  So the buffer is those two regions of the coprocessor one after the other.  The other two cores have
  local memories of their own.  The buffer is taken to be as large as the accesses need.
\<close>

section \<open>Memory\<close>

record tile =
  tcop :: tensix_cop
  mem_size :: u32
  core_local :: "int \<Rightarrow> region"
  local_size :: "int \<Rightarrow> u32"

definition HIGH_MEM_OFFSET :: u32 where "HIGH_MEM_OFFSET = 0xffb00000"

abbreviation tile_mem :: "tile \<Rightarrow> tensix_memory" where
  "tile_mem t \<equiv> mem (core (tcop t))"

definition upd_mem :: "(tensix_memory \<Rightarrow> tensix_memory) \<Rightarrow> tile \<Rightarrow> tile" where
  "upd_mem f t = t\<lparr>tcop := upd_core (\<lambda>tt. tt\<lparr>mem := f (mem tt)\<rparr>) (tcop t)\<rparr>"

definition ram :: "tile \<Rightarrow> region" where
  "ram t o' = (if o' < mem_size t then l1_scratchpad (tile_mem t) o'
     else case high_mem (tile_mem t) of Some h \<Rightarrow> h (o' - mem_size t) | None \<Rightarrow> 0)"

definition set_ram :: "region \<Rightarrow> tile \<Rightarrow> tile" where
  "set_ram r t = upd_mem (\<lambda>m. m\<lparr>
     l1_scratchpad := (\<lambda>o'. if o' < mem_size t then r o' else l1_scratchpad m o'),
     high_mem := map_option (\<lambda>h o'. if mem_size t \<le> mem_size t + o' then r (mem_size t + o') else h o')
       (high_mem m)\<rparr>) t"

definition loc :: "tile \<Rightarrow> int \<Rightarrow> region" where
  "loc t cid = (case get_core_ldm (core (tcop t)) cid of Some r \<Rightarrow> r | None \<Rightarrow> core_local t cid)"

definition set_loc :: "int \<Rightarrow> region \<Rightarrow> tile \<Rightarrow> tile" where
  "set_loc cid r t = (case get_core_ldm (core (tcop t)) cid of
     Some _ \<Rightarrow> t\<lparr>tcop := upd_core (set_core_ldm cid r) (tcop t)\<rparr>
   | None \<Rightarrow> t\<lparr>core_local := (core_local t)(cid := r)\<rparr>)"

text \<open>The pointer every access computes from its address: into the buffer or the core's local memory.\<close>

datatype mem_ptr = Ram u32 | Local u32

definition mem_ptr_of :: "tile \<Rightarrow> int \<Rightarrow> u32 \<Rightarrow> mem_ptr" where
  "mem_ptr_of t cid addr =
     (if addr < HIGH_MEM_OFFSET then Ram addr
      else if addr - HIGH_MEM_OFFSET < local_size t cid then Local (addr - HIGH_MEM_OFFSET)
      else Ram (mem_size t + (addr - HIGH_MEM_OFFSET)))"

definition mem_get :: "(region \<Rightarrow> u32 \<Rightarrow> 'v) \<Rightarrow> tile \<Rightarrow> int \<Rightarrow> u32 \<Rightarrow> 'v" where
  "mem_get ld t cid addr =
     (case mem_ptr_of t cid addr of Ram o' \<Rightarrow> ld (ram t) o' | Local o' \<Rightarrow> ld (loc t cid) o')"

definition mem_put :: "(region \<Rightarrow> u32 \<Rightarrow> 'v \<Rightarrow> region) \<Rightarrow> tile \<Rightarrow> int \<Rightarrow> u32 \<Rightarrow> 'v \<Rightarrow> tile" where
  "mem_put st t cid addr v =
     (case mem_ptr_of t cid addr of
        Ram o' \<Rightarrow> set_ram (st (ram t) o' v) t
      | Local o' \<Rightarrow> set_loc cid (st (loc t cid) o' v) t)"

definition memory_ifetch :: "tile \<Rightarrow> u32 \<Rightarrow> u32" where
  "memory_ifetch t addr = ld32 (ram t) addr"

definition memory_read_w :: "tile \<Rightarrow> int \<Rightarrow> u32 \<Rightarrow> u32" where
  "memory_read_w = mem_get ld32"
definition memory_read_s :: "tile \<Rightarrow> int \<Rightarrow> u32 \<Rightarrow> u16" where
  "memory_read_s = mem_get ld16"
definition memory_read_b :: "tile \<Rightarrow> int \<Rightarrow> u32 \<Rightarrow> u8" where
  "memory_read_b = mem_get (\<lambda>r. r)"
definition memory_write_w :: "tile \<Rightarrow> int \<Rightarrow> u32 \<Rightarrow> u32 \<Rightarrow> tile" where
  "memory_write_w = mem_put st32"
definition memory_write_s :: "tile \<Rightarrow> int \<Rightarrow> u32 \<Rightarrow> u16 \<Rightarrow> tile" where
  "memory_write_s = mem_put st16"
definition memory_write_b :: "tile \<Rightarrow> int \<Rightarrow> u32 \<Rightarrow> u8 \<Rightarrow> tile" where
  "memory_write_b = mem_put (\<lambda>r a v. r(a := v))"

section \<open>The callbacks\<close>

definition on_mem_ifetch :: "tile riscv \<Rightarrow> u32 \<Rightarrow> u32" where
  "on_mem_ifetch rv addr = memory_ifetch (env rv) addr"

definition on_mem_read_w :: "tile riscv \<Rightarrow> u32 \<Rightarrow> u32 \<times> tile" where
  "on_mem_read_w rv addr =
     (if has_tensix rv then
        (case tensix_mmio_read (core (tcop (env rv))) (core_id rv) addr of
           (Some result, tt) \<Rightarrow> (result, (env rv)\<lparr>tcop := upd_core (\<lambda>_. tt) (tcop (env rv))\<rparr>)
         | (None, tt) \<Rightarrow>
             let t = (env rv)\<lparr>tcop := upd_core (\<lambda>_. tt) (tcop (env rv))\<rparr> in
             (memory_read_w t (core_id rv) addr, t))
      else (memory_read_w (env rv) (core_id rv) addr, env rv))"

definition on_mem_read_s :: "tile riscv \<Rightarrow> u32 \<Rightarrow> u16" where
  "on_mem_read_s rv addr = memory_read_s (env rv) (core_id rv) addr"

definition on_mem_read_b :: "tile riscv \<Rightarrow> u32 \<Rightarrow> u8" where
  "on_mem_read_b rv addr = memory_read_b (env rv) (core_id rv) addr"

definition on_mem_write_w :: "unit_op \<Rightarrow> tile riscv \<Rightarrow> u32 \<Rightarrow> u32 \<Rightarrow> tile option" where
  "on_mem_write_w u rv addr data =
     (if has_tensix rv then
        (case tensix_mmio_write u (tcop (env rv)) (core_id rv) addr data of
           None \<Rightarrow> None
         | Some (True, cop) \<Rightarrow> Some ((env rv)\<lparr>tcop := cop\<rparr>)
         | Some (False, cop) \<Rightarrow> Some (memory_write_w ((env rv)\<lparr>tcop := cop\<rparr>) (core_id rv) addr data))
      else Some (memory_write_w (env rv) (core_id rv) addr data))"

definition on_mem_write_s :: "tile riscv \<Rightarrow> u32 \<Rightarrow> u16 \<Rightarrow> tile" where
  "on_mem_write_s rv addr data = memory_write_s (env rv) (core_id rv) addr data"

definition on_mem_write_b :: "tile riscv \<Rightarrow> u32 \<Rightarrow> u8 \<Rightarrow> tile" where
  "on_mem_write_b rv addr data = memory_write_b (env rv) (core_id rv) addr data"

text \<open>The callbacks \<^verbatim>\<open>rv_new\<close> installs.  The system-call handler of the host is a parameter.\<close>

definition tile_io :: "unit_op \<Rightarrow> (tile riscv \<Rightarrow> tile riscv) \<Rightarrow> tile riscv_io" where
  "tile_io u syscall = \<lparr>mem_ifetch = on_mem_ifetch, mem_read_w = on_mem_read_w, mem_read_s = on_mem_read_s,
     mem_read_b = on_mem_read_b, mem_write_w = on_mem_write_w u, mem_write_s = on_mem_write_s,
     mem_write_b = on_mem_write_b, on_ecall = ecall_handler syscall\<rparr>"

text \<open>The Tensix calls of \<^verbatim>\<open>do_ttinsn\<close> and the stall test of \<^verbatim>\<open>do_lw_mailbox\<close>.\<close>

definition tile_step_direct :: "unit_op \<Rightarrow> tile \<Rightarrow> u32 \<Rightarrow> int \<Rightarrow> (bool \<times> tile) option" where
  "tile_step_direct u t insn cid =
     map_option (\<lambda>(ok, cop). (ok, t\<lparr>tcop := cop\<rparr>))
       (tensix_step_direct u (tensix_set_direct (tcop t) insn cid) cid)"

definition tile_stalled :: "tile \<Rightarrow> int \<Rightarrow> bool" where
  "tile_stalled t cid =
     (let mci = mailbox_core_index cid in mci \<ge> 0 \<and> mailbox_stall (core (tcop t)) (nat mci))"

definition tile_ops :: "softfloat \<Rightarrow> unit_op \<Rightarrow> (tile riscv \<Rightarrow> tile riscv) \<Rightarrow> tile machine_ops" where
  "tile_ops lib u syscall = \<lparr>m_sf = lib, m_io = tile_io u syscall, tt_step_direct = tile_step_direct u,
     tt_stalled = tile_stalled\<rparr>"

section \<open>Plain memory\<close>

text \<open>The addresses that are ordinary memory for a core: the 1.5 MB scratchpad and the core's local
  memory.  \<^verbatim>\<open>tile_ok\<close> says that the tile has them.\<close>

definition plain_addr :: "int \<Rightarrow> u32 \<Rightarrow> bool" where
  "plain_addr cid a \<longleftrightarrow> a < 0x180000 \<or> (0xffb00000 \<le> a \<and> a < 0xffb02000)"

definition tile_ok :: "tile \<Rightarrow> bool" where
  "tile_ok t \<longleftrightarrow> 0x180000 \<le> mem_size t \<and> (\<forall>cid. local_size t cid = 0x2000)"

definition tile_bytes :: "int \<Rightarrow> tile \<Rightarrow> region" where
  "tile_bytes cid t a = (if a < 0x180000 then ram t a
     else if 0xffb00000 \<le> a \<and> a < 0xffb02000 then loc t cid (a - 0xffb00000) else 0)"

lemma ram_set_ram: "o' < mem_size t \<Longrightarrow> ram (set_ram r t) o' = r o'"
  by (simp add: ram_def set_ram_def upd_mem_def upd_core_def)

lemma loc_set_ram [simp]: "loc (set_ram r t) cid = loc t cid"
  by (auto simp: loc_def set_ram_def upd_mem_def upd_core_def get_core_ldm_def split: option.splits)

lemma ram_set_loc [simp]: "ram (set_loc cid r t) = ram t"
  by (auto simp: fun_eq_iff ram_def set_loc_def upd_core_def set_core_ldm_def split: option.splits)

lemma loc_set_loc [simp]: "loc (set_loc cid r t) cid = r"
  by (auto simp: loc_def set_loc_def upd_core_def set_core_ldm_def get_core_ldm_def split: option.splits if_splits)

lemma sizes_put [simp]:
  "mem_size (mem_put st t cid a v) = mem_size t" "local_size (mem_put st t cid a v) = local_size t"
  by (auto simp: mem_put_def set_ram_def set_loc_def upd_mem_def split: mem_ptr.splits option.splits)

text \<open>The bytes of an aligned access lie on the same side of a boundary that is a multiple of its size.\<close>

lemma aligned_below:
  fixes a k b :: u32
  assumes "a < b" "a AND 3 = 0" "b AND 3 = 0" "k < 4"
  shows "a + k < b"
proof -
  have "unat (a + k) = unat a + unat k" "unat k < 4" using aligned_unat_add[OF assms(2,4)] by auto
  moreover have "unat a mod 4 = 0" "unat b mod 4 = 0" "unat a < unat b"
    using aligned_unat assms by (auto simp: word_less_nat_alt)
  ultimately show ?thesis unfolding word_less_nat_alt by presburger
qed

lemma aligned_above:
  fixes a k b :: u32
  assumes "b \<le> a" "a AND 3 = 0" "k < 4"
  shows "b \<le> a + k"
  using aligned_unat_add[OF assms(2,3)] assms(1) by (simp add: word_le_nat_alt)

lemma even_add:
  fixes a :: u32
  assumes "a AND 1 = 0"
  shows "a < b \<Longrightarrow> b AND 1 = 0 \<Longrightarrow> a + 1 < b" "b \<le> a \<Longrightarrow> b \<le> a + 1"
proof -
  have e: "unat x mod 2 = 0" if "x AND 1 = 0" for x :: u32
  proof -
    have "x AND 1 = take_bit 1 x" by (simp add: take_bit_eq_mask mask_eq_exp_minus_1)
    with that have "unat (take_bit 1 x) = 0" by simp
    then show ?thesis by (simp add: take_bit_eq_mod unat_mod)
  qed
  have "unat a < 4294967296" using unsigned_less[of a] by simp
  with e[OF assms] have u: "unat (a + 1) = unat a + 1" by (subst unat_Suc_less[of a 4294967295]) (presburger | simp)+
  show "a + 1 < b" if "a < b" "b AND 1 = 0"
    using that e[OF assms] e[OF that(2)] u unfolding word_less_nat_alt by presburger
  show "b \<le> a + 1" if "b \<le> a" using that u unfolding word_le_nat_alt by simp
qed

lemma plain_no_mmio:
  assumes "a < 0xffb02000"
  shows "tensix_mmio_read tt cid a = (None, tt)" "tensix_mmio_write u cop cid a d = Some (False, cop)"
proof -
  have "a < b" if "0xffb02000 \<le> b" for b using assms that by (rule less_le_trans)
  from this[of "0xFFEC0000"] this[of "0xFFE80020"] this[of "0xFFB80000"] this[of "0xFFE00000"] this[of "0xFFE80000"]
    this[of "0xFFE40000"] this[of "0xFFB40000"] this[of "0xFFEF0000"] this[of "0xFFB12060"] this[of "0xFFB12064"]
  show "tensix_mmio_read tt cid a = (None, tt)" "tensix_mmio_write u cop cid a d = Some (False, cop)"
    by (auto simp: tensix_mmio_read_def tensix_mmio_write_def in_range_def is_per_core_addr_def mmio_read_other_def not_le)
qed

lemma window_k:
  fixes a k :: u32
  assumes "a AND 3 = 0" "k < 4"
  shows "a < 0x180000 \<Longrightarrow> a + k < 0x180000" "a < 0xffb02000 \<Longrightarrow> a + k < 0xffb02000"
    "0xffb00000 \<le> a \<Longrightarrow> 0xffb00000 \<le> a + k"
  using aligned_below[of a _ k] aligned_above[of _ a k] assms by auto

lemma ptr_plain:
  assumes "tile_ok t"
  shows "a < 0x180000 \<Longrightarrow> mem_ptr_of t cid a = Ram a"
    "0xffb00000 \<le> a \<Longrightarrow> a < 0xffb02000 \<Longrightarrow> mem_ptr_of t cid a = Local (a - 0xffb00000)"
proof -
  show "mem_ptr_of t cid a = Ram a" if "a < 0x180000"
    using less_trans[OF that, of "0xffb00000"] by (simp add: mem_ptr_of_def HIGH_MEM_OFFSET_def)
  show "mem_ptr_of t cid a = Local (a - 0xffb00000)" if a: "0xffb00000 \<le> a" "a < 0xffb02000"
  proof -
    have "a - 0xffb00000 < 0x2000"
      using a by (simp add: word_less_nat_alt word_le_nat_alt unat_sub)
    with a assms show ?thesis by (simp add: mem_ptr_of_def HIGH_MEM_OFFSET_def tile_ok_def not_less)
  qed
qed

lemma high_not_low: "0xffb00000 \<le> b \<Longrightarrow> \<not> b < 0x180000" for b :: u32
  by (simp add: not_less order_trans[of "0x180000" "0xffb00000"])

lemma tile_bytes_low: "a < 0x180000 \<Longrightarrow> tile_bytes cid t a = ram t a"
  and tile_bytes_high: "0xffb00000 \<le> a \<Longrightarrow> a < 0xffb02000 \<Longrightarrow> tile_bytes cid t a = loc t cid (a - 0xffb00000)"
  by (simp_all add: tile_bytes_def high_not_low)

lemma off_add: "a - 0xffb00000 + k = a + k - (0xffb00000 :: u32)"
  by (rule diff_add_eq)

lemma plain_cases:
  assumes "plain_addr cid a"
  obtains (low) "a < 0x180000" | (high) "0xffb00000 \<le> a" "a < 0xffb02000"
  using assms unfolding plain_addr_def by blast

lemma mem_get_plain:
  assumes t: "tile_ok t" and p: "plain_addr cid a"
  shows "mem_get (\<lambda>r. r) t cid a = tile_bytes cid t a"
    and "a AND 1 = 0 \<Longrightarrow> mem_get ld16 t cid a = ld16 (tile_bytes cid t) a"
    and "a AND 3 = 0 \<Longrightarrow> mem_get ld32 t cid a = ld32 (tile_bytes cid t) a"
proof -
  show "mem_get (\<lambda>r. r) t cid a = tile_bytes cid t a"
    using p by (cases rule: plain_cases) (simp_all add: mem_get_def ptr_plain[OF t] tile_bytes_low tile_bytes_high)
  show "mem_get ld16 t cid a = ld16 (tile_bytes cid t) a" if "a AND 1 = 0"
    using p by (cases rule: plain_cases)
      (simp_all add: mem_get_def ptr_plain[OF t] tile_bytes_low tile_bytes_high ld16_def even_add[OF that] off_add)
  show "mem_get ld32 t cid a = ld32 (tile_bytes cid t) a" if "a AND 3 = 0"
    using p by (cases rule: plain_cases)
      (simp_all add: mem_get_def ptr_plain[OF t] tile_bytes_low tile_bytes_high ld32_def window_k[OF that] off_add)
qed

lemma tile_bytes_set_ram:
  "tile_ok t \<Longrightarrow> tile_bytes cid (set_ram r t) = (\<lambda>b. if b < 0x180000 then r b else tile_bytes cid t b)"
  by (auto simp: fun_eq_iff tile_bytes_def ram_set_ram tile_ok_def less_le_trans)

lemma tile_bytes_set_loc:
  "tile_bytes cid (set_loc cid r t)
   = (\<lambda>b. if 0xffb00000 \<le> b \<and> b < 0xffb02000 then r (b - 0xffb00000) else tile_bytes cid t b)"
  by (auto simp: fun_eq_iff tile_bytes_def high_not_low)

lemma off_eq: "b - 0xffb00000 = a - (0xffb00000 :: u32) \<longleftrightarrow> b = a" by simp

lemma tile_bytes_other:
  "(if b < 0x180000 then ram t b else tile_bytes cid t b) = tile_bytes cid t b"
  "(if 0xffb00000 \<le> b \<and> b < 0xffb02000 then loc t cid (b - 0xffb00000) else tile_bytes cid t b) = tile_bytes cid t b"
  by (auto simp: tile_bytes_low tile_bytes_high)

lemma mem_put_plain:
  assumes t: "tile_ok t" and p: "plain_addr cid a"
  shows "tile_bytes cid (mem_put (\<lambda>r a v. r(a := v)) t cid a v) = (tile_bytes cid t)(a := v)"
    and "a AND 1 = 0 \<Longrightarrow> tile_bytes cid (mem_put st16 t cid a h) = st16 (tile_bytes cid t) a h"
    and "a AND 3 = 0 \<Longrightarrow> tile_bytes cid (mem_put st32 t cid a w) = st32 (tile_bytes cid t) a w"
proof -
  show "tile_bytes cid (mem_put (\<lambda>r a v. r(a := v)) t cid a v) = (tile_bytes cid t)(a := v)"
    using p by (cases rule: plain_cases)
     (auto simp add: fun_eq_iff mem_put_def ptr_plain[OF t] tile_bytes_set_ram[OF t] tile_bytes_set_loc off_eq tile_bytes_low tile_bytes_high)
  show "tile_bytes cid (mem_put st16 t cid a h) = st16 (tile_bytes cid t) a h" if "a AND 1 = 0"
    using p by (cases rule: plain_cases)
     (auto simp add: fun_eq_iff mem_put_def ptr_plain[OF t] tile_bytes_set_ram[OF t] tile_bytes_set_loc off_eq tile_bytes_low tile_bytes_high
      st16_def even_add[OF that] off_add)
  show "tile_bytes cid (mem_put st32 t cid a w) = st32 (tile_bytes cid t) a w" if "a AND 3 = 0"
    using p by (cases rule: plain_cases)
     (auto simp add: fun_eq_iff mem_put_def ptr_plain[OF t] tile_bytes_set_ram[OF t] tile_bytes_set_loc off_eq tile_bytes_low tile_bytes_high
      st32_def window_k[OF that] off_add)
qed

section \<open>The callbacks provide plain memory\<close>

lemma plain_below: "plain_addr cid a \<Longrightarrow> a < 0xffb02000"
  by (auto simp: plain_addr_def intro: less_trans[of a "0x180000"])

lemma tile_ok_put [simp]: "tile_ok (mem_put st t cid a v) = tile_ok t"
  by (simp add: tile_ok_def)

lemma upd_core_id [simp]: "upd_core (\<lambda>_. core cop) cop = cop"
  by (simp add: upd_core_def)

interpretation tile: core_memory "tile_ops lib u syscall" tile_bytes plain_addr tile_ok for lib u syscall
proof unfold_locales
  fix rv :: "tile riscv" and a :: u32
  let ?M = "m_io (tile_ops lib u syscall)"
  assume ok: "tile_ok (env rv)" "plain_addr (core_id rv) a"
  note get = mem_get_plain[OF ok] and put = mem_put_plain[OF ok] and no_mmio = plain_no_mmio[OF plain_below[OF ok(2)]]
  show "mem_read_b ?M rv a = tile_bytes (core_id rv) (env rv) a"
    by (simp add: tile_ops_def tile_io_def on_mem_read_b_def memory_read_b_def get(1))
  show "mem_read_s ?M rv a = ld16 (tile_bytes (core_id rv) (env rv)) a" if "a AND 1 = 0"
    by (simp add: tile_ops_def tile_io_def on_mem_read_s_def memory_read_s_def get(2)[OF that])
  show "mem_read_w ?M rv a = (ld32 (tile_bytes (core_id rv) (env rv)) a, env rv)" if "a AND 3 = 0"
    by (simp add: tile_ops_def tile_io_def on_mem_read_w_def memory_read_w_def get(3)[OF that] no_mmio(1) Let_def)
  show "tile_ok (mem_write_b ?M rv a b) \<and> tile_bytes (core_id rv) (mem_write_b ?M rv a b)
      = (tile_bytes (core_id rv) (env rv))(a := b)" for b
    using ok(1) by (simp add: tile_ops_def tile_io_def on_mem_write_b_def memory_write_b_def put(1))
  show "tile_ok (mem_write_s ?M rv a h) \<and> tile_bytes (core_id rv) (mem_write_s ?M rv a h)
      = st16 (tile_bytes (core_id rv) (env rv)) a h" if "a AND 1 = 0" for h
    using ok(1) by (simp add: tile_ops_def tile_io_def on_mem_write_s_def memory_write_s_def put(2)[OF that])
  show "\<exists>e. mem_write_w ?M rv a v = Some e \<and> tile_ok e
      \<and> tile_bytes (core_id rv) e = st32 (tile_bytes (core_id rv) (env rv)) a v" if "a AND 3 = 0" for v
    using ok(1)
    by (simp add: tile_ops_def tile_io_def on_mem_write_w_def memory_write_w_def put(3)[OF that] no_mmio(2))
qed

section \<open>Properties\<close>

lemma exec_denoted:
  assumes "list_all asm_ok as" "list_all load_ok as" "list_all straight (butlast as)"
    and "list_all2 (\<lambda>ir a. \<exists>p. ir = (denote a)\<lparr>i_pc := p\<rparr>) irs as"
    and "X rv 0 = 0" "\<not> allow_misalign rv" "tile_ok (env rv)"
    and "run_within (plain_addr (core_id rv)) as (isa_of tile_bytes pc rv)"
  shows "case isa_run as (isa_of tile_bytes pc rv) of
      Done s \<Rightarrow> \<exists>rv' pc'. lands False (exec_nodes (tile_ops lib u syscall) lk irs cycle pc rv)
          = Some (rv', cycle + of_nat (length as), pc')
        \<and> isa_of tile_bytes pc' rv' = s \<and> X rv' 0 = 0
    | Fault cause a s \<Rightarrow> \<exists>rv' pc' c. exec_nodes (tile_ops lib u syscall) lk irs cycle pc rv
          = Return False (set_cause_and_tval_then_trap cause a
              (rv'\<lparr>compressed := False, csr_cycle := c, PC := pc'\<rparr>))
        \<and> isa_of tile_bytes pc' rv' = s \<and> X rv' 0 = 0"
proof -
  have "tile.core_ok (core_id rv) rv"
    using assms(5-7) by (simp add: tile.core_ok_def)
  then show ?thesis
    using tile.exec_program[OF assms(1-3) _ assms(8,4), where lib = lib and u = u and syscall = syscall and cycle = cycle and lk = lk]
    by (auto simp: tile.implements_def tile.core_ok_def split: isa_result.splits)
qed

text \<open>
  C4: the emulator executes RV32IM code as the instruction set prescribes.  Take the words of a basic
  block (RV32IM instructions of which all but the last fall through, no load to x0), decoded in any
  build with the M extension and the full register file, on a core whose accesses go to its scratchpad
  or local memory.  Running the decoded nodes has the effect of running the instructions one by one in
  the reference semantics: the same registers, memory and next program counter, with one cycle counted
  per instruction and x0 still zero; and if an access is misaligned, a trap with the prescribed cause and
  address that is precise: the registers, memory and program counter are those before the faulting
  instruction.
\<close>

theorem block_executes_isa:
  assumes "list_all asm_ok as" "list_all load_ok as" "list_all straight (butlast as)"
    and "\<not> RV32E f" "EXT_M f"
    and "list_all2 (\<lambda>ir a. \<exists>ir0 p. rv_decode f (encode a) zero_insn = Some (True, ir0) \<and> ir = ir0\<lparr>i_pc := p\<rparr>) irs as"
    and "X rv 0 = 0" "\<not> allow_misalign rv" "tile_ok (env rv)"
    and "run_within (plain_addr (core_id rv)) as (isa_of tile_bytes pc rv)"
  shows "case isa_run as (isa_of tile_bytes pc rv) of
      Done s \<Rightarrow> \<exists>rv' pc'. lands False (exec_nodes (tile_ops lib u syscall) lk irs cycle pc rv)
          = Some (rv', cycle + of_nat (length as), pc')
        \<and> isa_of tile_bytes pc' rv' = s \<and> X rv' 0 = 0
    | Fault cause a s \<Rightarrow> \<exists>rv' pc' c. exec_nodes (tile_ops lib u syscall) lk irs cycle pc rv
          = Return False (set_cause_and_tval_then_trap cause a
              (rv'\<lparr>compressed := False, csr_cycle := c, PC := pc'\<rparr>))
        \<and> isa_of tile_bytes pc' rv' = s \<and> X rv' 0 = 0"
proof -
  have "list_all2 (\<lambda>ir a. \<exists>p. ir = (denote a)\<lparr>i_pc := p\<rparr>) irs as"
    using assms(1,6) by (auto simp: list_all2_conv_all_nth list_all_length rv_decode_encode[OF _ assms(4,5)])
  from exec_denoted[OF assms(1-3) this assms(7-10)] show ?thesis .
qed

text \<open>The block \<^verbatim>\<open>addi x5, x0, 7; add x6, x5, x5; jal x0, 8\<close> at address 0x100.\<close>

definition zero_softfloat :: softfloat where
  "zero_softfloat = \<lparr>f32_mulAdd = (\<lambda>_ _ _ _. (0, 0)), f32_add = (\<lambda>_ _ _. (0, 0)), f32_sub = (\<lambda>_ _ _. (0, 0)),
     f32_mul = (\<lambda>_ _ _. (0, 0)), f32_div = (\<lambda>_ _ _. (0, 0)), f32_sqrt = (\<lambda>_ _. (0, 0)),
     f32_to_i32 = (\<lambda>_ _. (0, 0)), f32_to_ui32 = (\<lambda>_ _. (0, 0)), i32_to_f32 = (\<lambda>_ _. (0, 0)),
     ui32_to_f32 = (\<lambda>_ _. (0, 0))\<rparr>"

definition demo_tile :: tile where
  "demo_tile = \<lparr>tcop = tensix_init demo_memory 0, mem_size = 0x200000, core_local = (\<lambda>_ _. 0),
     local_size = (\<lambda>_. 0x2000)\<rparr>"

definition demo_ops :: "tile machine_ops" where
  "demo_ops = tile_ops zero_softfloat idle_unit (\<lambda>rv. rv)"

definition demo_block :: "asm list" where
  "demo_block = [OpImm rv_insn_addi 5 0 7, Op rv_insn_add 6 5 5, Jal 0 8]"

theorem block_executes_isa_witness:
  "\<exists>rv' pc'. lands False (exec_nodes demo_ops no_links (map denote demo_block) 0 0x100 (zero_riscv demo_tile))
     = Some (rv', 3, pc') \<and> pc' = 0x110 \<and> X rv' 6 = 14 \<and> X rv' 0 = 0"
proof -
  let ?rv = "zero_riscv demo_tile" and ?s = "isa_of tile_bytes 0x100 (zero_riscv demo_tile)"
  have rv: "X ?rv r = 0" "\<not> allow_misalign ?rv" "tile_ok (env ?rv)" for r
    by (simp_all add: zero_riscv_def tile_ok_def demo_tile_def)
  have ok: "list_all asm_ok demo_block" "list_all load_ok demo_block" "list_all straight (butlast demo_block)"
    by (simp_all add: demo_block_def asm_tables)
  have f: "\<not> RV32E default_features" "EXT_M default_features" by (simp_all add: default_features_def)
  have d: "list_all2 (\<lambda>ir a. \<exists>ir0 p. rv_decode default_features (encode a) zero_insn = Some (True, ir0)
      \<and> ir = ir0\<lparr>i_pc := p\<rparr>) (map denote demo_block) demo_block"
  proof (rule list_all2_all_nthI)
    fix n assume "n < length (map denote demo_block)"
    then show "\<exists>ir0 p. rv_decode default_features (encode (demo_block ! n)) zero_insn = Some (True, ir0)
      \<and> map denote demo_block ! n = ir0\<lparr>i_pc := p\<rparr>"
      using ok(1) rv_decode_encode[OF _ f, of "demo_block ! n"]
      by (intro exI[of _ "denote (demo_block ! n)"] exI[of _ "i_pc (denote (demo_block ! n))"])
        (auto simp: list_all_length)
  qed simp
  have w: "run_within (plain_addr (core_id ?rv)) demo_block ?s"
    by (simp add: demo_block_def)
  have r: "isa_run demo_block ?s = Done \<lparr>ireg = ((ireg ?s)(5 := 7))(6 := 14), ipc = 0x110, imem = imem ?s\<rparr>"
    by (simp add: demo_block_def isa_of_def zero_riscv_def wr_def step4_def reg_form_def isa_op_simps fun_eq_iff)
  obtain rv' pc' where "lands False (exec_nodes demo_ops no_links (map denote demo_block) 0 0x100 ?rv) = Some (rv', 3, pc')"
    and s: "isa_of tile_bytes pc' rv' = \<lparr>ireg = ((ireg ?s)(5 := 7))(6 := 14), ipc = 0x110, imem = imem ?s\<rparr>"
    and "X rv' 0 = 0"
    using block_executes_isa[OF ok f d rv w, of zero_softfloat idle_unit "\<lambda>rv. rv" no_links 0] unfolding r
    by (auto simp: demo_ops_def demo_block_def)
  moreover have "pc' = 0x110" "X rv' 6 = 14"
    using arg_cong[OF s, of ipc] fun_cong[OF arg_cong[OF s, of ireg], of 6] by simp_all
  ultimately show ?thesis by blast
qed

end
