(* ===== verification/Rv_Block.thy ===== *)
theory Rv_Block
  imports Translate Rv_Tile
begin

text \<open>
  The translation pipeline on a tile, end to end: the block the emulator looks up or builds for the program
  counter - decoded, folded and fused - runs the RV32IM program in memory as the instruction set says.
\<close>

section \<open>Translating encoded programs\<close>

lemma default_M [simp]: "EXT_M default_features"
  by (simp add: default_features_def)

lemmas decode_default = rv_decode_encode[OF _ default_TT(3) default_M]

lemma encode_nonzero: "asm_ok a \<Longrightarrow> encode a \<noteq> 0"
proof
  assume "asm_ok a" "encode a = 0"
  with decode_default[of a] have "rv_decode default_features 0 zero_insn = Some (True, denote a)" by simp
  moreover have "rv_decode default_features 0 zero_insn = Some (False, zero_insn)"
    by (simp add: rv_decode_def is_tt_def rv32e_check_def illegal_def FC_OPCODE_def)
  ultimately show False by simp
qed

lemma branch_straight: "asm_ok a \<Longrightarrow> insn_is_branch (i_opcode (denote a)) \<longleftrightarrow> \<not> straight a"
  by (cases a) (auto simp: asm_tables zero_insn_def insn_is_branch_def)

lemma denote_plain [simp]: "i_mailbox (denote a) = False" "i_pc (denote a) = 0" "i_opcode (denote a) \<noteq> rv_insn_ttinsn"
  "i_opcode (denote a) \<noteq> RvA rv_insn_scw"
  by (cases a; simp add: zero_insn_def)+

lemma stops_encode: "asm_ok a \<Longrightarrow> \<not> straight a \<Longrightarrow> stops (encode a)"
  by (simp add: stops_def decode_default branch_straight)

lemma node_denote:
  assumes "node_at io rv ir" "mem_ifetch io rv (i_pc ir) = encode a" "asm_ok a"
  shows "\<exists>mb p. ir = (denote a)\<lparr>i_mailbox := mb, i_pc := p\<rparr> \<and> (mb \<longrightarrow> i_opcode (denote a) = Base rv_insn_lw)"
  using assms by (cases rule: node_at.cases) (auto simp: decode_default)

lemma placed_nth:
  assumes "placed pc nodes" "\<forall>ir \<in> set nodes. insn_len (i_opcode ir) = 4" "k < length nodes"
  shows "i_pc (nodes ! k) = pc + 4 * of_nat k"
  using assms
proof (induction nodes arbitrary: pc k)
  case (Cons ir nodes)
  then show ?case by (cases k) (auto simp: algebra_simps)
qed simp

text \<open>No load of a word, or no coprocessor: then no load is taken for a mailbox load.\<close>

definition no_lw :: "asm \<Rightarrow> bool" where
  "no_lw a \<longleftrightarrow> (case a of Load op _ _ _ \<Rightarrow> op \<noteq> rv_insn_lw | _ \<Rightarrow> True)"

lemma no_lw_denote: "asm_ok a \<Longrightarrow> no_lw a \<Longrightarrow> i_opcode (denote a) \<noteq> Base rv_insn_lw"
  by (cases a) (auto simp: no_lw_def asm_tables zero_insn_def)

lemma translate_program:
  assumes H: "no_failure H" and as: "list_all asm_ok as" "as \<noteq> []" "list_all straight (butlast as)" "\<not> straight (last as)"
    and mem: "\<forall>k < length as. mem_ifetch io rv (PC rv + 4 * of_nat k) = encode (as ! k)"
    and mb: "\<not> has_tensix rv \<or> list_all no_lw as"
  shows "\<exists>b. block_translate io H rv block_alloc = Some (Translated b) \<and> block_of io rv b \<and> pc_start b = PC rv
    \<and> tail_links b = no_links \<and> list_all2 (\<lambda>ir a. \<exists>p. ir = (denote a)\<lparr>i_pc := p\<rparr>) (irs b) as"
proof -
  define n where "n = length as - 1"
  have ok: "k < length as \<Longrightarrow> asm_ok (as ! k)" for k using as(1) by (simp add: list_all_length)
  have n: "n < length as" "as ! n = last as" "Suc n = length as" using as(2) by (simp_all add: last_conv_nth n_def)
  have "\<forall>k \<le> n. mem_ifetch io rv (PC rv + 4 * of_nat k) \<noteq> 0" using mem n(1) ok encode_nonzero by simp
  moreover have "stops (mem_ifetch io rv (PC rv + 4 * of_nat n))" using mem n ok[OF n(1)] stops_encode as(4) by simp
  ultimately obtain b where b: "block_translate io H rv block_alloc = Some (Translated b)" "length (irs b) \<le> length as"
    using translate_loop_returns[OF H, of n io rv "block_alloc\<lparr>pc_start := PC rv, pc_end := PC rv\<rparr>" "\<lambda>_. 0"] n(3)
    by (auto simp: block_translate_def block_alloc_def)
  note s = block_translate_sound[OF b(1)]
  have pc: "k < length (irs b) \<Longrightarrow> i_pc (irs b ! k) = PC rv + 4 * of_nat k" for k
  proof (rule placed_nth)
    show "\<forall>ir \<in> set (irs b). insn_len (i_opcode ir) = 4"
      using s node_len[of io rv] by (auto simp: block_of_def list_all_iff)
    show "placed (PC rv) (irs b)" using s by (auto simp: block_of_def)
  qed
  have node: "\<exists>p. irs b ! k = (denote (as ! k))\<lparr>i_pc := p\<rparr>" if k: "k < length (irs b)" for k
  proof -
    have ka: "k < length as" using k b(2) as(2) by (cases as) auto
    have "node_at io rv (irs b ! k)" "i_mailbox (irs b ! k) \<longrightarrow> has_tensix rv"
      using s k by (auto simp: block_of_def list_all_length)
    moreover from this obtain mb p where ir: "irs b ! k = (denote (as ! k))\<lparr>i_mailbox := mb, i_pc := p\<rparr>"
      "mb \<longrightarrow> i_opcode (denote (as ! k)) = Base rv_insn_lw"
      using node_denote[of io rv "irs b ! k" "as ! k"] mem ka pc[OF k] ok[OF ka] by auto
    moreover have "\<not> has_tensix rv \<or> no_lw (as ! k)" using mb ka by (auto simp: list_all_length)
    moreover have "i_mailbox (irs b ! k) = mb" unfolding ir(1) by simp
    ultimately have "mb = i_mailbox (denote (as ! k))" using no_lw_denote[OF ok[OF ka]] by simp
    with ir(1) have "irs b ! k = (denote (as ! k))\<lparr>i_pc := p\<rparr>" by simp
    then show ?thesis ..
  qed
  have ends: "ends_block (irs b ! k) \<longleftrightarrow> \<not> straight (as ! k)" if k: "k < length (irs b)" for k
  proof -
    have "asm_ok (as ! k)" using k b(2) as(2) ok by (cases as) auto
    moreover obtain p where ir: "irs b ! k = (denote (as ! k))\<lparr>i_pc := p\<rparr>" using node[OF k] by blast
    ultimately show ?thesis using branch_straight[of "as ! k"] unfolding ir by (simp add: ends_block_def)
  qed
  have "irs b \<noteq> []" "ends_block (irs b ! (length (irs b) - 1))" using s by (auto simp: one_exit_def last_conv_nth)
  then have e: "\<not> straight (as ! (length (irs b) - 1))" using ends by (cases "irs b") auto
  have "length (irs b) = length as"
  proof (rule ccontr)
    assume "length (irs b) \<noteq> length as"
    with b(2) \<open>irs b \<noteq> []\<close> have "length (irs b) - 1 < length (butlast as)" by (cases "irs b") auto
    with as(3) e show False by (auto simp: list_all_length nth_butlast)
  qed
  with node have "list_all2 (\<lambda>ir a. \<exists>p. ir = (denote a)\<lparr>i_pc := p\<rparr>) (irs b) as"
    by (simp add: list_all2_conv_all_nth)
  with s b(1) show ?thesis by blast
qed

section \<open>The block in the map\<close>

lemma denote_passes:
  assumes b: "block_of io rv b" and as: "list_all2 (\<lambda>ir a. \<exists>p. ir = (denote a)\<lparr>i_pc := p\<rparr>) (irs b) as"
    "list_all asm_ok as" "list_all straight (butlast as)"
  shows "list_all fold_ok (irs b)" "branch_last (irs b)" "no_mailbox (irs b)"
proof -
  have d: "k < length (irs b) \<Longrightarrow> \<exists>p. irs b ! k = (denote (as ! k))\<lparr>i_pc := p\<rparr>" for k
    using as(1) by (auto simp: list_all2_conv_all_nth)
  show "no_mailbox (irs b)" unfolding no_mailbox_def list_all_length using d by fastforce
  show "list_all fold_ok (irs b)" unfolding list_all_length
  proof (intro allI impI)
    fix k assume k: "k < length (irs b)"
    have "fold_ok (irs b ! k) \<or> i_opcode (irs b ! k) = RvA rv_insn_scw"
      using b k node_fold_ok by (auto simp: block_of_def list_all_length)
    with d[OF k] show "fold_ok (irs b ! k)" by auto
  qed
  show "branch_last (irs b)" using as
  proof (induction "irs b" as arbitrary: b rule: list_all2_induct)
    case (Cons ir nodes a as)
    have "branch_last (irs (b\<lparr>irs := nodes\<rparr>))"
      by (rule Cons.hyps(3)) (use Cons in \<open>auto split: if_splits\<close>)
    moreover have "\<not> cond_branch (i_opcode ir)" if "nodes \<noteq> []"
    proof -
      have "as \<noteq> []" using that Cons.hyps(2) by auto
      then have "straight a" "asm_ok a" using Cons.prems by auto
      then show ?thesis using Cons.hyps(1) branch_straight[of a] by (auto simp: cond_branch_def insn_is_branch_def)
    qed
    ultimately show ?case unfolding Cons.hyps(4)[symmetric] by auto
  qed simp
qed

lemma same_exit_lands:
  "same_exit r s \<Longrightarrow> lands False s = Some (rv, c, pc) \<Longrightarrow> \<exists>rv'. lands False r = Some (rv', c, pc) \<and> no_chain rv' = no_chain rv"
  by (auto simp: same_exit_def same_landing_def)

lemma same_exit_trap: "same_exit r s \<Longrightarrow> s = Return False rv \<Longrightarrow> \<exists>rv'. r = Return False rv'"
  by (auto simp: same_exit_def same_landing_def)

lemma no_chain_isa: "no_chain rv = no_chain rv' \<Longrightarrow> isa_of bytes pc rv = isa_of bytes pc rv' \<and> X rv = X rv'"
proof -
  assume *: "no_chain rv = no_chain rv'"
  have "X rv = X rv'" "env rv = env rv'" "core_id rv = core_id rv'"
    using arg_cong[OF *, of X] arg_cong[OF *, of env] arg_cong[OF *, of core_id] by (simp_all add: no_chain_def)
  then show ?thesis by (simp add: isa_of_def)
qed

section \<open>Branches that stay\<close>

definition is_compressed_op :: "rv_opcode \<Rightarrow> bool" where
  "is_compressed_op op \<longleftrightarrow> (case op of RvC _ \<Rightarrow> True | _ \<Rightarrow> False)"

lemma constopt_knows:
  assumes "\<not> is_compressed_op (i_opcode ir)" "is_constant (snd (constopt_table (i_opcode ir) ir info)) r" "r \<noteq> i_rd ir"
  shows "is_constant info r"
proof -
  have base: "is_constant (snd (constopt_base_table b ir info)) r \<Longrightarrow> is_constant info r" for b
    using assms(3) by (cases b) (auto simp: constopt_base_defs constopt_shapes known_def unknown_def split: if_splits)
  have m: "is_constant (snd (constopt_m_table b ir info)) r \<Longrightarrow> is_constant info r" for b
    using assms(3) by (cases b) (auto simp: constopt_m_defs constopt_shapes known_def unknown_def split: if_splits)
  have zb: "is_constant (snd (constopt_zb_table b ir info)) r \<Longrightarrow> is_constant info r" for b
    using assms(3) by (cases b) (auto simp: constopt_shapes known_def unknown_def split: if_splits)
  have a: "is_constant (snd (constopt_a_table b ir info)) r \<Longrightarrow> is_constant info r" for b
    using assms(3) by (cases b) (auto simp: constopt_shapes known_def unknown_def split: if_splits)
  have f: "is_constant (snd (constopt_f_table b ir info)) r \<Longrightarrow> is_constant info r" for b
    using assms(3) by (cases b) (auto simp: constopt_shapes known_def unknown_def split: if_splits)
  have zi: "is_constant (snd (constopt_zi_table b ir info)) r \<Longrightarrow> is_constant info r" for b
    using assms(3) by (cases b) (auto simp: constopt_shapes known_def unknown_def split: if_splits)
  have p: "is_constant (snd (constopt_priv_table b ir info)) r \<Longrightarrow> is_constant info r" for b
    using assms(3) by (cases b) (auto simp: constopt_shapes known_def unknown_def split: if_splits)
  show ?thesis using assms(1,2)
    by (cases "i_opcode ir") (auto simp: is_compressed_op_def keep_def dest: base m zb a f zi p)
qed

text \<open>A branch on a register the block has not written stays a branch.\<close>

definition base_branch :: "rv_insn \<Rightarrow> bool" where
  "base_branch ir \<longleftrightarrow> \<not> i_mailbox ir \<and> (\<exists>b. i_opcode ir = Base b \<and> b \<in> {rv_insn_beq, rv_insn_bne, rv_insn_blt, rv_insn_bge, rv_insn_bltu, rv_insn_bgeu})"

lemma constopt_branch_kept:
  assumes "base_branch ir" "\<not> (is_constant info (i_rs1 ir) \<and> is_constant info (i_rs2 ir))"
  shows "fst (constopt_table (i_opcode ir) ir info) = ir"
  using assms by (auto simp: base_branch_def constopt_base_defs opt_branch_func_def)

lemma opt_nodes_last:
  assumes "nodes \<noteq> []" "list_all (\<lambda>ir. \<not> is_compressed_op (i_opcode ir)) nodes" "base_branch (last nodes)"
    "r = i_rs1 (last nodes) \<or> r = i_rs2 (last nodes)" "\<not> is_constant info r" "r \<notin> i_rd ` set (butlast nodes)"
  shows "last (opt_nodes nodes info) = last nodes"
  using assms
proof (induction nodes arbitrary: info)
  case (Cons ir rest)
  obtain ir' info' where t: "constopt_table (i_opcode ir) ir info = (ir', info')" by fastforce
  show ?case
  proof (cases "rest = []")
    case True
    with Cons.prems t constopt_branch_kept[of ir info] show ?thesis by auto
  next
    case False
    then have "opt_nodes rest info' \<noteq> []" using length_opt_nodes[of rest info'] by (metis length_0_conv)
    moreover have "\<not> is_constant info' r"
      using constopt_knows[of ir info r] t Cons.prems False by auto
    ultimately show ?thesis using Cons.IH[of info'] Cons.prems t False by auto
  qed
qed simp

lemma fuse_run_last:
  assumes "\<not> P (i_opcode (last rest))" "rest \<noteq> []" "fuse_run ml op P ir rest = (ir', rest')"
  shows "rest' \<noteq> [] \<and> last rest' = last rest"
proof -
  let ?n = "length (takeWhile (P \<circ> i_opcode) rest)"
  have "?n \<noteq> length rest"
  proof
    assume "?n = length rest"
    then have "takeWhile (P \<circ> i_opcode) rest = rest" by (metis takeWhile_eq_take take_all order_refl)
    then have "\<forall>ir \<in> set rest. P (i_opcode ir)" by (metis comp_apply set_takeWhileD)
    with assms(1,2) show False by auto
  qed
  then have "?n < length rest" using length_takeWhile_le[of "P \<circ> i_opcode" rest] by linarith
  moreover have "unat (of_nat ?n :: u8) \<le> ?n" by (simp add: unat_of_nat)
  ultimately have "unat (of_nat ?n :: u8) < length rest" by linarith
  then have "drop (unat (of_nat ?n :: u8)) rest \<noteq> [] \<and> last (drop (unat (of_nat ?n :: u8)) rest) = last rest" by simp
  moreover have "rest' = rest \<or> rest' = drop (unat (of_nat ?n :: u8)) rest"
    using assms(3) by (auto simp: fuse_run_def run_length_def remove_next_nth_ir_def Let_def split: if_splits)
  ultimately show ?thesis using assms(2) by auto
qed

lemma fuse_node_last:
  assumes "base_branch (last (nxt # rest))" "fuse_node ml ir nxt rest = (ir', rest')"
  shows "rest' \<noteq> [] \<and> last rest' = last (nxt # rest)"
proof -
  have b: "i_opcode (last (nxt # rest)) \<noteq> Base rv_insn_lui" "i_opcode (last (nxt # rest)) \<noteq> Base rv_insn_sw"
    "i_opcode (last (nxt # rest)) \<noteq> Base rv_insn_lw" "\<not> is_shift (i_opcode (last (nxt # rest)))" "i_opcode (last (nxt # rest)) \<noteq> Base rv_insn_add"
    using assms(1) by (auto simp: base_branch_def is_shift_def simp del: last.simps)
  note run = fuse_run_last[where rest = "nxt # rest" and ml = ml and ir = ir and ir' = ir' and rest' = rest']
  show ?thesis using assms(2) run[of "\<lambda>op. op = Base rv_insn_lui" rv_insn_fuse1] run[of "\<lambda>op. op = Base rv_insn_sw" rv_insn_fuse3]
      run[of "\<lambda>op. op = Base rv_insn_lw" rv_insn_fuse4] run[of is_shift rv_insn_fuse5] b
    by (cases rest) (auto simp: fuse_node_def remove_next_nth_ir_def split: if_splits)
qed

lemma match_pattern_last: "base_branch (last nodes) \<Longrightarrow> nodes \<noteq> [] \<Longrightarrow> last (match_pattern ml nodes) = last nodes"
proof (induction ml nodes rule: match_pattern.induct)
  case (3 ml ir nxt rest)
  obtain ir' rest' where r: "fuse_node ml ir nxt rest = (ir', rest')" by fastforce
  have l: "rest' \<noteq> []" "last rest' = last (nxt # rest)" using fuse_node_last[OF _ r] 3(2) by auto
  with 3(1)[OF r[symmetric]] 3(2) have "last (match_pattern ml rest') = last (nxt # rest)" by simp
  with r l(1) show ?case by simp
qed simp_all

fun asm_dest :: "asm \<Rightarrow> 5 word" where
  "asm_dest (Upper op rd imm) = rd"
| "asm_dest (Jal rd imm) = rd"
| "asm_dest (Jalr rd rs1 imm) = rd"
| "asm_dest (Branch op rs1 rs2 imm) = 0"
| "asm_dest (Load op rd rs1 imm) = rd"
| "asm_dest (Store op rs1 rs2 imm) = 0"
| "asm_dest (OpImm op rd rs1 imm) = rd"
| "asm_dest (ShiftImm op rd rs1 sh) = rd"
| "asm_dest (Op op rd rs1 rs2) = rd"
| "asm_dest (MulDiv op rd rs1 rs2) = rd"

text \<open>A basic block that ends with a branch on a register it has not written.\<close>

definition free_branch :: "asm list \<Rightarrow> bool" where
  "free_branch as \<longleftrightarrow> (case last as of
     Branch op rs1 rs2 imm \<Rightarrow> rs1 \<noteq> 0 \<and> list_all (\<lambda>a. asm_dest a \<noteq> rs1) (butlast as)
       \<or> rs2 \<noteq> 0 \<and> list_all (\<lambda>a. asm_dest a \<noteq> rs2) (butlast as)
   | _ \<Rightarrow> False)"

lemma denote_dest: "asm_ok a \<Longrightarrow> i_rd (denote a) = ucast (asm_dest a)" "asm_ok a \<Longrightarrow> \<not> is_compressed_op (i_opcode (denote a))"
  by (cases a; auto simp: asm_tables zero_insn_def is_compressed_op_def)+

lemma free_branch_stays:
  assumes as: "list_all2 (\<lambda>ir a. \<exists>p. ir = (denote a)\<lparr>i_pc := p\<rparr>) nodes as" "list_all asm_ok as" "as \<noteq> []" "free_branch as"
  shows "base_branch (last (match_pattern ml (opt_nodes nodes start_info)))"
proof -
  have len: "length nodes = length as" using as(1) by (rule list_all2_lengthD)
  then have ne: "nodes \<noteq> []" using as(3) by auto
  have nth: "\<exists>p. nodes ! k = (denote (as ! k))\<lparr>i_pc := p\<rparr>" "asm_ok (as ! k)" if "k < length as" for k
    using as(1,2) that by (auto simp: list_all2_conv_all_nth list_all_length)
  from as(4) obtain op rs1 rs2 imm r where br: "last as = Branch op rs1 rs2 imm" "r = rs1 \<or> r = rs2" "r \<noteq> 0"
    "list_all (\<lambda>a. asm_dest a \<noteq> r) (butlast as)" by (auto simp: free_branch_def split: asm.splits)
  from nth[of "length as - 1"] as(3) len ne obtain p where l: "last nodes = (denote (last as))\<lparr>i_pc := p\<rparr>" "asm_ok (last as)"
    by (auto simp: last_conv_nth)
  have b: "base_branch (last nodes)" using l br(1) by (auto simp: base_branch_def asm_tables zero_insn_def)
  have "\<not> is_compressed_op (i_opcode (nodes ! k))" if "k < length nodes" for k
    using nth[of k] that denote_dest(2)[of "as ! k"] len by auto
  then have "list_all (\<lambda>ir. \<not> is_compressed_op (i_opcode ir)) nodes" by (simp add: list_all_length)
  moreover have "i_rd (nodes ! k) \<noteq> ucast r" if "k < length nodes - 1" for k
  proof -
    have k: "k < length as" using that len by linarith
    from nth(1)[OF k] denote_dest(1)[OF nth(2)[OF k]] br(4) that len show ?thesis by (auto simp: list_all_length nth_butlast)
  qed
  then have "ucast r \<notin> i_rd ` set (butlast nodes)" by (auto simp: in_set_conv_nth nth_butlast) blast
  moreover have "ucast r = i_rs1 (last nodes) \<or> ucast r = i_rs2 (last nodes)" using l(1) br by (auto simp: zero_insn_def)
  moreover have "\<not> is_constant start_info (ucast r)" using br(3) ucast_reg_inj[of r 0] by (simp add: start_info_def)
  ultimately have "last (opt_nodes nodes start_info) = last nodes" using opt_nodes_last[OF ne _ b] by blast
  moreover have "opt_nodes nodes start_info \<noteq> []" using ne length_opt_nodes[of nodes start_info] by (metis length_0_conv)
  ultimately show ?thesis using match_pattern_last[of "opt_nodes nodes start_info" ml] b by simp
qed

section \<open>What the block does\<close>

lemma no_chain_core:
  assumes "no_chain rv = no_chain rv'"
  shows "tile.core_ok cid rv = tile.core_ok cid rv'"
  using arg_cong[OF assms, of X] arg_cong[OF assms, of env] arg_cong[OF assms, of core_id] arg_cong[OF assms, of allow_misalign]
  by (simp add: no_chain_def tile.core_ok_def)

text \<open>The nodes do what the instructions do, wherever they are run.\<close>

definition runs_isa :: "asm list \<Rightarrow> u32 \<Rightarrow> rv_insn list \<Rightarrow> bool" where
  "runs_isa as pc nodes \<longleftrightarrow> (\<forall>lib u syscall lk cycle rv cid.
     tile.core_ok cid rv \<and> run_within (plain_addr cid) as (isa_of tile_bytes pc rv) \<longrightarrow>
     (case isa_run as (isa_of tile_bytes pc rv) of
        Done s \<Rightarrow> \<exists>rv' pc'. lands False (exec_nodes (tile_ops lib u syscall) lk nodes cycle pc rv)
            = Some (rv', cycle + of_nat (length as), pc') \<and> isa_of tile_bytes pc' rv' = s \<and> tile.core_ok cid rv'
      | Fault cause a s \<Rightarrow> \<exists>rv'. exec_nodes (tile_ops lib u syscall) lk nodes cycle pc rv = Return False rv'))"

lemma runs_isaD:
  assumes "runs_isa as pc nodes" "tile.core_ok cid rv" "run_within (plain_addr cid) as (isa_of tile_bytes pc rv)"
    "isa_run as (isa_of tile_bytes pc rv) = Done s"
  obtains rv' pc' where "lands False (exec_nodes (tile_ops lib u syscall) lk nodes cycle pc rv) = Some (rv', cycle + of_nat (length as), pc')"
    "isa_of tile_bytes pc' rv' = s" "tile.core_ok cid rv'"
proof -
  have "case isa_run as (isa_of tile_bytes pc rv) of
        Done s \<Rightarrow> \<exists>rv' pc'. lands False (exec_nodes (tile_ops lib u syscall) lk nodes cycle pc rv)
            = Some (rv', cycle + of_nat (length as), pc') \<and> isa_of tile_bytes pc' rv' = s \<and> tile.core_ok cid rv'
      | Fault cause a s \<Rightarrow> \<exists>rv'. exec_nodes (tile_ops lib u syscall) lk nodes cycle pc rv = Return False rv'"
    using assms(1-3) unfolding runs_isa_def by blast
  with assms(4) that show thesis by auto
qed

lemma passes_run_isa:
  assumes b: "block_of io rv0 b" "list_all2 (\<lambda>ir a. \<exists>p. ir = (denote a)\<lparr>i_pc := p\<rparr>) (irs b) as"
    and as: "list_all asm_ok as" "list_all load_ok as" "list_all straight (butlast as)" "length as \<le> 256"
  shows "runs_isa as (pc_start b) (match_pattern ml (opt_nodes (irs b) start_info))"
  unfolding runs_isa_def
proof (intro allI impI)
  fix lib u syscall lk cycle rv cid
  assume rv: "tile.core_ok cid rv \<and> run_within (plain_addr cid) as (isa_of tile_bytes (pc_start b) rv)"
  let ?M = "tile_ops lib u syscall" and ?pc = "pc_start b" and ?nodes = "match_pattern ml (opt_nodes (irs b) start_info)"
  note ok = denote_passes[OF b as(1,3)]
  have "X rv 0 = 0" using rv by (simp add: tile.core_ok_def)
  then have same: "same_exit (exec_nodes ?M lk ?nodes cycle ?pc rv) (exec_nodes ?M lk (irs b) cycle ?pc rv)"
    using passes_same[OF _ ok(1) _ ok(2,3), of rv ?pc ?M lk ml cycle] b(1) list_all2_lengthD[OF b(2)] as(4)
    by (simp add: block_of_def)
  have imp: "tile.implements False cid (cycle + of_nat (length as)) (isa_run as (isa_of tile_bytes ?pc rv)) (exec_nodes ?M lk (irs b) cycle ?pc rv)"
    using tile.exec_program[OF as(1-3) _ _ b(2)] rv by blast
  show "case isa_run as (isa_of tile_bytes ?pc rv) of
      Done s \<Rightarrow> \<exists>rv' pc'. lands False (exec_nodes ?M lk ?nodes cycle ?pc rv)
          = Some (rv', cycle + of_nat (length as), pc') \<and> isa_of tile_bytes pc' rv' = s \<and> tile.core_ok cid rv'
    | Fault cause a s \<Rightarrow> \<exists>rv'. exec_nodes ?M lk ?nodes cycle ?pc rv = Return False rv'"
  proof (cases "isa_run as (isa_of tile_bytes ?pc rv)")
    case (Done s)
    with imp obtain rv1 pc' where
      l: "lands False (exec_nodes ?M lk (irs b) cycle ?pc rv) = Some (rv1, cycle + of_nat (length as), pc')"
      and s: "isa_of tile_bytes pc' rv1 = s" "tile.core_ok cid rv1" by (auto simp: tile.implements_def)
    from same_exit_lands[OF same l] obtain rv2 where
      "lands False (exec_nodes ?M lk ?nodes cycle ?pc rv) = Some (rv2, cycle + of_nat (length as), pc')"
      "no_chain rv2 = no_chain rv1" by blast
    with no_chain_isa[of rv2 rv1 tile_bytes pc'] no_chain_core[of rv2 rv1 cid] s Done show ?thesis by simp
  next
    case (Fault cause a s)
    with imp obtain rv1 where "exec_nodes ?M lk (irs b) cycle ?pc rv = Return False rv1" by (auto simp: tile.implements_def)
    from same_exit_trap[OF same this] Fault show ?thesis by simp
  qed
qed

text \<open>A block that is missing is translated, folded, fused and inserted.\<close>

lemma find_or_translate_missing:
  assumes H: "no_failure H" and c: "X (cpu c) 0 = 0" "map_reachable (bmap c)" "block_find (bmap c) (PC (cpu c)) = Some None"
    and b: "block_translate io H (cpu c) block_alloc = Some (Translated b)" "pc_start b = PC (cpu c)"
  shows "\<exists>b' c'. block_find_or_translate io H c = Some (Some b', c') \<and> cpu c' = cpu c \<and> map_reachable (bmap c')
    \<and> block_find (bmap c') (PC (cpu c)) = Some (Some b') \<and> irs b' = match_pattern (fuse_malloc H) (opt_nodes (irs b) start_info)"
proof -
  let ?pc = "PC (cpu c)"
  define nodes where "nodes = match_pattern (fuse_malloc H) (opt_nodes (irs b) start_info)"
  define b' where "b' = b\<lparr>irs := nodes, n_insn := of_nat (length nodes)\<rparr>"
  define m1 where "m1 = (if must_clear (bmap c) then block_map_clear (bmap c) else bmap c)"
  have pc: "pc_start b' = ?pc" by (simp add: b'_def b(2))
  obtain m' where m': "block_insert m1 b' = Some m'" "map_reachable m'" "block_find m' ?pc = Some (Some b')"
    using block_map_insert_missing[OF c(2), of b'] c(3) by (auto simp: pc m1_def)
  define c1 where "c1 = (if must_clear (bmap c) then c\<lparr>bmap := block_map_clear (bmap c), prev := None\<rparr> else c)"
  have c1: "cpu c1 = cpu c" "bmap c1 = m1" by (simp_all add: c1_def m1_def)
  have "block_find_or_translate io H c = Some (Some b', c1\<lparr>bmap := m'\<rparr>)"
    unfolding block_find_or_translate_def c1_def[symmetric] Let_def c(3)
    using H c(1) b(1) m'(1) by (simp add: c1 no_failure_def optimize_constant_def nodes_def[symmetric] b'_def)
  then show ?thesis using c1 m' by (intro exI[of _ b'] exI[of _ "c1\<lparr>bmap := m'\<rparr>"]) (simp add: b'_def nodes_def)
qed

lemma find_or_translate_runs:
  assumes H: "no_failure H" and as: "list_all asm_ok as" "list_all load_ok as" "as \<noteq> []" "list_all straight (butlast as)"
    "\<not> straight (last as)" "length as \<le> 256" "\<not> has_tensix (cpu c) \<or> list_all no_lw as"
    and mem: "\<forall>k < length as. on_mem_ifetch (cpu c) (PC (cpu c) + 4 * of_nat k) = encode (as ! k)"
    and c: "X (cpu c) 0 = 0" "map_reachable (bmap c)" "block_find (bmap c) (PC (cpu c)) = Some None"
  shows "\<exists>b c'. block_find_or_translate (tile_io u syscall) H c = Some (Some b, c')
    \<and> cpu c' = cpu c \<and> map_reachable (bmap c') \<and> block_find (bmap c') (PC (cpu c)) = Some (Some b)
    \<and> runs_isa as (PC (cpu c)) (irs b) \<and> (free_branch as \<longrightarrow> base_branch (last (irs b)))"
proof -
  let ?io = "tile_io u syscall :: tile riscv_io" and ?pc = "PC (cpu c)"
  have "\<forall>k < length as. mem_ifetch ?io (cpu c) (?pc + 4 * of_nat k) = encode (as ! k)"
    using mem by (simp add: tile_io_def)
  from translate_program[OF H as(1,3,4,5) this as(7)]
  obtain b where b: "block_translate ?io H (cpu c) block_alloc = Some (Translated b)" "block_of ?io (cpu c) b"
    "pc_start b = ?pc" "list_all2 (\<lambda>ir a. \<exists>p. ir = (denote a)\<lparr>i_pc := p\<rparr>) (irs b) as" by blast
  from find_or_translate_missing[OF H c b(1,3)] obtain b' c' where
    f: "block_find_or_translate ?io H c = Some (Some b', c')" "cpu c' = cpu c" "map_reachable (bmap c')"
      "block_find (bmap c') ?pc = Some (Some b')" and nodes: "irs b' = match_pattern (fuse_malloc H) (opt_nodes (irs b) start_info)" by blast
  have "runs_isa as ?pc (irs b')"
    using passes_run_isa[OF b(2,4) as(1,2,4,6), of "fuse_malloc H"] by (simp add: b(3) nodes)
  moreover have "free_branch as \<longrightarrow> base_branch (last (irs b'))"
    using free_branch_stays[OF b(4) as(1,3), of "fuse_malloc H"] by (simp add: nodes)
  ultimately show ?thesis using f by blast
qed

text \<open>C3: the emulator runs the RV32IM program in memory.  Let the words of a basic block stand in memory at
  the program counter: RV32IM instructions, only the last one a branch or jump, at most 256, no load to \<^verbatim>\<open>x0\<close>,
  and no word load if a coprocessor is attached.  For a core with any reachable block map that does not
  hold this address yet, \<^verbatim>\<open>block_find_or_translate\<close> returns a block, leaves the machine as it is, and the block
  is found in the map from then on.  Whenever that block is run, on this core's memory and from any state
  with \<^verbatim>\<open>x0\<close> = 0 whose accesses go to scratchpad or local memory, it does what the instruction-by-instruction
  reference semantics does: the same registers, memory and next program counter and one cycle per
  instruction; if the reference faults on a misaligned access, the block leaves through the trap handler.\<close>

theorem translated_block_executes_isa:
  assumes "no_failure H" "list_all asm_ok as" "list_all load_ok as" "as \<noteq> []" "list_all straight (butlast as)"
    and "\<not> straight (last as)" "length as \<le> 256" "\<not> has_tensix (cpu c) \<or> list_all no_lw as"
    and "\<forall>k < length as. on_mem_ifetch (cpu c) (PC (cpu c) + 4 * of_nat k) = encode (as ! k)"
    and "X (cpu c) 0 = 0" "map_reachable (bmap c)" "block_find (bmap c) (PC (cpu c)) = Some None"
  shows "\<exists>b c'. block_find_or_translate (tile_io u syscall) H c = Some (Some b, c')
    \<and> cpu c' = cpu c \<and> map_reachable (bmap c') \<and> block_find (bmap c') (PC (cpu c)) = Some (Some b)
    \<and> (\<forall>rv lib lk cycle. X rv 0 = 0 \<and> \<not> allow_misalign rv \<and> tile_ok (env rv)
         \<and> run_within (plain_addr (core_id rv)) as (isa_of tile_bytes (PC (cpu c)) rv) \<longrightarrow>
       (case isa_run as (isa_of tile_bytes (PC (cpu c)) rv) of
          Done s \<Rightarrow> \<exists>rv' pc'. lands False (exec_nodes (tile_ops lib u syscall) lk (irs b) cycle (PC (cpu c)) rv)
              = Some (rv', cycle + of_nat (length as), pc')
            \<and> isa_of tile_bytes pc' rv' = s \<and> X rv' 0 = 0
        | Fault cause a s \<Rightarrow> \<exists>rv'. exec_nodes (tile_ops lib u syscall) lk (irs b) cycle (PC (cpu c)) rv = Return False rv'))"
proof -
  let ?pc = "PC (cpu c)"
  from find_or_translate_runs[OF assms] obtain b c' where
    f: "block_find_or_translate (tile_io u syscall) H c = Some (Some b, c')" "cpu c' = cpu c" "map_reachable (bmap c')"
      "block_find (bmap c') ?pc = Some (Some b)" and run: "runs_isa as ?pc (irs b)" by blast
  show ?thesis
  proof (intro exI[of _ b] exI[of _ c'] conjI allI impI f)
    fix rv lib lk cycle
    let ?out = "exec_nodes (tile_ops lib u syscall) lk (irs b) cycle ?pc rv"
    assume rv: "X rv 0 = 0 \<and> \<not> allow_misalign rv \<and> tile_ok (env rv) \<and> run_within (plain_addr (core_id rv)) as (isa_of tile_bytes ?pc rv)"
    then have "tile.core_ok (core_id rv) rv" by (simp add: tile.core_ok_def)
    with run rv have "case isa_run as (isa_of tile_bytes ?pc rv) of
        Done s \<Rightarrow> \<exists>rv' pc'. lands False ?out = Some (rv', cycle + of_nat (length as), pc')
          \<and> isa_of tile_bytes pc' rv' = s \<and> tile.core_ok (core_id rv) rv'
      | Fault cause a s \<Rightarrow> \<exists>rv'. ?out = Return False rv'" unfolding runs_isa_def by blast
    then show "case isa_run as (isa_of tile_bytes ?pc rv) of
        Done s \<Rightarrow> \<exists>rv' pc'. lands False ?out = Some (rv', cycle + of_nat (length as), pc')
          \<and> isa_of tile_bytes pc' rv' = s \<and> X rv' 0 = 0
      | Fault cause a s \<Rightarrow> \<exists>rv'. ?out = Return False rv'" by (auto simp: tile.core_ok_def split: isa_result.splits)
  qed
qed

text \<open>The program of \<^const>\<open>demo_block\<close> at address 0x100 of a fresh tile.\<close>

definition code_tile :: tile where
  "code_tile = upd_mem (\<lambda>m. m\<lparr>l1_scratchpad :=
     st32 (st32 (st32 (\<lambda>_. 0) 0x100 0x00700293) 0x104 0x00528333) 0x108 0x0080006F\<rparr>) demo_tile"

definition code_core :: "tile core" where
  "code_core = \<lparr>cpu = (zero_riscv code_tile)\<lparr>PC := 0x100\<rparr>, bmap = block_map_init BLOCK_MAP_CAPACITY_BITS, prev = None\<rparr>"

lemma code_fetch: "k < length demo_block \<Longrightarrow> on_mem_ifetch (cpu code_core) (0x100 + 4 * of_nat k) = encode (demo_block ! k)"
proof -
  assume k: "k < length demo_block"
  have e: "map encode demo_block = [0x00700293, 0x00528333, 0x0080006F]" unfolding demo_block_def by code_simp
  have "encode (demo_block ! k) = map encode demo_block ! k" using k by simp
  moreover from k have "k = 0 \<or> k = 1 \<or> k = 2" by (auto simp: demo_block_def)
  ultimately show ?thesis unfolding e
    by (elim disjE) (simp_all add: on_mem_ifetch_def memory_ifetch_def code_core_def code_tile_def upd_mem_def ram_def
        zero_riscv_def demo_tile_def ld32_def st32_def)
qed

theorem translated_block_executes_isa_witness:
  "\<exists>b c'. block_find_or_translate (tile_io idle_unit (\<lambda>rv. rv)) demo_host code_core = Some (Some b, c')
    \<and> (\<exists>rv' pc'. lands False (exec_nodes demo_ops no_links (irs b) 0 0x100 (cpu code_core)) = Some (rv', 3, pc')
         \<and> pc' = 0x110 \<and> X rv' 6 = 14)"
proof -
  let ?rv = "cpu code_core" and ?s = "isa_of tile_bytes 0x100 (cpu code_core)"
  have rv: "X ?rv r = 0" "\<not> allow_misalign ?rv" "tile_ok (env ?rv)" "\<not> has_tensix ?rv" "PC ?rv = 0x100" for r
    by (simp_all add: code_core_def zero_riscv_def tile_ok_def code_tile_def upd_mem_def demo_tile_def)
  have ok: "list_all asm_ok demo_block" "list_all load_ok demo_block" "demo_block \<noteq> []"
    "list_all straight (butlast demo_block)" "\<not> straight (last demo_block)" "length demo_block \<le> 256"
    by (simp_all add: demo_block_def asm_tables)
  have bm: "bmap code_core = block_map_init BLOCK_MAP_CAPACITY_BITS" by (simp add: code_core_def)
  have f: "block_find (bmap code_core) a = Some None" for a unfolding bm using bm.find_abs map_init_ok by auto
  have w: "run_within (plain_addr (core_id ?rv)) demo_block ?s" by (simp add: demo_block_def)
  have r: "isa_run demo_block ?s = Done \<lparr>ireg = ((ireg ?s)(5 := 7))(6 := 14), ipc = 0x110, imem = imem ?s\<rparr>"
    by (simp add: demo_block_def isa_of_def rv wr_def step4_def reg_form_def isa_op_simps fun_eq_iff)
  have fetch: "\<forall>k < length demo_block. on_mem_ifetch ?rv (0x100 + 4 * of_nat k) = encode (demo_block ! k)"
    using code_fetch by blast
  have "no_failure demo_host" by (simp add: no_failure_def demo_host_def)
  then have "\<exists>b c'. block_find_or_translate (tile_io idle_unit (\<lambda>rv. rv)) demo_host code_core = Some (Some b, c')
    \<and> cpu c' = ?rv \<and> map_reachable (bmap c') \<and> block_find (bmap c') (PC ?rv) = Some (Some b)
    \<and> (\<forall>rv lib lk cycle. X rv 0 = 0 \<and> \<not> allow_misalign rv \<and> tile_ok (env rv)
         \<and> run_within (plain_addr (core_id rv)) demo_block (isa_of tile_bytes (PC ?rv) rv) \<longrightarrow>
       (case isa_run demo_block (isa_of tile_bytes (PC ?rv) rv) of
          Done s \<Rightarrow> \<exists>rv' pc'. lands False (exec_nodes (tile_ops lib idle_unit (\<lambda>rv. rv)) lk (irs b) cycle (PC ?rv) rv)
              = Some (rv', cycle + of_nat (length demo_block), pc')
            \<and> isa_of tile_bytes pc' rv' = s \<and> X rv' 0 = 0
        | Fault cause a s \<Rightarrow> \<exists>rv'. exec_nodes (tile_ops lib idle_unit (\<lambda>rv. rv)) lk (irs b) cycle (PC ?rv) rv = Return False rv'))"
    by (rule translated_block_executes_isa)
      (use ok rv fetch f map_reachable.reachable_init in \<open>simp_all only: bm simp_thms\<close>)
  then obtain b c' where b: "block_find_or_translate (tile_io idle_unit (\<lambda>rv. rv)) demo_host code_core = Some (Some b, c')"
    and run: "case isa_run demo_block ?s of
          Done s \<Rightarrow> \<exists>rv' pc'. lands False (exec_nodes (tile_ops zero_softfloat idle_unit (\<lambda>rv. rv)) no_links (irs b) 0 0x100 ?rv)
              = Some (rv', 0 + of_nat (length demo_block), pc') \<and> isa_of tile_bytes pc' rv' = s \<and> X rv' 0 = 0
        | Fault cause a s \<Rightarrow> \<exists>rv'. exec_nodes (tile_ops zero_softfloat idle_unit (\<lambda>rv. rv)) no_links (irs b) 0 0x100 ?rv = Return False rv'"
    using rv w by (elim exE conjE) (simp only: rv simp_thms)
  from run obtain rv' pc' where "lands False (exec_nodes demo_ops no_links (irs b) 0 0x100 ?rv) = Some (rv', 3, pc')"
    and s: "isa_of tile_bytes pc' rv' = \<lparr>ireg = ((ireg ?s)(5 := 7))(6 := 14), ipc = 0x110, imem = imem ?s\<rparr>"
    unfolding r by (auto simp: demo_ops_def demo_block_def)
  moreover have "pc' = 0x110" "X rv' 6 = 14"
    using arg_cong[OF s, of ipc] fun_cong[OF arg_cong[OF s, of ireg], of 6] by simp_all
  ultimately show ?thesis using b by blast
qed

end
