(* ===== verification/Rv_Chain.thy ===== *)
theory Rv_Chain
  imports Rv_Block
begin

text \<open>
  Chained execution of blocks.  The last node of a block may call the first node of the next one itself:
  a direct jump through the pointer \<^verbatim>\<open>rv_step\<close> stored in it, an indirect jump through the branch history
  table of its node (\<^verbatim>\<open>LOOKUP_OR_UPDATE_BRANCH_HISTORY_TABLE\<close> of \<^verbatim>\<open>rv32_template.c\<close>) or the block map.
  The calls are tail calls, so a chain is a loop, and it need not end.
\<close>

section \<open>The branch history table\<close>

text \<open>The target recorded for an address, if there is one: the first entry with this address.\<close>

definition history_find :: "branch_history_table \<Rightarrow> u32 \<Rightarrow> u32 option option" where
  "history_find h pc = map_of (zip (h_PC h) (h_target h)) pc"

definition history_add :: "u32 \<Rightarrow> u32 \<Rightarrow> branch_history_table \<Rightarrow> branch_history_table" where
  "history_add pc t h = h\<lparr>h_PC := (h_PC h)[h_idx h := pc], h_target := (h_target h)[h_idx h := Some t],
     h_idx := (h_idx h + 1) mod HISTORY_SIZE\<rparr>"

section \<open>Running a block and what it calls\<close>

text \<open>How the call of a block's first node ends: it returns, follows a pointer to no block, or fails an
  assertion of a callback.\<close>

datatype 'e run = Ran bool block_map "'e riscv" | Dangling | Aborted

partial_function (option) exec_block ::
  "'e machine_ops \<Rightarrow> block_map \<Rightarrow> block \<Rightarrow> u64 \<Rightarrow> u32 \<Rightarrow> 'e riscv \<Rightarrow> 'e run option" where
  "exec_block M m b cycle pc rv =
     (case exec_nodes M (tail_links b) (irs b) cycle pc rv of
        Nextop rv cycle pc \<Rightarrow> Some (Ran True m (end_op rv cycle pc))
      | End_op rv cycle pc \<Rightarrow> Some (Ran True m (end_op rv cycle pc))
      | Return ok rv \<Rightarrow> Some (Ran ok m rv)
      | Tail t rv cycle pc \<Rightarrow>
          (case abs_map m t of
             None \<Rightarrow> Some Dangling
           | Some b \<Rightarrow> exec_block M m b cycle pc rv)
      | Lookup rv cycle pc \<Rightarrow>
          (case history_find (branch_table b) pc of
             Some None \<Rightarrow> Some Dangling
           | Some (Some t) \<Rightarrow>
               (case abs_map m t of
                  None \<Rightarrow> Some Dangling
                | Some b \<Rightarrow> exec_block M m b cycle pc rv)
           | None \<Rightarrow>
               (case block_find m pc of
                  None \<Rightarrow> None
                | Some None \<Rightarrow> Some (Ran True m (end_op rv cycle pc))
                | Some (Some t) \<Rightarrow>
                    let m = block_update (\<lambda>b. b\<lparr>branch_table := history_add pc (pc_start t) (branch_table b)\<rparr>)
                              (pc_start b) m in
                    (case abs_map m (pc_start t) of
                       None \<Rightarrow> Some Dangling
                     | Some b \<Rightarrow> exec_block M m b cycle pc rv)))
      | Abort \<Rightarrow> Some Aborted)"

section \<open>What a node does to the program counter and \<^verbatim>\<open>last_pc\<close>\<close>

text \<open>What no RISC-V instruction writes but jumps, and those only \<^verbatim>\<open>last_pc\<close>.\<close>

definition fixed :: "'e riscv \<Rightarrow> u32 \<times> bool \<times> bool \<times> int \<times> bool" where
  "fixed rv = (last_pc rv, halt rv, has_tensix rv, core_id rv, allow_misalign rv)"

lemma fixed_upd [simp]:
  "fixed (X_update f rv) = fixed rv" "fixed (F_update g1 rv) = fixed rv" "fixed (PC_update g2 rv) = fixed rv"
  "fixed (csr_cycle_update g3 rv) = fixed rv" "fixed (compressed_update g4 rv) = fixed rv" "fixed (env_update g5 rv) = fixed rv"
  "fixed (is_branch_taken_update g6 rv) = fixed rv" "fixed (csr_fcsr_update g7 rv) = fixed rv"
  "fixed (softfloat_roundingMode_update g8 rv) = fixed rv" "fixed (softfloat_exceptionFlags_update g9 rv) = fixed rv"
  by (simp_all add: fixed_def)

lemma fixed_last_pc [simp]: "snd (fixed (last_pc_update g rv)) = snd (fixed rv)"
  by (simp add: fixed_def)

lemma fixedD: "fixed rv' = fixed rv \<Longrightarrow> last_pc rv' = last_pc rv" "fst (fixed rv') = fst (fixed rv) \<Longrightarrow> last_pc rv' = last_pc rv"
  by (simp_all add: fixed_def)

text \<open>An outcome that leaves these alone and stays in the block or ends it: a fall through advances
  by the length of the node.  If the node is straight, the block is only left through a trap.\<close>

definition quiet :: "bool \<Rightarrow> u32 \<Rightarrow> 'e riscv \<Rightarrow> u32 \<Rightarrow> 'e outcome \<Rightarrow> bool" where
  "quiet st len rv pc out = (case out of
     Nextop rv' c pc' \<Rightarrow> pc' = pc + len \<and> fixed rv' = fixed rv
   | End_op rv' c pc' \<Rightarrow> \<not> st \<and> fixed rv' = fixed rv
   | Return ok rv' \<Rightarrow> (st \<longrightarrow> \<not> ok) \<and> fst (fixed rv') = fst (fixed rv)
   | Abort \<Rightarrow> True
   | _ \<Rightarrow> False)"

lemma quiet_simps [simp]:
  "quiet st len rv pc (Nextop rv' c pc') \<longleftrightarrow> pc' = pc + len \<and> fixed rv' = fixed rv"
  "quiet st len rv pc (End_op rv' c pc') \<longleftrightarrow> \<not> st \<and> fixed rv' = fixed rv"
  "quiet st len rv pc (Return ok rv') \<longleftrightarrow> (st \<longrightarrow> \<not> ok) \<and> fst (fixed rv') = fst (fixed rv)"
  "\<not> quiet st len rv pc (Tail t rv' c pc')" "\<not> quiet st len rv pc (Lookup rv' c pc')" "quiet st len rv pc Abort"
  by (simp_all add: quiet_def)

lemma quiet_RVOP: "quiet st 0 rv pc (code lk ir (cycle + 1) pc rv) \<Longrightarrow> quiet st len rv pc (RVOP len code lk ir cycle pc rv)"
  by (cases "code lk ir (cycle + 1) pc rv") (simp_all add: RVOP_def)

lemma fixed_trap [simp]: "fixed (set_cause_and_tval_then_trap cause tval rv) = fixed rv"
  by (simp add: set_cause_and_tval_then_trap_def trap_handler_def trap_to_S_def trap_to_M_def trap_vector_def
      rv_trap_default_handler_def fixed_def Let_def)

lemma quiet_misalign [simp]:
  "quiet st len rv pc rest \<Longrightarrow> quiet st len rv pc (exc_misalign msk cause b addr cycle pc rv rest)"
  by (simp add: exc_misalign_def)

lemma fixed_set [simp]: "fixed (setX r v rv) = fixed rv" "fixed (setX_nz r v rv) = fixed rv" "fixed (setF r v rv) = fixed rv"
  by (simp_all add: setX_def setX_nz_def setF_def)

lemma fixed_io_write [simp]: "fixed (io_write_b io a v rv) = fixed rv" "fixed (io_write_s io a v rv) = fixed rv"
  by (simp_all add: io_write_b_def io_write_s_def)

lemma fixed_io_read: "io_read_w io a rv = (v, rv') \<Longrightarrow> fixed rv' = fixed rv"
  by (auto simp: io_read_w_def split: prod.splits)

lemma fixed_io_write_w: "io_write_w io a v rv = Some rv' \<Longrightarrow> fixed rv' = fixed rv"
  by (auto simp: io_write_w_def split: option.splits)

lemma quiet_store_w [simp]: "fixed rv' = fixed rv \<Longrightarrow> quiet st 0 rv pc (store_w io a v c pc rv')"
  using fixed_io_write_w[of io a v rv'] by (cases "io_write_w io a v rv'") (simp_all add: store_w_def)

lemma quiet_set_rd: "quiet st 0 rv pc (set_rd f lk ir c pc rv)"
  by (simp add: set_rd_def)

lemma quiet_set_rd_defined: "quiet st 0 rv pc (set_rd_defined f lk ir c pc rv)"
  by (simp add: set_rd_defined_def split: option.split)

lemma quiet_branch: "quiet False 0 rv pc (branch_func cond lk ir c pc rv)"
  by (simp add: branch_func_def Let_def split: option.splits)

lemma quiet_shift: "quiet st 0 rv pc (shift_op lk ir c pc rv)"
  by (simp add: shift_op_def split: option.splits)

lemma fixed_mret [simp]: "fixed (mret rv) = fixed rv"
  by (simp add: mret_def fixed_def split: prod.splits)

lemma fixed_ebreak [simp]: "fixed (ebreak_handler rv) = fixed rv"
  by (simp add: ebreak_handler_def)

text \<open>Every instruction but the jumps is quiet; the system call is, if the host's handler is.\<close>

definition quiet_ecall :: "'e riscv_io \<Rightarrow> bool" where
  "quiet_ecall io \<longleftrightarrow> (\<forall>rv. last_pc (on_ecall io rv) = last_pc rv)"

lemma quiet_ecallD: "quiet_ecall io \<Longrightarrow> fst (fixed (on_ecall io rv)) = fst (fixed rv)"
  by (simp add: quiet_ecall_def fixed_def)

lemma quiet_base:
  assumes "quiet_ecall io" "b \<noteq> rv_insn_jal" "b \<noteq> rv_insn_jalr"
  shows "quiet (\<not> insn_is_branch (Base b)) 4 rv pc (do_base io b lk ir cycle pc rv)"
  using assms fixed_io_read[of io "x1 ir rv + i_imm ir" rv]
  by (cases b) (auto simp: base_ops do_nop_def do_fence_def do_ecall_def do_ebreak_def Let_def insn_is_branch_def quiet_ecallD
      intro!: quiet_RVOP quiet_set_rd quiet_branch quiet_shift split: prod.splits)

lemma quiet_m: "quiet st 4 rv pc (do_m m lk ir cycle pc rv)"
  by (cases m) (auto simp: m_ops intro!: quiet_RVOP quiet_set_rd)

lemma quiet_zb: "quiet st 4 rv pc (do_zb z lk ir cycle pc rv)"
  by (cases z) (auto simp: zb_ops Let_def intro!: quiet_RVOP quiet_set_rd quiet_set_rd_defined)

lemma quiet_priv: "quiet (\<not> insn_is_branch (Priv p) \<and> p \<noteq> rv_insn_wfi) 4 rv pc (do_priv p lk ir cycle pc rv)"
  by (cases p) (auto simp: priv_ops no_entry_def insn_is_branch_def intro!: quiet_RVOP)

lemma fixed_csr_store [simp]: "fixed (csr_store c v rv) = fixed rv"
  by (cases c) (simp_all add: fixed_def)

lemma fixed_csr_get_ptr: "csr_get_ptr csr rv = (c, rv') \<Longrightarrow> fixed rv' = fixed rv"
  by (auto simp: csr_get_ptr_def update_time_def fixed_def Let_def split: if_splits)

lemma fixed_csr_rmw: "csr_rmw g csr val rv = (out, rv') \<Longrightarrow> fixed rv' = fixed rv"
  by (auto simp: csr_rmw_def Let_def split: prod.splits option.splits dest!: fixed_csr_get_ptr)

lemma quiet_zi: "quiet (\<not> insn_is_branch (Zi z)) 4 rv pc (do_zi z lk ir cycle pc rv)"
  by (cases z) (auto simp: zi_ops insn_is_branch_def csr_op_def csr_csrrw_def csr_csrrs_def csr_csrrc_def
      intro!: quiet_RVOP split: prod.splits dest!: fixed_csr_rmw)

lemma quiet_amo: "quiet st 0 rv pc (amo io f lk ir cycle pc rv)"
  using fixed_io_read[of io "x1 ir rv" rv]
  by (auto simp: amo_def Let_def intro!: quiet_store_w quiet_misalign split: prod.splits)

lemma quiet_a: "quiet st 4 rv pc (do_a io a lk ir cycle pc rv)"
  using fixed_io_read[of io "x1 ir rv" rv] fixed_io_write_w[of io "x1 ir rv" "x2 ir rv" rv]
  by (cases a) (auto simp: a_ops Let_def intro!: quiet_RVOP quiet_amo quiet_misalign split: prod.splits option.splits)

lemma fixed_set_rounding_mode: "set_rounding_mode rm rv = Some rv' \<Longrightarrow> fixed rv' = fixed rv"
  by (auto simp: set_rounding_mode_def fixed_def Let_def split: if_splits)

lemma fixed_flags [simp]: "fixed (set_fflag rv) = fixed rv" "fixed (raise_flags fl rv) = fixed rv"
  "fixed (snd (sf_test r rv)) = fixed rv"
  by (simp_all add: set_fflag_def raise_flags_def sf_test_def Let_def)

lemma fixed_sf_call: "sf_call f rv = (v, rv') \<Longrightarrow> fixed rv' = fixed rv"
  by (auto simp: sf_call_def split: prod.splits)

lemma quiet_fp_op: "quiet st 0 rv pc (fp_op f lk ir cycle pc rv)"
  by (auto simp: fp_op_def split: option.splits prod.splits dest!: fixed_set_rounding_mode fixed_sf_call)

lemma quiet_fp_to_int: "quiet st 0 rv pc (fp_to_int f lk ir cycle pc rv)"
  by (auto simp: fp_to_int_def split: option.splits prod.splits dest!: fixed_set_rounding_mode fixed_sf_call)

lemma quiet_fp_compare: "quiet st 0 rv pc (fp_compare f lk ir cycle pc rv)"
  by (auto simp: fp_compare_def sf_test_def)

lemma quiet_min_max:
  "quiet st 0 rv pc (case less_or_signed_eq a b c d s (signal_nan ir rv) of
     (is_less, rv) \<Rightarrow> Nextop (select_f ir is_less rv) cycle pc)"
  by (auto simp: less_or_signed_eq_def select_f_def signal_nan_def sf_test_def split: bool.splits)

lemma quiet_f: "quiet st 4 rv pc (do_f sf io f lk ir cycle pc rv)"
  using fixed_io_read[of io "x1 ir rv + i_imm ir" rv]
  by (cases f) (auto simp: f_ops set_fd_def Let_def
      intro!: quiet_RVOP quiet_fp_op quiet_fp_to_int quiet_fp_compare quiet_min_max quiet_misalign
      split: prod.splits)

lemma quiet_ttinsn: "quiet False 4 rv pc (do_ttinsn M lk ir cycle pc rv)"
  by (auto simp: do_ttinsn_def Let_def split: option.splits prod.splits bool.splits if_splits)

lemma quiet_mailbox: "quiet False 4 rv pc (do_lw_mailbox M lk ir cycle pc rv)"
  using fixed_io_read[of "m_io M" "x1 ir rv + i_imm ir" rv]
  by (auto simp: do_lw_mailbox_def Let_def split: prod.splits)

text \<open>Fused nodes.\<close>

definition node_size :: "rv_insn \<Rightarrow> u32" where
  "node_size ir = (case i_opcode ir of
     Fused f \<Rightarrow> if f = rv_insn_fuse2 then 8 else i_imm2 ir * 4
   | _ \<Rightarrow> 4)"

lemma quiet_fuse3_loop: "fixed rv' = fixed rv \<Longrightarrow> quiet st 0 rv pc (fuse3_loop io fs cycle pc rv')"
proof (induction fs arbitrary: rv')
  case (Cons f fs)
  then show ?case using fixed_io_write_w[of io "X rv' (f_rs1 f) + f_imm f" "X rv' (f_rs2 f)" rv']
    by (auto simp: exc_misalign_def Let_def split: option.splits)
qed simp

lemma quiet_fuse4_loop: "fixed rv' = fixed rv \<Longrightarrow> quiet st 0 rv pc (fuse4_loop io fs cycle pc rv')"
proof (induction fs arbitrary: rv')
  case (Cons f fs)
  then show ?case using fixed_io_read[of io "X rv' (f_rs1 f) + f_imm f" rv']
    by (auto simp: exc_misalign_def Let_def split: prod.splits)
qed simp

lemma fixed_fuse5_loop: "fuse5_loop fs rv = Some rv' \<Longrightarrow> fixed rv' = fixed rv"
  by (induction fs arbitrary: rv) (auto split: option.splits)

lemma fixed_fold [simp]: "fixed (fold (\<lambda>f. setX (f_rd f) (f_imm f)) fs rv) = fixed rv"
  by (induction fs arbitrary: rv) auto

lemma quiet_advance: "quiet st 0 rv pc r \<Longrightarrow> quiet st n rv pc (advance n r)"
  by (cases r) (simp_all add: advance_def)

lemma quiet_fuse: "quiet st (if f = rv_insn_fuse2 then 8 else i_imm2 ir * 4) rv pc (do_fuse io f lk ir cycle pc rv)"
  by (cases f) (auto simp: do_fuse1_def do_fuse2_def do_fuse3_def do_fuse4_def do_fuse5_def with_fuse_def Let_def
      intro!: quiet_advance quiet_fuse3_loop quiet_fuse4_loop split: option.splits dest!: fixed_fuse5_loop)

lemma quiet_fuse_run: "f \<noteq> rv_insn_fuse2 \<Longrightarrow> quiet st (i_imm2 ir * 4) rv pc (do_fuse io f lk ir cycle pc rv)"
  using quiet_fuse[of st f ir] by simp

text \<open>A node of a block in a build without compressed instructions is quiet unless it is a jump.\<close>

definition straight_node :: "rv_insn \<Rightarrow> bool" where
  "straight_node ir \<longleftrightarrow> \<not> ends_block ir \<and> i_opcode ir \<noteq> Priv rv_insn_wfi"

lemma quiet_mono: "quiet st len rv pc out \<Longrightarrow> (st' \<Longrightarrow> st) \<Longrightarrow> quiet st' len rv pc out"
  by (cases out) auto

lemma impl_quiet:
  assumes "quiet_ecall (m_io M)" "i_mailbox ir \<or> i_opcode ir \<noteq> Base rv_insn_jal \<and> i_opcode ir \<noteq> Base rv_insn_jalr"
    "\<not> is_compressed_op (i_opcode ir)" "i_mailbox ir \<longrightarrow> i_opcode ir = Base rv_insn_lw"
  shows "quiet (straight_node ir) (node_size ir) rv pc (impl M lk ir cycle pc rv)"
proof (cases "i_mailbox ir")
  case True
  then show ?thesis using assms quiet_mailbox by (simp add: impl_def straight_node_def ends_block_def node_size_def)
next
  case False
  then show ?thesis using assms
    by (cases "i_opcode ir") (auto simp: impl_def node_size_def is_compressed_op_def straight_node_def ends_block_def
        intro: quiet_mono[OF quiet_base] quiet_mono[OF quiet_priv] quiet_mono[OF quiet_zi] quiet_zb quiet_m quiet_a
          quiet_f quiet_mono[OF quiet_ttinsn] quiet_fuse_run quiet_fuse[where f = rv_insn_fuse2, simplified])
qed

lemma impl_jal:
  "\<not> i_mailbox ir \<Longrightarrow> i_opcode ir = Base rv_insn_jal \<Longrightarrow>
   impl M lk ir cycle pc rv = jump_taken lk (cycle + 1) (pc + i_imm ir) (setX_nz (i_rd ir) (pc + 4) rv)"
  by (simp add: impl_def do_jal_def RVOP_def jump_taken_def split: option.splits)

lemma impl_jalr:
  "\<not> i_mailbox ir \<Longrightarrow> i_opcode ir = Base rv_insn_jalr \<Longrightarrow>
   impl M lk ir cycle pc rv = Lookup (setX_nz (i_rd ir) (pc + 4) rv) (cycle + 1) ((x1 ir rv + i_imm ir) AND NOT 1)"
  by (simp add: impl_def do_jalr_def RVOP_def Let_def)

section \<open>How a block is left\<close>

text \<open>The nodes of a block in a build without compressed instructions: only the last one ends it.\<close>

definition chain_nodes :: "rv_insn list \<Rightarrow> bool" where
  "chain_nodes nodes \<longleftrightarrow> list_all (\<lambda>ir. \<not> is_compressed_op (i_opcode ir) \<and> (i_mailbox ir \<longrightarrow> i_opcode ir = Base rv_insn_lw)) nodes
     \<and> list_all (\<lambda>ir. \<not> ends_block ir) (butlast nodes)"

text \<open>A block that can only be left by the direct jump at its end or a trap, and the target of the jump.
  A WFI inside a block leaves it, though the block goes on behind it.\<close>

definition jumps :: "rv_insn list \<Rightarrow> bool" where
  "jumps nodes \<longleftrightarrow> nodes \<noteq> [] \<and> i_opcode (last nodes) = Base rv_insn_jal \<and> \<not> i_mailbox (last nodes)
     \<and> list_all straight_node (butlast nodes)"

fun jump_target :: "u32 \<Rightarrow> rv_insn list \<Rightarrow> u32" where
  "jump_target pc [] = pc"
| "jump_target pc [ir] = pc + i_imm ir"
| "jump_target pc (ir # rest) = jump_target (pc + node_size ir) rest"

lemma jump_target_Cons: "rest \<noteq> [] \<Longrightarrow> jump_target pc (ir # rest) = jump_target (pc + node_size ir) rest"
  by (cases rest) auto

definition exit_ok :: "links \<Rightarrow> u32 \<Rightarrow> rv_insn list \<Rightarrow> 'e riscv \<Rightarrow> 'e outcome \<Rightarrow> bool" where
  "exit_ok lk pc nodes rv out = (case out of
     Nextop rv' c pc' \<Rightarrow> False
   | End_op rv' c pc' \<Rightarrow> fixed rv' = fixed rv \<and> (jumps nodes \<longrightarrow> pc' = jump_target pc nodes)
   | Return ok rv' \<Rightarrow> fst (fixed rv') = fst (fixed rv) \<and> (jumps nodes \<longrightarrow> \<not> ok)
   | Tail t rv' c pc' \<Rightarrow> jumps nodes \<and> branch_taken lk = Some t \<and> pc' = jump_target pc nodes \<and> last_pc rv' = pc'
       \<and> snd (fixed rv') = snd (fixed rv)
   | Lookup rv' c pc' \<Rightarrow> i_opcode (last nodes) = Base rv_insn_jalr \<and> fixed rv' = fixed rv \<and> pc' \<noteq> - 1
   | Abort \<Rightarrow> True)"

lemma and_not_1: "x AND NOT 1 \<noteq> (- 1 :: u32)"
proof
  assume "x AND NOT 1 = - 1"
  from arg_cong[OF this, of "\<lambda>w. bit w 0"] show False by (simp add: bit_simps)
qed

lemma exit_last:
  assumes "quiet_ecall (m_io M)" "\<not> is_compressed_op (i_opcode ir)" "i_mailbox ir \<longrightarrow> i_opcode ir = Base rv_insn_lw"
  shows "exit_ok lk pc [ir] rv (exec_nodes M lk [ir] cycle pc rv)"
proof -
  consider "\<not> i_mailbox ir" "i_opcode ir = Base rv_insn_jal" | "\<not> i_mailbox ir" "i_opcode ir = Base rv_insn_jalr"
    | "i_mailbox ir \<or> i_opcode ir \<noteq> Base rv_insn_jal \<and> i_opcode ir \<noteq> Base rv_insn_jalr" by blast
  then show ?thesis
  proof cases
    case 1
    then show ?thesis by (auto simp: impl_jal jump_taken_def exit_ok_def jumps_def split: option.splits)
  next
    case 2
    then show ?thesis by (auto simp: impl_jalr exit_ok_def jumps_def and_not_1[simplified])
  next
    case 3
    from impl_quiet[OF assms(1) 3 assms(2,3), of rv pc lk cycle] 3 show ?thesis
      by (cases "impl M lk ir cycle pc rv") (auto simp: exit_ok_def jumps_def)
  qed
qed

lemma block_exit:
  assumes "quiet_ecall (m_io M)" "chain_nodes nodes" "nodes \<noteq> []"
  shows "exit_ok lk pc nodes rv (exec_nodes M lk nodes cycle pc rv)"
  using assms(2,3)
proof (induction nodes arbitrary: cycle pc rv)
  case (Cons ir irs)
  show ?case
  proof (cases "irs = []")
    case True
    then show ?thesis using exit_last[OF assms(1)] Cons.prems by (simp add: chain_nodes_def)
  next
    case False
    then have ir: "\<not> ends_block ir" "\<not> is_compressed_op (i_opcode ir)" and irs: "chain_nodes irs"
      using Cons.prems by (auto simp: chain_nodes_def)
    then have q: "quiet (straight_node ir) (node_size ir) rv pc (impl M no_links ir cycle pc rv)"
      by (intro impl_quiet[OF assms(1)]) (auto simp: ends_block_def insn_is_branch_def)
    have j: "jumps (ir # irs) \<longleftrightarrow> straight_node ir \<and> jumps irs" using False by (auto simp: jumps_def)
    show ?thesis
    proof (cases "impl M no_links ir cycle pc rv")
      case (Nextop rv' c pc')
      then have "i_opcode ir \<noteq> Priv rv_insn_wfi" using ir by (auto simp: impl_def ends_block_def do_wfi_def RVOP_def)
      with Nextop Cons.IH[OF irs False, of pc' rv' c] q ir False show ?thesis
        by (cases "exec_nodes M lk irs c pc' rv'") (auto simp: exit_ok_def j jump_target_Cons straight_node_def)
    qed (use q ir False in \<open>auto simp: exit_ok_def j straight_node_def\<close>)
  qed
qed simp

section \<open>Pointers between blocks\<close>

definition history_ok :: "(u32 \<Rightarrow> bool) \<Rightarrow> branch_history_table \<Rightarrow> bool" where
  "history_ok D h \<longleftrightarrow> length (h_PC h) = HISTORY_SIZE \<and> length (h_target h) = HISTORY_SIZE \<and> h_idx h < HISTORY_SIZE
     \<and> (\<forall>i < HISTORY_SIZE. case h_target h ! i of None \<Rightarrow> h_PC h ! i = - 1 | Some t \<Rightarrow> h_PC h ! i = t \<and> D t)"

lemma history_ok_new: "history_ok D new_history"
  by (simp add: history_ok_def new_history_def HISTORY_SIZE_def)

lemma history_ok_add: "history_ok D h \<Longrightarrow> D pc \<Longrightarrow> history_ok D (history_add pc pc h)"
  by (auto simp: history_ok_def history_add_def HISTORY_SIZE_def nth_list_update split: option.split cong: option.case_cong)

lemma history_ok_mono: "history_ok D h \<Longrightarrow> (\<And>t. D t \<Longrightarrow> D' t) \<Longrightarrow> history_ok D' h"
  by (auto simp: history_ok_def split: option.splits)

lemma history_find_ok:
  assumes "history_ok D h" "pc \<noteq> - 1" "history_find h pc = Some r"
  shows "r = Some pc \<and> D pc"
proof -
  have "(pc, r) \<in> set (zip (h_PC h) (h_target h))" using assms(3) by (auto simp: history_find_def dest: map_of_SomeD)
  then obtain i where "i < HISTORY_SIZE" "h_PC h ! i = pc" "h_target h ! i = r"
    using assms(1) by (auto simp: set_zip history_ok_def)
  with assms(1,2) show ?thesis by (cases r) (auto simp: history_ok_def)
qed

text \<open>Every pointer stored in a block leads to the block it should: the entries of the history table to the
  blocks at their addresses, the pointer of a direct jump to the block at the target of the jump.\<close>

definition block_ok :: "(u32 \<Rightarrow> bool) \<Rightarrow> block \<Rightarrow> bool" where
  "block_ok D b \<longleftrightarrow> irs b \<noteq> [] \<and> chain_nodes (irs b) \<and> history_ok D (branch_table b)
     \<and> (jumps (irs b) \<longrightarrow> (\<forall>t. branch_taken (tail_links b) = Some t \<longrightarrow> t = jump_target (pc_start b) (irs b) \<and> D t))"

definition mapped :: "block_map \<Rightarrow> u32 \<Rightarrow> bool" where
  "mapped m a \<longleftrightarrow> abs_map m a \<noteq> None"

definition chained :: "block_map \<Rightarrow> bool" where
  "chained m \<longleftrightarrow> map_reachable m \<and> (\<forall>a b. abs_map m a = Some b \<longrightarrow> block_ok (mapped m) b)"

text \<open>What is executed at an address.\<close>

definition code_at :: "block_map \<Rightarrow> u32 \<Rightarrow> (links \<times> rv_insn list) option" where
  "code_at m a = map_option (\<lambda>b. (tail_links b, irs b)) (abs_map m a)"

lemma chained_lookup: "chained m \<Longrightarrow> abs_map m a = Some b \<Longrightarrow> pc_start b = a \<and> block_ok (mapped m) b"
  using bm.abs_key[OF reachable_ok] by (auto simp: chained_def)

lemma chained_history:
  assumes m: "chained m" and t: "mapped m t"
  shows "chained (block_update (\<lambda>b. b\<lparr>branch_table := history_add t t (branch_table b)\<rparr>) a m)
    \<and> code_at (block_update (\<lambda>b. b\<lparr>branch_table := history_add t t (branch_table b)\<rparr>) a m) = code_at m"
proof -
  let ?f = "\<lambda>b. b\<lparr>branch_table := history_add t t (branch_table b)\<rparr>"
  have r: "map_reachable m" using m by (simp add: chained_def)
  have "map_reachable (block_update ?f a m)" by (rule map_reachable.reachable_update[OF r]) simp
  have abs: "abs_map (block_update ?f a m) = (\<lambda>k. if k = a then map_option ?f (abs_map m k) else abs_map m k)"
    using bm.upd_abs[OF reachable_ok[OF r], of ?f a] by simp
  have mp: "mapped (block_update ?f a m) = mapped m" by (auto simp: mapped_def abs fun_eq_iff)
  have "block_ok (mapped m) (?f b)" if "block_ok (mapped m) b" for b
    using that t history_ok_add by (simp add: block_ok_def)
  then have "chained (block_update ?f a m)"
    using m \<open>map_reachable (block_update ?f a m)\<close> unfolding chained_def mp abs by (auto split: if_splits)
  moreover have "code_at (block_update ?f a m) = code_at m"
    by (auto simp: code_at_def abs option.map_comp comp_def)
  ultimately show ?thesis by blast
qed

section \<open>The nodes of a translated block\<close>

text \<open>Folding keeps the opcode of a node, or makes it LUI, or JAL if it was a conditional branch.\<close>

definition folds_to :: "rv_insn \<Rightarrow> rv_insn \<Rightarrow> bool" where
  "folds_to ir ir' \<longleftrightarrow> i_opcode ir' = i_opcode ir \<and> (i_mailbox ir' \<longrightarrow> i_mailbox ir)
     \<or> \<not> i_mailbox ir' \<and> (i_opcode ir' = Base rv_insn_lui \<or> cond_branch (i_opcode ir) \<and> i_opcode ir' = Base rv_insn_jal)"

lemma constopt_folds:
  assumes "\<not> is_compressed_op (i_opcode ir)"
  shows "folds_to ir (fst (constopt_table (i_opcode ir) ir info))"
proof -
  have base: "i_opcode ir = Base b \<Longrightarrow> folds_to ir (fst (constopt_base_table b ir info))" for b
    by (cases b) (auto simp: constopt_base_defs constopt_shapes folds_to_def cond_branch_def split: if_splits)
  have m: "i_opcode ir = RvM b \<Longrightarrow> folds_to ir (fst (constopt_m_table b ir info))" for b
    by (cases b) (auto simp: constopt_m_defs constopt_shapes folds_to_def split: if_splits)
  have zb: "folds_to ir (fst (constopt_zb_table b ir info))" for b
    by (cases b) (auto simp: constopt_shapes folds_to_def split: if_splits)
  have a: "folds_to ir (fst (constopt_a_table b ir info))" for b
    by (cases b) (auto simp: constopt_shapes folds_to_def split: if_splits)
  have f: "folds_to ir (fst (constopt_f_table b ir info))" for b
    by (cases b) (auto simp: constopt_shapes folds_to_def split: if_splits)
  have zi: "folds_to ir (fst (constopt_zi_table b ir info))" for b
    by (cases b) (auto simp: constopt_shapes folds_to_def split: if_splits)
  have p: "folds_to ir (fst (constopt_priv_table b ir info))" for b
    by (cases b) (auto simp: constopt_shapes folds_to_def split: if_splits)
  show ?thesis using assms
    by (cases "i_opcode ir") (auto simp: is_compressed_op_def keep_def folds_to_def[of ir ir] base m zb a f zi p)
qed

lemma folds_chain:
  assumes "folds_to ir ir'" "\<not> is_compressed_op (i_opcode ir)" "i_mailbox ir \<longrightarrow> i_opcode ir = Base rv_insn_lw"
  shows "\<not> is_compressed_op (i_opcode ir')" "i_mailbox ir' \<longrightarrow> i_opcode ir' = Base rv_insn_lw" "\<not> ends_block ir \<Longrightarrow> \<not> ends_block ir'"
  using assms by (auto simp: folds_to_def is_compressed_op_def node_size_def ends_block_def insn_is_branch_def cond_branch_def
      split: rv_opcode.splits)

lemma chain_nodes_Cons:
  "chain_nodes (ir # rest) \<longleftrightarrow> \<not> is_compressed_op (i_opcode ir) \<and> (i_mailbox ir \<longrightarrow> i_opcode ir = Base rv_insn_lw) \<and> (rest \<noteq> [] \<longrightarrow> \<not> ends_block ir)
     \<and> chain_nodes rest"
  by (auto simp: chain_nodes_def)

lemma opt_nodes_chain: "chain_nodes nodes \<Longrightarrow> chain_nodes (opt_nodes nodes info)"
proof (induction nodes arbitrary: info)
  case (Cons ir rest)
  then have ir: "\<not> is_compressed_op (i_opcode ir)" "i_mailbox ir \<longrightarrow> i_opcode ir = Base rv_insn_lw" "rest \<noteq> [] \<longrightarrow> \<not> ends_block ir" "chain_nodes rest"
    by (simp_all add: chain_nodes_Cons)
  obtain ir' info' where r: "constopt_table (i_opcode ir) ir info = (ir', info')" by fastforce
  have "opt_nodes rest info' = [] \<longleftrightarrow> rest = []" using length_opt_nodes[of rest info'] by (metis length_0_conv)
  moreover have "folds_to ir ir'" using constopt_folds[OF ir(1), of info] r by simp
  ultimately show ?case using folds_chain[OF _ ir(1,2), of ir'] ir(3) Cons.IH[OF ir(4)] r by (auto simp: chain_nodes_Cons)
qed (simp add: chain_nodes_def)

lemma chain_nodes_drop: "chain_nodes nodes \<Longrightarrow> chain_nodes (drop n nodes)"
proof (induction nodes arbitrary: n)
  case (Cons ir rest)
  then show ?case by (cases n) (auto simp: chain_nodes_Cons)
qed (simp add: chain_nodes_def)

lemma fuse_node_chain:
  assumes "chain_nodes (ir # next # rest)" "fuse_node ml ir next rest = (ir', rest')"
  shows "\<not> is_compressed_op (i_opcode ir') \<and> (i_mailbox ir' \<longrightarrow> i_opcode ir' = Base rv_insn_lw) \<and> \<not> ends_block ir' \<and> chain_nodes rest'"
proof -
  have "ir' = ir \<or> \<not> i_mailbox ir' \<and> (\<exists>f. i_opcode ir' = Fused f)" "\<exists>n. rest' = drop n (next # rest)"
    using assms(2) by (auto simp: fuse_node_def fuse_run_def fuse_lui_add_def remove_next_nth_ir_def Let_def split: if_splits intro: exI[of _ 0] exI[of _ 1])
  moreover have ir: "\<not> is_compressed_op (i_opcode ir)" "i_mailbox ir \<longrightarrow> i_opcode ir = Base rv_insn_lw" "\<not> ends_block ir" "chain_nodes (next # rest)"
    using assms(1) chain_nodes_Cons[of ir "next # rest"] by simp_all
  ultimately show ?thesis using chain_nodes_drop[OF ir(4)] by (auto simp: is_compressed_op_def ends_block_def insn_is_branch_def)
qed

lemma match_pattern_chain: "chain_nodes nodes \<Longrightarrow> chain_nodes (match_pattern ml nodes)"
proof (induction ml nodes rule: match_pattern.induct)
  case (3 ml ir nxt rest)
  obtain ir' rest' where r: "fuse_node ml ir nxt rest = (ir', rest')" by fastforce
  with fuse_node_chain[OF 3(2) r] 3(1)[OF r[symmetric]] show ?case by (simp add: chain_nodes_Cons)
qed simp_all

lemma node_chain: "node_at io rv ir \<Longrightarrow> \<not> is_compressed_op (i_opcode ir) \<and> (i_mailbox ir \<longrightarrow> i_opcode ir = Base rv_insn_lw)"
proof (induction rule: node_at.induct)
  case (node_insn pc ir mb)
  then have "Decode_Safety.built default_features (i_opcode ir)" using decoded_full by blast
  then have "\<not> is_compressed_op (i_opcode ir)"
    using decoded_len[OF node_insn(1)] by (auto simp: is_compressed_op_def insn_len_def split: rv_opcode.splits)
  with node_insn(2) show ?case by (auto simp: node_size_def)
qed (simp add: is_compressed_op_def)

lemma translated_block_ok:
  assumes "block_translate io H rv block_alloc = Some (Translated b)"
  shows "block_ok D (b\<lparr>irs := match_pattern ml (opt_nodes (irs b) info), n_insn := n\<rparr>)"
proof -
  have b: "list_all (node_at io rv) (irs b)" "one_exit (irs b)" "tail_links b = no_links" "branch_table b = new_history"
    using block_translate_sound[OF assms] by (auto simp: block_of_def)
  then have "chain_nodes (irs b)" using node_chain by (auto simp: chain_nodes_def one_exit_def list_all_iff)
  then have "chain_nodes (match_pattern ml (opt_nodes (irs b) info))" by (intro match_pattern_chain opt_nodes_chain)
  moreover have "opt_nodes (irs b) info \<noteq> []"
    using b(2) length_opt_nodes[of "irs b" info] by (metis length_0_conv one_exit_def)
  ultimately show ?thesis using b history_ok_new by (simp add: block_ok_def no_links_def)
qed

section \<open>A chain follows the program counter\<close>

text \<open>Running blocks one at a time: each is the one at the current program counter.  The result is what the
  last one returned, none if it failed an assertion.\<close>

definition settle :: "'e outcome \<Rightarrow> (bool \<times> 'e riscv) option" where
  "settle out = (case out of
     Return ok rv \<Rightarrow> Some (ok, rv)
   | _ \<Rightarrow> map_option (\<lambda>(rv, cycle, pc). (True, end_op rv cycle pc)) (lands False out))"

inductive by_pc :: "'e machine_ops \<Rightarrow> (u32 \<Rightarrow> (links \<times> rv_insn list) option) \<Rightarrow> u64 \<Rightarrow> u32 \<Rightarrow> 'e riscv \<Rightarrow>
    (bool \<times> 'e riscv) option \<Rightarrow> bool"
  for M C where
  by_pc_last: "C pc = Some (lk, nodes) \<Longrightarrow> by_pc M C cycle pc rv (settle (exec_nodes M lk nodes cycle pc rv))"
| by_pc_next: "C pc = Some (lk, nodes) \<Longrightarrow> lands False (exec_nodes M lk nodes cycle pc rv) = Some (rv1, c1, pc1)
    \<Longrightarrow> by_pc M C c1 pc1 rv1 res \<Longrightarrow> by_pc M C cycle pc rv res"

text \<open>If the block at \<^verbatim>\<open>last_pc\<close> ends with a direct jump, it is the block that is entered, and the one that
  was left at the end.\<close>

definition entered :: "block_map \<Rightarrow> u32 \<Rightarrow> 'e riscv \<Rightarrow> bool" where
  "entered m pc rv \<longleftrightarrow> (\<forall>lk nodes. code_at m (last_pc rv) = Some (lk, nodes) \<and> jumps nodes \<longrightarrow> last_pc rv = pc)"

definition at_target :: "block_map \<Rightarrow> 'e riscv \<Rightarrow> bool" where
  "at_target m rv \<longleftrightarrow> (\<forall>lk nodes. code_at m (last_pc rv) = Some (lk, nodes) \<and> jumps nodes \<longrightarrow>
     PC rv = jump_target (last_pc rv) nodes)"

definition follows :: "'e machine_ops \<Rightarrow> block_map \<Rightarrow> u64 \<Rightarrow> u32 \<Rightarrow> 'e riscv \<Rightarrow> 'e run \<Rightarrow> bool" where
  "follows M m cycle pc rv r = (case r of
     Ran ok m' rv' \<Rightarrow> chained m' \<and> code_at m' = code_at m \<and> (ok \<longrightarrow> at_target m' rv')
       \<and> by_pc M (code_at m) cycle pc rv (Some (ok, rv'))
   | Dangling \<Rightarrow> False
   | Aborted \<Rightarrow> by_pc M (code_at m) cycle pc rv None)"

lemma follows_next:
  assumes "follows M m1 c1 pc1 rv1 r" "code_at m1 = code_at m" "code_at m pc = Some (lk, nodes)"
    "lands False (exec_nodes M lk nodes cycle pc rv) = Some (rv1, c1, pc1)"
  shows "follows M m cycle pc rv r"
  using assms by (auto simp: follows_def split: run.splits intro: by_pc_next)

lemma follows_last:
  assumes "chained m" "code_at m pc = Some (lk, nodes)" "settle (exec_nodes M lk nodes cycle pc rv) = Some (ok, rv')"
    "ok \<Longrightarrow> at_target m rv'"
  shows "follows M m cycle pc rv (Ran ok m rv')"
  using assms by_pc_last[of "code_at m" pc lk nodes M cycle rv] by (auto simp: follows_def)

lemma mapped_code: "mapped m a \<longleftrightarrow> code_at m a \<noteq> None"
  by (simp add: code_at_def mapped_def)

lemma code_at_mapped: "code_at m' = code_at m \<Longrightarrow> mapped m' = mapped m"
  by (simp add: mapped_code fun_eq_iff)

lemma exec_block_follows:
  assumes q: "quiet_ecall (m_io M)" and run: "exec_block M m b cycle pc rv = Some r"
    and m: "chained m" "abs_map m pc = Some b" "entered m pc rv"
  shows "follows M m cycle pc rv r"
proof -
  have "quiet_ecall (m_io M) \<longrightarrow> chained m \<longrightarrow> abs_map m pc = Some b \<longrightarrow> entered m pc rv \<longrightarrow> follows M m cycle pc rv r"
  proof (rule exec_block.raw_induct[where P = "\<lambda>M m b cycle pc rv r. quiet_ecall (m_io M) \<longrightarrow> chained m \<longrightarrow>
      abs_map m pc = Some b \<longrightarrow> entered m pc rv \<longrightarrow> follows M m cycle pc rv r", OF _ run], intro impI, goal_cases)
    case (1 f M m b cycle pc rv r)
    let ?out = "exec_nodes M (tail_links b) (irs b) cycle pc rv"
    have start: "pc_start b = pc" and ok: "block_ok (mapped m) b" using chained_lookup 1(4,5) by blast+
    have code: "code_at m pc = Some (tail_links b, irs b)" by (simp add: code_at_def 1(5))
    have ex: "exit_ok (tail_links b) pc (irs b) rv ?out" using ok by (intro block_exit[OF 1(3)]) (auto simp: block_ok_def)
    have call: "follows M m cycle pc rv r"
      if "f M m1 b1 c1 pc1 rv1 = Some r" "chained m1" "code_at m1 = code_at m" "abs_map m1 pc1 = Some b1" "entered m1 pc1 rv1"
        "lands False ?out = Some (rv1, c1, pc1)" for m1 b1 c1 pc1 rv1
      using 1(1)[OF that(1)] that 1(3) code by (blast intro: follows_next)
    have quit: "at_target m rv'" if "last_pc rv' = last_pc rv" "jumps (irs b) \<Longrightarrow> PC rv' = jump_target pc (irs b)" for rv'
      using that 1(6) code by (auto simp: at_target_def entered_def)
    have hop: "entered m1 pc1 rv1" if "last_pc rv1 = last_pc rv" "\<not> jumps (irs b)" "code_at m1 = code_at m" for m1 pc1 rv1
      using that 1(6) code by (auto simp: entered_def)
    show ?case
    proof (cases ?out)
      case (Nextop rv' c pc')
      then show ?thesis using ex by (simp add: exit_ok_def)
    next
      case (End_op rv' c pc')
      then show ?thesis using ex 1(2,4) code quit[of "end_op rv' c pc'"]
        by (auto simp: exit_ok_def settle_def end_op_def intro!: follows_last dest: fixedD)
    next
      case (Return ok rv')
      then show ?thesis using ex 1(2,4) code quit[of rv'] by (auto simp: exit_ok_def settle_def intro!: follows_last dest: fixedD)
    next
      case (Tail t rv' c pc')
      with ex have t: "jumps (irs b)" "branch_taken (tail_links b) = Some t" "pc' = jump_target pc (irs b)" "last_pc rv' = pc'"
        by (auto simp: exit_ok_def)
      with ok start obtain b' where "t = pc'" "abs_map m pc' = Some b'" by (auto simp: block_ok_def mapped_def)
      with Tail t 1(2,4) call[of m b' c pc' rv'] show ?thesis by (auto simp: entered_def)
    next
      case (Lookup rv' c pc')
      with ex have l: "\<not> jumps (irs b)" "last_pc rv' = last_pc rv" "pc' \<noteq> - 1" by (auto simp: exit_ok_def jumps_def dest: fixedD)
      have h: "history_ok (mapped m) (branch_table b)" using ok by (simp add: block_ok_def)
      have find: "block_find m pc' = Some (abs_map m pc')" using 1(4) bm.find_abs[OF reachable_ok] by (simp add: chained_def)
      show ?thesis
      proof (cases "history_find (branch_table b) pc'")
        case (Some r')
        from history_find_ok[OF h l(3) this] obtain b' where "r' = Some pc'" "abs_map m pc' = Some b'"
          by (auto simp: mapped_def)
        with Some Lookup l hop[of rv' m pc'] 1(2,4) call[of m b' c pc' rv'] show ?thesis by auto
      next
        case None
        show ?thesis
        proof (cases "abs_map m pc'")
          case None
          with \<open>history_find _ _ = None\<close> Lookup l find 1(2,4) code quit[of "end_op rv' c pc'"] show ?thesis
            by (auto simp: settle_def end_op_def intro!: follows_last)
        next
          case (Some t)
          let ?m = "block_update (\<lambda>b. b\<lparr>branch_table := history_add pc' pc' (branch_table b)\<rparr>) pc m"
          have t: "pc_start t = pc'" using chained_lookup[OF 1(4) Some] by blast
          have c: "chained ?m" "code_at ?m = code_at m" using chained_history[OF 1(4)] Some by (auto simp: mapped_def)
          obtain b' where "abs_map ?m pc' = Some b'"
            using code_at_mapped[OF c(2)] Some by (auto simp: mapped_def fun_eq_iff)
          with c Some None Lookup l find t start hop[of rv' ?m pc'] 1(2) call[of ?m b' c pc' rv'] show ?thesis by auto
        qed
      qed
    next
      case Abort
      then show ?thesis using 1(2) code by_pc_last[of "code_at m" pc "tail_links b" "irs b" M cycle rv]
        by (auto simp: follows_def settle_def)
    qed
  qed
  then show ?thesis using q m by blast
qed

text \<open>The other way round: a block returns, or it calls the block at the program counter it lands on.\<close>

lemma exec_block_cases:
  assumes q: "quiet_ecall (m_io M)" and m: "chained m" "abs_map m pc = Some b" "entered m pc rv"
    and lands: "lands False (exec_nodes M (tail_links b) (irs b) cycle pc rv) = Some (rv1, c1, pc1)"
  obtains (returns) "exec_block M m b cycle pc rv = Some (Ran True m (end_op rv1 c1 pc1))"
  | (calls) m1 b1 where "exec_block M m b cycle pc rv = exec_block M m1 b1 c1 pc1 rv1" "chained m1" "code_at m1 = code_at m"
      "abs_map m1 pc1 = Some b1" "entered m1 pc1 rv1" "\<not> base_branch (last (irs b))"
proof -
  let ?out = "exec_nodes M (tail_links b) (irs b) cycle pc rv"
  have start: "pc_start b = pc" and ok: "block_ok (mapped m) b" using chained_lookup m(1,2) by blast+
  have code: "code_at m pc = Some (tail_links b, irs b)" by (simp add: code_at_def m(2))
  have ex: "exit_ok (tail_links b) pc (irs b) rv ?out" using ok by (intro block_exit[OF q]) (auto simp: block_ok_def)
  show thesis
  proof (cases ?out)
    case (Tail t rv' c pc')
    with ex lands have t: "jumps (irs b)" "branch_taken (tail_links b) = Some t" "pc1 = jump_target pc (irs b)" "last_pc rv1 = pc1"
      "rv' = rv1" "c = c1" "pc' = pc1" by (auto simp: exit_ok_def)
    with ok start obtain b' where b': "t = pc1" "abs_map m pc1 = Some b'" by (auto simp: block_ok_def mapped_def)
    moreover have "exec_block M m b cycle pc rv = exec_block M m b' c1 pc1 rv1"
      using Tail t b' by (subst exec_block.simps) simp
    ultimately show ?thesis using calls[of m b'] m(1) t by (auto simp: entered_def base_branch_def jumps_def)
  next
    case (Lookup rv' c pc')
    with ex lands have l: "i_opcode (last (irs b)) = Base rv_insn_jalr" "\<not> jumps (irs b)" "last_pc rv1 = last_pc rv" "pc1 \<noteq> - 1"
      "rv' = rv1" "c = c1" "pc' = pc1" by (auto simp: exit_ok_def jumps_def dest: fixedD)
    then have nb: "\<not> base_branch (last (irs b))" by (auto simp: base_branch_def)
    have hop: "entered m1 pc1 rv1" if "code_at m1 = code_at m" for m1
      using that l m(3) code by (auto simp: entered_def)
    have h: "history_ok (mapped m) (branch_table b)" using ok by (simp add: block_ok_def)
    have find: "block_find m pc1 = Some (abs_map m pc1)" using m(1) bm.find_abs[OF reachable_ok] by (simp add: chained_def)
    show ?thesis
    proof (cases "history_find (branch_table b) pc1")
      case (Some r')
      from history_find_ok[OF h l(4) this] obtain b' where b': "r' = Some pc1" "abs_map m pc1 = Some b'"
        by (auto simp: mapped_def)
      then have "exec_block M m b cycle pc rv = exec_block M m b' c1 pc1 rv1"
        using Lookup l Some by (subst exec_block.simps) simp
      with calls[of m b'] m(1) b' hop nb show ?thesis by simp
    next
      case None
      show ?thesis
      proof (cases "abs_map m pc1")
        case no: None
        have "exec_block M m b cycle pc rv = Some (Ran True m (end_op rv1 c1 pc1))"
          using no Lookup l None find by (subst exec_block.simps) simp
        then show ?thesis by (rule returns)
      next
        case (Some t)
        let ?m = "block_update (\<lambda>b. b\<lparr>branch_table := history_add pc1 pc1 (branch_table b)\<rparr>) pc m"
        have t: "pc_start t = pc1" using chained_lookup[OF m(1) Some] by blast
        have c: "chained ?m" "code_at ?m = code_at m" using chained_history[OF m(1)] Some by (auto simp: mapped_def)
        obtain b' where b': "abs_map ?m pc1 = Some b'"
          using code_at_mapped[OF c(2)] Some by (auto simp: mapped_def fun_eq_iff)
        have "exec_block M m b cycle pc rv = exec_block M ?m b' c1 pc1 rv1"
          using Lookup l None Some find t start b' by (subst exec_block.simps) simp
        with calls[of ?m b'] c b' hop nb show ?thesis by simp
      qed
    qed
  next
    case (End_op rv' c pc')
    then have "exec_block M m b cycle pc rv = Some (Ran True m (end_op rv1 c1 pc1))"
      using lands by (subst exec_block.simps) simp
    then show ?thesis by (rule returns)
  qed (use lands ex in \<open>simp_all add: exit_ok_def\<close>)
qed

end
