(* ===== verification/Rv_Step.thy ===== *)
theory Rv_Step
  imports Rv_Chain
begin

text \<open>
  The main loop, \<^verbatim>\<open>rv_step\<close> of \<^verbatim>\<open>emulate.c\<close>.  A round of \<^verbatim>\<open>rv_step\<close> notes whether the core entered or left a kernel, finds or translates
  the block at the program counter, links the block that was left last to it, runs it with everything it
  calls, and gives the coprocessor a step.
\<close>

section \<open>State\<close>

text \<open>A core with the fields of its attributes the loop uses, and the static variable of \<^verbatim>\<open>rv_step\<close>.\<close>

record vm =
  hart :: "tile core"
  cycle_per_step :: u32
  exit_addr :: u32
  on_exit :: bool
  ncrisc_prev_kernel_pc :: u32

definition TENSIX_KERNEL_ADDR_THRESHOLD :: u32 where
  "TENSIX_KERNEL_ADDR_THRESHOLD = 0x9f00"

definition kernel_exit_core_cleanup :: "'e core \<Rightarrow> 'e core" where
  "kernel_exit_core_cleanup c = c\<lparr>bmap := block_map_clear (bmap c), prev := None\<rparr>"

definition enters_kernel :: "'e riscv \<Rightarrow> bool" where
  "enters_kernel rv \<longleftrightarrow> pre_pc rv < TENSIX_KERNEL_ADDR_THRESHOLD \<and> TENSIX_KERNEL_ADDR_THRESHOLD \<le> PC rv"

definition leaves_kernel :: "'e riscv \<Rightarrow> bool" where
  "leaves_kernel rv \<longleftrightarrow> TENSIX_KERNEL_ADDR_THRESHOLD \<le> pre_pc rv \<and> PC rv < TENSIX_KERNEL_ADDR_THRESHOLD"

section \<open>Kernel transitions\<close>

definition upd_tile :: "(tile \<Rightarrow> tile) \<Rightarrow> tile core \<Rightarrow> tile core" where
  "upd_tile f c = c\<lparr>cpu := (cpu c)\<lparr>env := f (env (cpu c))\<rparr>\<rparr>"

definition core_bit :: "int \<Rightarrow> u8" where
  "core_bit cid = (if cid < 0 then push_bit 3 1 else push_bit (nat cid) 1)"

definition tensix_transition :: "tile core \<Rightarrow> tile core" where
  "tensix_transition c =
     (let rv = cpu c; bit = core_bit (core_id rv) in
      if enters_kernel rv then
        upd_tile (\<lambda>t. t\<lparr>tcop := upd_core (\<lambda>tt. tt\<lparr>cores_in_kernel := cores_in_kernel tt OR bit,
          had_trisc_in_kernel := (if 0 \<le> core_id rv \<and> core_id rv \<le> 2 then True else had_trisc_in_kernel tt)\<rparr>) (tcop t)\<rparr>) c
      else if leaves_kernel rv then
        upd_tile (\<lambda>t.
          let cop = upd_core (\<lambda>tt. tt\<lparr>cores_in_kernel := cores_in_kernel tt AND NOT bit\<rparr>) (tcop t) in
          t\<lparr>tcop := (if cores_in_kernel (core cop) = 0 \<and> had_trisc_in_kernel (core cop) then tensix_clear cop else cop)\<rparr>)
          (kernel_exit_core_cleanup c)
      else c)"

text \<open>The NCRISC core clears ten words of its kernel's arguments when it returns.  The bound is tested in
  32-bit arithmetic, so a pointer near the end of the address space passes it; such a write is outside the
  buffer and has no model.\<close>

definition clear_words :: "u32 \<Rightarrow> tile \<Rightarrow> tile" where
  "clear_words p t = set_ram (\<lambda>a. if p \<le> a \<and> a < p + 10 * 4 then 0 else ram t a) t"

definition ncrisc_transition :: "vm \<Rightarrow> vm option" where
  "ncrisc_transition s =
     (let c = hart s; rv = cpu c in
      if enters_kernel rv then
        if ncrisc_prev_kernel_pc s \<noteq> PC rv
        then Some (s\<lparr>hart := kernel_exit_core_cleanup c, ncrisc_prev_kernel_pc := PC rv\<rparr>)
        else Some s
      else if leaves_kernel rv then
        let rta_ptr = ld32 (loc (env rv) (core_id rv)) 0x38 in
        if rta_ptr + 10 * 4 \<le> 0x180000 then
          if 2 ^ 32 \<le> unat rta_ptr + 40 then None
          else Some (s\<lparr>hart := upd_tile (clear_words rta_ptr) c\<rparr>)
        else Some s
      else Some s)"

definition kernel_transition :: "vm \<Rightarrow> vm option" where
  "kernel_transition s =
     (let rv = cpu (hart s) in
      if has_tensix rv \<and> pre_pc rv \<noteq> 0 then Some (s\<lparr>hart := tensix_transition (hart s)\<rparr>)
      else if core_id rv = 3 then ncrisc_transition s
      else Some s)"

section \<open>Linking blocks\<close>

definition link_tail :: "bool \<Rightarrow> u32 \<Rightarrow> block \<Rightarrow> block" where
  "link_tail taken t b =
     (let op = i_opcode (last (irs b)); lk = tail_links b in
      if \<not> insn_is_unconditional_branch op then
        if taken \<and> branch_taken lk = None then b\<lparr>tail_links := lk\<lparr>branch_taken := Some t\<rparr>\<rparr>
        else if \<not> taken \<and> branch_untaken lk = None then b\<lparr>tail_links := lk\<lparr>branch_untaken := Some t\<rparr>\<rparr>
        else b
      else if insn_is_direct_branch op \<and> branch_taken lk = None
      then b\<lparr>tail_links := lk\<lparr>branch_taken := Some t\<rparr>\<rparr>
      else b)"

definition chain_prev :: "u32 \<Rightarrow> 'e core \<Rightarrow> 'e core" where
  "chain_prev t c = (case prev c of
     None \<Rightarrow> c
   | Some p \<Rightarrow> c\<lparr>bmap := block_update (link_tail (is_branch_taken (cpu c)) t) p (bmap c)\<rparr>)"

text \<open>The previous block is looked up again if the chain has moved on from it.\<close>

definition update_prev :: "'e core \<Rightarrow> 'e core option" where
  "update_prev c = (case prev c of
     Some p \<Rightarrow> if p \<noteq> last_pc (cpu c)
       then map_option (\<lambda>r. c\<lparr>prev := map_option pc_start r\<rparr>) (block_find (bmap c) (last_pc (cpu c)))
       else Some c
   | None \<Rightarrow> Some c)"

text \<open>A stored pointer that is dereferenced here must lead to a block.\<close>

definition prev_dangles :: "'e core \<Rightarrow> bool" where
  "prev_dangles c \<longleftrightarrow> (case prev c of None \<Rightarrow> False | Some p \<Rightarrow> abs_map (bmap c) p = None)"

section \<open>A round of the loop\<close>

datatype round_end = Again vm | Leave vm | Bad_pointer | Bad_write | Failed_assertion

definition run_round :: "softfloat \<Rightarrow> unit_op \<Rightarrow> (tile riscv \<Rightarrow> tile riscv) \<Rightarrow> block \<Rightarrow> vm \<Rightarrow> round_end option" where
  "run_round lib u syscall b s =
     (let c = hart s; rv = cpu c in
      map_option (\<lambda>r. case r of
          Dangling \<Rightarrow> Bad_pointer
        | Aborted \<Rightarrow> Failed_assertion
        | Ran False m rv \<Rightarrow> Leave (s\<lparr>hart := c\<lparr>cpu := rv, bmap := m, prev := None\<rparr>\<rparr>)
        | Ran True m rv \<Rightarrow>
            let rv = (if has_tensix rv \<and> 0 \<le> core_id rv \<and> core_id rv \<le> 2
                      then rv\<lparr>env := (env rv)\<lparr>tcop := snd (tensix_step u (tcop (env rv)) (core_id rv))\<rparr>\<rparr> else rv) in
            Again (s\<lparr>hart := c\<lparr>cpu := rv, bmap := m, prev := Some (pc_start b)\<rparr>\<rparr>))
        (exec_block (tile_ops lib u syscall) (bmap c) b (csr_cycle rv) (PC rv) rv))"

definition step_round :: "softfloat \<Rightarrow> unit_op \<Rightarrow> (tile riscv \<Rightarrow> tile riscv) \<Rightarrow> host \<Rightarrow> vm \<Rightarrow> round_end option" where
  "step_round lib u syscall H s =
     (if prev_dangles (hart s) then Some Bad_pointer
      else case update_prev (hart s) of
        None \<Rightarrow> None
      | Some c \<Rightarrow>
          (case kernel_transition (s\<lparr>hart := c\<rparr>) of
             None \<Rightarrow> Some Bad_write
           | Some s \<Rightarrow>
               let c = hart s; c = c\<lparr>cpu := (cpu c)\<lparr>pre_pc := PC (cpu c)\<rparr>\<rparr> in
               (case block_find_or_translate (tile_io u syscall) H c of
                  None \<Rightarrow> None
                | Some (None, c) \<Rightarrow> Some (Leave (s\<lparr>hart := c\<lparr>cpu := (cpu c)\<lparr>halt := True\<rparr>\<rparr>\<rparr>))
                | Some (Some b, c) \<Rightarrow>
                    let s = (if i_pc (hd (irs b)) = exit_addr s then s\<lparr>on_exit := True\<rparr> else s);
                        t = pc_start b in
                    if prev_dangles c then Some Bad_pointer
                    else
                      let c = chain_prev t c;
                          c = c\<lparr>cpu := (cpu c)\<lparr>last_pc := PC (cpu c)\<rparr>\<rparr> in
                      (case abs_map (bmap c) t of
                         None \<Rightarrow> Some Bad_pointer
                       | Some b \<Rightarrow> run_round lib u syscall b (s\<lparr>hart := c\<rparr>)))))"

text \<open>The loop, with one host per round, until the cycle target is reached, the core halts or a trap is
  taken.\<close>

datatype step_end = Stepped vm | Dangling_block | Out_of_bounds

partial_function (option) step_loop ::
  "softfloat \<Rightarrow> unit_op \<Rightarrow> (tile riscv \<Rightarrow> tile riscv) \<Rightarrow> (nat \<Rightarrow> host) \<Rightarrow> u64 \<Rightarrow> nat \<Rightarrow> vm \<Rightarrow> step_end option" where
  "step_loop lib u syscall H target n s =
     (if csr_cycle (cpu (hart s)) < target \<and> \<not> halt (cpu (hart s)) then
        case step_round lib u syscall (H n) s of
          None \<Rightarrow> None
        | Some (Again s) \<Rightarrow> step_loop lib u syscall H target (Suc n) s
        | Some (Leave s) \<Rightarrow> Some (Stepped s)
        | Some Bad_pointer \<Rightarrow> Some Dangling_block
        | Some Bad_write \<Rightarrow> Some Out_of_bounds
        | Some Failed_assertion \<Rightarrow> None
      else Some (Stepped s))"

definition rv_step :: "softfloat \<Rightarrow> unit_op \<Rightarrow> (tile riscv \<Rightarrow> tile riscv) \<Rightarrow> (nat \<Rightarrow> host) \<Rightarrow> vm \<Rightarrow> step_end option" where
  "rv_step lib u syscall H s = step_loop lib u syscall H (csr_cycle (cpu (hart s)) + ucast (cycle_per_step s)) 0 s"

section \<open>The pointers of a core\<close>

text \<open>The blocks of the map point to the right blocks, and so does the pointer to the previous block.  If
  there is one, the program counter is where the block left last has jumped to.\<close>

definition linked :: "'e core \<Rightarrow> bool" where
  "linked c \<longleftrightarrow> chained (bmap c) \<and> (\<forall>p. prev c = Some p \<longrightarrow> mapped (bmap c) p \<and> at_target (bmap c) (cpu c))"

definition settled :: "'e core \<Rightarrow> bool" where
  "settled c \<longleftrightarrow> linked c \<and> (\<forall>p. prev c = Some p \<longrightarrow> p = last_pc (cpu c))"

lemma linked_not_dangling: "linked c \<Longrightarrow> \<not> prev_dangles c"
  by (auto simp: linked_def prev_dangles_def mapped_def split: option.splits)

lemma chained_find: "chained m \<Longrightarrow> block_find m a = Some (abs_map m a)"
  using bm.find_abs[OF reachable_ok] by (simp add: chained_def)

lemma update_prev_settled:
  assumes "linked c"
  obtains c' where "update_prev c = Some c'" "settled c'" "cpu c' = cpu c" "bmap c' = bmap c"
proof -
  have c: "chained (bmap c)" using assms by (simp add: linked_def)
  show thesis
  proof (cases "prev c")
    case None
    with assms that[of c] show ?thesis by (simp add: update_prev_def settled_def)
  next
    case (Some p)
    show ?thesis
    proof (cases "p = last_pc (cpu c)")
      case True
      with assms Some that[of c] show ?thesis by (simp add: update_prev_def settled_def)
    next
      case False
      let ?c = "c\<lparr>prev := map_option pc_start (abs_map (bmap c) (last_pc (cpu c)))\<rparr>"
      have "update_prev c = Some ?c" using False Some chained_find[OF c] by (simp add: update_prev_def)
      moreover have "settled ?c"
        using assms Some chained_lookup[OF c] by (auto simp: settled_def linked_def mapped_def at_target_def)
      ultimately show ?thesis using that[of ?c] by simp
    qed
  qed
qed

lemma chained_clear: "chained m \<Longrightarrow> chained (block_map_clear m)"
  using bm.clear_abs[OF reachable_ok] by (auto simp: chained_def reachable_clear)

lemma settled_cleanup: "settled c \<Longrightarrow> settled (kernel_exit_core_cleanup c)"
  by (simp add: settled_def linked_def kernel_exit_core_cleanup_def chained_clear)

lemma at_target_cong: "last_pc rv' = last_pc rv \<Longrightarrow> PC rv' = PC rv \<Longrightarrow> at_target m rv' = at_target m rv"
  by (simp add: at_target_def)

lemma settled_cpu: "settled c \<Longrightarrow> last_pc rv = last_pc (cpu c) \<Longrightarrow> PC rv = PC (cpu c) \<Longrightarrow> settled (c\<lparr>cpu := rv\<rparr>)"
  using at_target_cong[of rv "cpu c" "bmap c"] by (simp add: settled_def linked_def)

lemma settled_tile: "settled c \<Longrightarrow> settled (upd_tile f c)"
  by (simp add: upd_tile_def settled_cpu)

lemma cpu_cleanup [simp]: "cpu (kernel_exit_core_cleanup c) = cpu c"
  by (simp add: kernel_exit_core_cleanup_def)

lemma kernel_transition_settled:
  assumes "settled (hart s)" "kernel_transition s = Some s'"
  shows "settled (hart s') \<and> last_pc (cpu (hart s')) = last_pc (cpu (hart s)) \<and> PC (cpu (hart s')) = PC (cpu (hart s))"
proof -
  have t: "settled (tensix_transition (hart s)) \<and> last_pc (cpu (tensix_transition (hart s))) = last_pc (cpu (hart s))
      \<and> PC (cpu (tensix_transition (hart s))) = PC (cpu (hart s))"
    using assms(1) by (simp add: tensix_transition_def Let_def settled_tile settled_cleanup) (simp add: upd_tile_def)
  show ?thesis
  proof (cases "has_tensix (cpu (hart s)) \<and> pre_pc (cpu (hart s)) \<noteq> 0")
    case True
    with assms(2) t show ?thesis by (auto simp: kernel_transition_def Let_def)
  next
    case False
    with assms show ?thesis
      by (auto simp: kernel_transition_def ncrisc_transition_def Let_def settled_tile settled_cleanup split: if_splits)
        (simp_all add: upd_tile_def)
  qed
qed

text \<open>A new block is added to the map without disturbing the others.\<close>

lemma chained_insert:
  assumes m: "chained m" "abs_map m (pc_start b) = None" and ins: "block_insert (if must_clear m then block_map_clear m else m) b = Some m'"
    and ok: "\<And>D. block_ok D b"
  shows "chained m' \<and> abs_map m' (pc_start b) = Some b
    \<and> (\<forall>a. a \<noteq> pc_start b \<longrightarrow> abs_map m' a = (if must_clear m then None else abs_map m a))"
proof -
  have r: "map_reachable m" using m by (simp add: chained_def)
  obtain m1 where m1: "block_insert (if must_clear m then block_map_clear m else m) b = Some m1" "map_reachable m1"
    "block_find m1 (pc_start b) = Some (Some b)"
    "\<forall>k. k \<noteq> pc_start b \<longrightarrow> block_find m1 k = (if must_clear m then Some None else block_find m k)"
    using block_map_insert_missing[OF r, of b] m(2) chained_find[OF m(1)] by (metis (no_types, lifting))
  then have m': "map_reachable m'" "abs_map m' (pc_start b) = Some b"
    "\<And>k. k \<noteq> pc_start b \<Longrightarrow> abs_map m' k = (if must_clear m then None else abs_map m k)"
    using ins bm.find_abs[OF reachable_ok] chained_find[OF m(1)] by (auto split: if_splits)
  have "mapped m' a" if "mapped m a" "\<not> must_clear m" for a
    using that m' by (cases "a = pc_start b") (auto simp: mapped_def)
  then have "block_ok (mapped m') c" if "block_ok (mapped m) c" "\<not> must_clear m" for c
    using that history_ok_mono[of "mapped m"] by (auto simp: block_ok_def)
  moreover have "block_ok (mapped m) c" if "abs_map m a = Some c" for a c using m(1) that by (auto simp: chained_def)
  ultimately have "block_ok (mapped m') c" if "abs_map m' a = Some c" for a c
    using that m' ok by (cases "a = pc_start b") (auto split: if_splits)
  with m' show ?thesis by (auto simp: chained_def)
qed

lemma find_or_translate_settled:
  assumes c: "settled c" and r: "block_find_or_translate io H c = Some (r, c')"
  shows "settled c' \<and> cpu c' = cpu c \<and> (\<forall>b. r = Some b \<longrightarrow> abs_map (bmap c') (PC (cpu c)) = Some b)
    \<and> (\<forall>a. a \<noteq> PC (cpu c) \<longrightarrow> abs_map (bmap c') a = None \<or> abs_map (bmap c') a = abs_map (bmap c) a)"
proof -
  let ?pc = "PC (cpu c)"
  have m: "chained (bmap c)" using c by (simp add: settled_def linked_def)
  define c1 where "c1 = (if must_clear (bmap c) then c\<lparr>bmap := block_map_clear (bmap c), prev := None\<rparr> else c)"
  have c1: "settled c1" "cpu c1 = cpu c" "bmap c1 = (if must_clear (bmap c) then block_map_clear (bmap c) else bmap c)"
    using settled_cleanup[OF c] c by (auto simp: c1_def kernel_exit_core_cleanup_def)
  show ?thesis
  proof (cases "abs_map (bmap c) ?pc")
    case (Some b)
    with r c chained_find[OF m] show ?thesis by (simp add: block_find_or_translate_def)
  next
    case None
    show ?thesis
    proof (cases "c' = c1 \<and> r = None")
      case True
      with c1 bm.clear_abs[OF reachable_ok] m show ?thesis by (simp add: chained_def)
    next
      case False
      with r None chained_find[OF m, of ?pc] obtain b nodes m' where
        b: "block_translate io H (cpu c) block_alloc = Some (Translated b)" "optimize_constant (cpu c) (irs b) = Some nodes"
        and r': "r = Some (b\<lparr>irs := match_pattern (fuse_malloc H) nodes, n_insn := of_nat (length (match_pattern (fuse_malloc H) nodes))\<rparr>)"
          "block_insert (bmap c1) (the r) = Some m'" "c' = c1\<lparr>bmap := m'\<rparr>"
        unfolding block_find_or_translate_def c1_def[symmetric] Let_def
        by (auto simp: c1 split: if_splits option.splits translation.splits)
      have "nodes = opt_nodes (irs b) start_info" using b(2) by (auto simp: optimize_constant_def split: if_splits)
      then have ok: "block_ok D (the r)" for D using translated_block_ok[OF b(1)] r'(1) by simp
      have pc: "pc_start (the r) = ?pc" using block_translate_sound[OF b(1)] r'(1) by simp
      from chained_insert[OF m _ r'(2)[unfolded c1(3)] ok] pc None
      have m': "chained m'" "abs_map m' ?pc = Some (the r)" "\<forall>a. a \<noteq> ?pc \<longrightarrow> abs_map m' a = (if must_clear (bmap c) then None else abs_map (bmap c) a)"
        by auto
      have "mapped m' p \<and> at_target m' (cpu c)" if p: "prev c1 = Some p" for p
      proof -
        from p have nc: "\<not> must_clear (bmap c)" "prev c = Some p" by (auto simp: c1_def split: if_splits)
        with c have "mapped (bmap c) p" "at_target (bmap c) (cpu c)" "p = last_pc (cpu c)" by (auto simp: settled_def linked_def)
        moreover from this None have "p \<noteq> ?pc" by (auto simp: mapped_def)
        ultimately show ?thesis using m'(3) nc(1) by (auto simp: mapped_def at_target_def code_at_def)
      qed
      then have "settled c'" using m'(1) c1(1,2) r'(3) by (auto simp: settled_def linked_def)
      with m' c1(2) r' show ?thesis by simp
    qed
  qed
qed

lemma pc_start_link [simp]: "pc_start (link_tail taken t b) = pc_start b" "irs (link_tail taken t b) = irs b"
  "branch_table (link_tail taken t b) = branch_table b"
  by (simp_all add: link_tail_def Let_def)

lemma jumps_link:
  "jumps (irs b) \<Longrightarrow> branch_taken (tail_links (link_tail taken t b)) = (if branch_taken (tail_links b) = None then Some t else branch_taken (tail_links b))"
  by (simp add: jumps_def link_tail_def insn_is_unconditional_branch_def insn_is_direct_branch_def Let_def)

lemma chain_prev_chained:
  assumes c: "settled c" and t: "t = PC (cpu c)" "mapped (bmap c) t"
  shows "chained (bmap (chain_prev t c)) \<and> mapped (bmap (chain_prev t c)) t \<and> cpu (chain_prev t c) = cpu c
    \<and> map_option irs \<circ> abs_map (bmap (chain_prev t c)) = map_option irs \<circ> abs_map (bmap c)"
proof (cases "prev c")
  case None
  with c t show ?thesis by (simp add: chain_prev_def settled_def linked_def)
next
  case (Some p)
  let ?f = "link_tail (is_branch_taken (cpu c)) t" and ?m = "bmap c"
  let ?m' = "block_update ?f p ?m"
  from c Some have m: "chained ?m" "p = last_pc (cpu c)" "at_target ?m (cpu c)" by (auto simp: settled_def linked_def)
  then have r: "map_reachable ?m" by (simp add: chained_def)
  have "map_reachable ?m'" by (rule map_reachable.reachable_update[OF r]) simp
  have abs: "abs_map ?m' = (\<lambda>k. if k = p then map_option ?f (abs_map ?m k) else abs_map ?m k)"
    using bm.upd_abs[OF reachable_ok[OF r], of ?f p] by simp
  have mp: "mapped ?m' = mapped ?m" by (auto simp: mapped_def abs fun_eq_iff)
  have "block_ok (mapped ?m) (?f b)" if b: "abs_map ?m p = Some b" for b
  proof -
    have ok: "pc_start b = p" "block_ok (mapped ?m) b" using chained_lookup[OF m(1) b] by simp_all
    have "jumps (irs b) \<Longrightarrow> t = jump_target (pc_start b) (irs b)"
      using m(2,3) b ok(1) t(1) by (auto simp: at_target_def code_at_def)
    with ok t(2) show ?thesis by (auto simp: block_ok_def jumps_link split: if_splits)
  qed
  moreover have "block_ok (mapped ?m) b" if "abs_map ?m a = Some b" for a b using m(1) that by (auto simp: chained_def)
  ultimately have "chained ?m'"
    using \<open>map_reachable ?m'\<close> unfolding chained_def mp abs by (auto split: if_splits)
  moreover have "map_option irs \<circ> abs_map ?m' = map_option irs \<circ> abs_map ?m"
    by (auto simp: abs fun_eq_iff option.map_comp comp_def)
  ultimately show ?thesis using t(2) Some mp by (simp add: chain_prev_def)
qed

lemma quiet_tile: "(\<And>rv. last_pc (syscall rv) = last_pc rv) \<Longrightarrow> quiet_ecall (m_io (tile_ops lib u syscall))"
  by (simp add: quiet_ecall_def tile_ops_def tile_io_def ecall_handler_def fixedD(1)[OF fixed_trap])

lemma run_round_linked:
  assumes q: "\<And>rv. last_pc (syscall rv) = last_pc rv" and r: "run_round lib u syscall b s = Some r"
    and c: "chained (bmap (hart s))" "abs_map (bmap (hart s)) (PC (cpu (hart s))) = Some b" "last_pc (cpu (hart s)) = PC (cpu (hart s))"
  shows "r \<noteq> Bad_pointer \<and> (\<forall>s'. r = Again s' \<or> r = Leave s' \<longrightarrow> linked (hart s'))"
proof -
  let ?c = "hart s" let ?rv = "cpu (hart s)"
  from r obtain out where out: "exec_block (tile_ops lib u syscall) (bmap ?c) b (csr_cycle ?rv) (PC ?rv) ?rv = Some out"
    by (auto simp: run_round_def Let_def)
  have f: "follows (tile_ops lib u syscall) (bmap ?c) (csr_cycle ?rv) (PC ?rv) ?rv out"
    by (rule exec_block_follows[OF quiet_tile[OF q] out c(1,2)]) (simp add: entered_def c(3))
  have b: "mapped (bmap ?c) (pc_start b)" using chained_lookup[OF c(1,2)] c(2) by (simp add: mapped_def)
  show ?thesis
  proof (cases out)
    case (Ran ok m' rv')
    with f have m': "chained m'" "code_at m' = code_at (bmap ?c)" "ok \<Longrightarrow> at_target m' rv'" by (auto simp: follows_def)
    show ?thesis
    proof (cases ok)
      case True
      with Ran r out m' b code_at_mapped[OF m'(2)] show ?thesis
        by (auto simp: run_round_def linked_def at_target_def Let_def)
    next
      case False
      with Ran r out m' show ?thesis by (auto simp: run_round_def linked_def Let_def)
    qed
  qed (use f r out in \<open>auto simp: run_round_def follows_def\<close>)
qed

lemma step_round_linked:
  assumes q: "\<And>rv. last_pc (syscall rv) = last_pc rv" and c: "linked (hart s)"
    and r: "step_round lib u syscall H s = Some r"
  shows "r \<noteq> Bad_pointer \<and> (\<forall>s'. r = Again s' \<or> r = Leave s' \<longrightarrow> linked (hart s'))"
proof -
  obtain c1 where c1: "update_prev (hart s) = Some c1" "settled c1" by (rule update_prev_settled[OF c])
  show ?thesis
  proof (cases "kernel_transition (s\<lparr>hart := c1\<rparr>)")
    case None
    with r c1 linked_not_dangling[OF c] show ?thesis by (simp add: step_round_def)
  next
  case s2: (Some s2)
  from kernel_transition_settled[OF _ s2] c1(2) have c2: "settled (hart s2)" by simp
  let ?c3 = "(hart s2)\<lparr>cpu := (cpu (hart s2))\<lparr>pre_pc := PC (cpu (hart s2))\<rparr>\<rparr>"
  have c3: "settled ?c3" by (rule settled_cpu[OF c2]) simp_all
  note r' = r[unfolded step_round_def Let_def, simplified linked_not_dangling[OF c] c1(1) s2 option.case if_False]
  show ?thesis
  proof (cases "block_find_or_translate (tile_io u syscall) H ?c3")
    case None
    with r' show ?thesis by simp
  next
    case (Some x)
    then obtain rb c4 where x: "block_find_or_translate (tile_io u syscall) H ?c3 = Some (rb, c4)" by (cases x) auto
    from find_or_translate_settled[OF c3 x] have c4: "settled c4" "cpu c4 = cpu ?c3"
      "\<And>b. rb = Some b \<Longrightarrow> abs_map (bmap c4) (PC (cpu ?c3)) = Some b" by auto
    show ?thesis
    proof (cases rb)
      case None
      with r' x c4 show ?thesis by (auto simp: settled_def linked_def at_target_def)
    next
      case (Some b)
      let ?t = "pc_start b"
      have m4: "chained (bmap c4)" "\<not> prev_dangles c4" using c4(1) linked_not_dangling by (auto simp: settled_def linked_def)
      have t: "?t = PC (cpu c4)" "mapped (bmap c4) ?t" using c4(2) c4(3)[OF Some] chained_lookup[OF m4(1)] by (auto simp: mapped_def)
      let ?c5 = "(chain_prev ?t c4)\<lparr>cpu := (cpu (chain_prev ?t c4))\<lparr>last_pc := PC (cpu (chain_prev ?t c4))\<rparr>\<rparr>"
      from chain_prev_chained[OF c4(1) t] obtain b' where
        c5: "chained (bmap ?c5)" "abs_map (bmap ?c5) ?t = Some b'" "PC (cpu ?c5) = ?t" "last_pc (cpu ?c5) = ?t"
        using t(1) by (auto simp: mapped_def)
      let ?s = "(if i_pc (hd (irs b)) = exit_addr s2 then s2\<lparr>on_exit := True\<rparr> else s2)\<lparr>hart := ?c5\<rparr>"
      have "run_round lib u syscall b' ?s = Some r"
        using r' x Some m4(2) c5(2) by simp
      from run_round_linked[OF q this] c5 show ?thesis by simp
    qed
  qed
  qed
qed

lemma step_loop_linked:
  assumes q: "\<And>rv. last_pc (syscall rv) = last_pc rv" and c: "linked (hart s)"
    and r: "step_loop lib u syscall H target n s = Some r"
  shows "r \<noteq> Dangling_block \<and> (\<forall>s'. r = Stepped s' \<longrightarrow> linked (hart s'))"
proof -
  let ?P = "\<lambda>lib u sc H target n s r. sc = syscall \<longrightarrow> linked (hart s) \<longrightarrow>
      r \<noteq> Dangling_block \<and> (\<forall>s'. r = Stepped s' \<longrightarrow> linked (hart s'))"
  have "?P lib u syscall H target n s r"
  proof (rule step_loop.raw_induct[where P = ?P, OF _ r], intro impI, goal_cases)
    case (1 f lib u sc H target n s r)
    show ?case
    proof (cases "csr_cycle (cpu (hart s)) < target \<and> \<not> halt (cpu (hart s))")
      case False
      with 1 show ?thesis by auto
    next
      case True
      with 1(2) obtain e where e: "step_round lib u syscall (H n) s = Some e" using 1(3) by (auto split: option.splits)
      from step_round_linked[OF q 1(4) e] 1(1,2,3) True e show ?thesis by (cases e) auto
    qed
  qed
  with c show ?thesis by blast
qed

text \<open>C10: the interpreter never follows a stale pointer.  In a core whose stored pointers are right - the block
  map just created is one - \<^verbatim>\<open>rv_step\<close>, whatever it executes, how often the map is cleared, how allocations
  fail and which kernels start and end, only ever calls blocks that are in the map, and leaves the pointers
  right for the next call.  The host's system-call handler is assumed not to write \<^verbatim>\<open>last_pc\<close>.\<close>

theorem rv_step_pointers_safe:
  assumes "\<And>rv. last_pc (syscall rv) = last_pc rv" "linked (hart s)" "rv_step lib u syscall H s = Some r"
  shows "r \<noteq> Dangling_block \<and> (\<forall>s'. r = Stepped s' \<longrightarrow> linked (hart s'))"
  using step_loop_linked[OF assms(1,2)] assms(3) by (simp add: rv_step_def)

text \<open>The core of the example program, and a host without memory, on which it halts.\<close>

definition code_vm :: vm where
  "code_vm = \<lparr>hart = code_core, cycle_per_step = 3, exit_addr = 0, on_exit = False, ncrisc_prev_kernel_pc = 0\<rparr>"

definition no_memory :: host where
  "no_memory = demo_host\<lparr>block_calloc := False\<rparr>"

lemma code_core_facts:
  "bmap code_core = block_map_init BLOCK_MAP_CAPACITY_BITS" "prev code_core = None" "PC (cpu code_core) = 0x100"
  "csr_cycle (cpu code_core) = 0" "\<not> halt (cpu code_core)" "\<not> has_tensix (cpu code_core)" "core_id (cpu code_core) = 0"
  by (simp_all add: code_core_def zero_riscv_def)

lemma chained_init: "chained (block_map_init BLOCK_MAP_CAPACITY_BITS)"
  using map_init_ok by (auto simp: chained_def intro: reachable_init)

lemma code_core_linked: "linked code_core"
  by (simp add: linked_def code_core_facts chained_init)

lemma init_find: "block_find (block_map_init BLOCK_MAP_CAPACITY_BITS) a = Some None"
  using chained_find[OF chained_init] map_init_ok by simp

lemma init_not_full: "\<not> must_clear (block_map_init BLOCK_MAP_CAPACITY_BITS)"
  by (simp add: must_clear_def block_map_init_def)

theorem rv_step_pointers_safe_witness:
  "\<exists>s'. rv_step zero_softfloat idle_unit (\<lambda>rv. rv) (\<lambda>_. no_memory) code_vm = Some (Stepped s') \<and> halt (cpu (hart s')) \<and> linked (hart s')"
proof -
  have "step_round zero_softfloat idle_unit (\<lambda>rv. rv) no_memory code_vm
      = Some (Leave (code_vm\<lparr>hart := code_core\<lparr>cpu := (cpu code_core)\<lparr>pre_pc := 0x100, halt := True\<rparr>\<rparr>\<rparr>))"
    by (simp add: step_round_def prev_dangles_def update_prev_def kernel_transition_def block_find_or_translate_def
        code_vm_def code_core_facts init_find init_not_full no_memory_def)
  then obtain s' where r: "rv_step zero_softfloat idle_unit (\<lambda>rv. rv) (\<lambda>_. no_memory) code_vm = Some (Stepped s')" "halt (cpu (hart s'))"
    by (simp add: rv_step_def step_loop.simps) (simp add: code_vm_def code_core_facts)
  moreover have "linked (hart code_vm)" by (simp add: code_vm_def code_core_linked)
  ultimately show ?thesis using rv_step_pointers_safe[of "\<lambda>rv. rv" code_vm] by blast
qed

end
