(* ===== verification/Rv_Program.thy ===== *)
theory Rv_Program
  imports Rv_Step
begin

text \<open>
  A whole program on the main loop.  The reference is a machine that fetches one RV32IM instruction after
  the other from a program; \<^verbatim>\<open>rv_step\<close> translates, folds, fuses, caches and chains blocks of it.  The
  theory shows that the two agree, that \<^verbatim>\<open>rv_step\<close> returns if the program keeps branching, and that it
  does not return from a loop of direct jumps.
\<close>

section \<open>Programs\<close>

type_synonym program = "u32 \<rightharpoonup> asm"

text \<open>The reference machine: \<^term>\<open>n\<close> instructions from a state; none if it leaves the program or faults.\<close>

fun isa_steps :: "program \<Rightarrow> nat \<Rightarrow> isa \<Rightarrow> isa option" where
  "isa_steps P 0 s = Some s"
| "isa_steps P (Suc n) s =
     (case P (ipc s) of
        None \<Rightarrow> None
      | Some a \<Rightarrow> (case isa_step a s of Done s' \<Rightarrow> isa_steps P n s' | Fault _ _ _ \<Rightarrow> None))"

lemma isa_steps_add:
  "isa_steps P n s = Some s' \<Longrightarrow> isa_steps P (n + k) s = isa_steps P k s'"
  by (induction n arbitrary: s) (auto split: option.splits isa_result.splits)

text \<open>The basic block at an address: up to the first jump or branch.\<close>

fun code_block :: "program \<Rightarrow> nat \<Rightarrow> u32 \<Rightarrow> asm list option" where
  "code_block P 0 a = None"
| "code_block P (Suc n) a =
     (case P a of
        None \<Rightarrow> None
      | Some x \<Rightarrow> if straight x then map_option ((#) x) (code_block P n (a + 4)) else Some [x])"

lemma code_block_ok:
  assumes "code_block P n a = Some as"
  shows "as \<noteq> [] \<and> list_all straight (butlast as) \<and> \<not> straight (last as) \<and> length as \<le> n
    \<and> (\<forall>k < length as. P (a + 4 * of_nat k) = Some (as ! k))"
  using assms
proof (induction n arbitrary: a as)
  case (Suc n)
  then obtain x where x: "P a = Some x" by (auto split: option.splits)
  show ?case
  proof (cases "straight x")
    case True
    with Suc.prems x obtain bs where bs: "code_block P n (a + 4) = Some bs" "as = x # bs" by auto
    from Suc.IH[OF bs(1)] have IH: "bs \<noteq> []" "list_all straight (butlast bs)" "\<not> straight (last bs)" "length bs \<le> n"
      "\<forall>k < length bs. P (a + 4 + 4 * of_nat k) = Some (bs ! k)" by auto
    have "P (a + 4 * of_nat k) = Some (as ! k)" if "k < length as" for k
      using that IH(5) x bs(2) by (cases k) (auto simp: algebra_simps)
    with IH True bs(2) show ?thesis by auto
  next
    case False
    with Suc.prems x show ?thesis by auto
  qed
qed simp

text \<open>A program the emulator can run: instructions of the reference, in scratchpad memory, with blocks of at
  most 256 instructions.\<close>

definition prog_ok :: "program \<Rightarrow> bool" where
  "prog_ok P \<longleftrightarrow> (\<forall>a x. P a = Some x \<longrightarrow> asm_ok x \<and> load_ok x \<and> a < 0x17FFFD \<and> code_block P 256 a \<noteq> None)"

definition loaded :: "program \<Rightarrow> region \<Rightarrow> bool" where
  "loaded P m \<longleftrightarrow> (\<forall>a x. P a = Some x \<longrightarrow> ld32 m a = encode x)"

text \<open>Whatever the program reaches, it goes on: there is an instruction, it does not fault, it accesses plain
  memory, and the program is still in memory.\<close>

definition goes_on :: "program \<Rightarrow> int \<Rightarrow> isa \<Rightarrow> bool" where
  "goes_on P cid s \<longleftrightarrow> loaded P (imem s) \<and> (\<exists>a s'. P (ipc s) = Some a \<and> isa_step a s = Done s'
     \<and> (\<forall>x. isa_addr a s = Some x \<longrightarrow> plain_addr cid x))"

definition runs_on :: "program \<Rightarrow> int \<Rightarrow> isa \<Rightarrow> bool" where
  "runs_on P cid s \<longleftrightarrow> (\<forall>n s'. isa_steps P n s = Some s' \<longrightarrow> goes_on P cid s')"

lemma runs_on_goes_on: "runs_on P cid s \<Longrightarrow> goes_on P cid s"
  by (auto simp: runs_on_def dest: spec[of _ 0])

lemma runs_on_steps: "runs_on P cid s \<Longrightarrow> isa_steps P n s = Some s' \<Longrightarrow> runs_on P cid s'"
  using isa_steps_add unfolding runs_on_def by metis

lemma straight_pc: "straight a \<Longrightarrow> isa_step a s = Done s' \<Longrightarrow> ipc s' = ipc s + 4"
  by (cases a) (auto simp: step4_def wr_def Let_def split: if_splits)

text \<open>A block of the program runs to its end.\<close>

lemma block_runs:
  assumes "code_block P n (ipc s) = Some as" "runs_on P cid s"
  shows "\<exists>s'. isa_run as s = Done s' \<and> isa_steps P (length as) s = Some s' \<and> run_within (plain_addr cid) as s"
  using assms
proof (induction n arbitrary: s as)
  case (Suc n)
  from runs_on_goes_on[OF Suc.prems(2)] obtain a s1 where a: "P (ipc s) = Some a" "isa_step a s = Done s1"
    "\<forall>x. isa_addr a s = Some x \<longrightarrow> plain_addr cid x" by (auto simp: goes_on_def)
  show ?case
  proof (cases "straight a")
    case False
    with Suc.prems(1) a show ?thesis by (auto split: option.splits)
  next
    case True
    with Suc.prems(1) a obtain bs where bs: "code_block P n (ipc s1) = Some bs" "as = a # bs"
      by (auto simp: straight_pc)
    have "runs_on P cid s1" using runs_on_steps[OF Suc.prems(2), of 1] a by simp
    from Suc.IH[OF bs(1) this] a bs(2) show ?thesis by (auto split: option.splits)
  qed
qed simp

section \<open>Chains of blocks of the program\<close>

definition map_runs :: "program \<Rightarrow> (u32 \<Rightarrow> (links \<times> rv_insn list) option) \<Rightarrow> bool" where
  "map_runs P C \<longleftrightarrow> (\<forall>a lk nodes. C a = Some (lk, nodes) \<longrightarrow>
     nodes \<noteq> [] \<and> chain_nodes nodes \<and> (\<exists>as. code_block P 256 a = Some as \<and> runs_isa as a nodes \<and> (free_branch as \<longrightarrow> base_branch (last nodes))))"

lemma lands_fixed: "exit_ok lk pc nodes rv out \<Longrightarrow> lands False out = Some (rv', c, pc') \<Longrightarrow> snd (fixed rv') = snd (fixed rv)"
  by (cases out) (auto simp: exit_ok_def)

text \<open>One block: as many steps of the reference as the block has instructions.\<close>

lemma block_isa:
  assumes q: "quiet_ecall (m_io (tile_ops lib u syscall))" and C: "map_runs P C" "C pc = Some (lk, nodes)"
    and rv: "tile.core_ok cid rv" "runs_on P cid (isa_of tile_bytes pc rv)"
  obtains rv1 pc1 n where "lands False (exec_nodes (tile_ops lib u syscall) lk nodes cycle pc rv) = Some (rv1, cycle + of_nat n, pc1)"
    "0 < n" "n \<le> 256" "isa_steps P n (isa_of tile_bytes pc rv) = Some (isa_of tile_bytes pc1 rv1)" "tile.core_ok cid rv1"
    "snd (fixed rv1) = snd (fixed rv)" "code_block P 256 pc \<noteq> None" "n = length (the (code_block P 256 pc))"
proof -
  let ?M = "tile_ops lib u syscall"
  from C obtain as where as: "code_block P 256 pc = Some as" "runs_isa as pc nodes" and nodes: "nodes \<noteq> []" "chain_nodes nodes"
    unfolding map_runs_def by blast
  have "code_block P 256 (ipc (isa_of tile_bytes pc rv)) = Some as" using as(1) by simp
  from block_runs[OF this rv(2)] obtain s' where
    s': "isa_run as (isa_of tile_bytes pc rv) = Done s'" "isa_steps P (length as) (isa_of tile_bytes pc rv) = Some s'"
      "run_within (plain_addr cid) as (isa_of tile_bytes pc rv)" by blast
  obtain rv1 pc1 where l: "lands False (exec_nodes ?M lk nodes cycle pc rv) = Some (rv1, cycle + of_nat (length as), pc1)"
    "isa_of tile_bytes pc1 rv1 = s'" "tile.core_ok cid rv1"
    by (rule runs_isaD[OF as(2) rv(1) s'(3,1)])
  moreover have "snd (fixed rv1) = snd (fixed rv)" by (rule lands_fixed[OF block_exit[OF q nodes(2,1)] l(1)])
  ultimately show thesis using that[of rv1 "length as" pc1] s'(2) as(1) code_block_ok[OF as(1)] by (cases as) auto
qed

lemma isa_of_end_op [simp]: "isa_of bytes pc (end_op rv c p) = isa_of bytes pc rv" "tile.core_ok cid (end_op rv' c p) = tile.core_ok cid rv'"
  by (simp_all add: isa_of_def end_op_def tile.core_ok_def)

lemma end_op_simps [simp]: "PC (end_op rv c p) = p" "csr_cycle (end_op rv c p) = c" "fixed (end_op rv c p) = fixed rv"
  by (simp_all add: end_op_def)

lemma by_pc_isa:
  assumes "by_pc (tile_ops lib u syscall) C cycle pc rv res" and q: "quiet_ecall (m_io (tile_ops lib u syscall))" and C: "map_runs P C"
    and "tile.core_ok cid rv" "runs_on P cid (isa_of tile_bytes pc rv)"
  shows "\<exists>rv' n. res = Some (True, rv') \<and> n > 0 \<and> isa_steps P n (isa_of tile_bytes pc rv) = Some (isa_of tile_bytes (PC rv') rv')
    \<and> csr_cycle rv' = cycle + of_nat n \<and> tile.core_ok cid rv' \<and> snd (fixed rv') = snd (fixed rv)"
  using assms(1,4,5)
proof (induction rule: by_pc.induct)
  case (by_pc_last pc lk nodes cycle rv)
  obtain rv1 pc1 n where l: "lands False (exec_nodes (tile_ops lib u syscall) lk nodes cycle pc rv) = Some (rv1, cycle + of_nat n, pc1)"
    "0 < n" "isa_steps P n (isa_of tile_bytes pc rv) = Some (isa_of tile_bytes pc1 rv1)" "tile.core_ok cid rv1"
    "snd (fixed rv1) = snd (fixed rv)"
    by (rule block_isa[OF q C by_pc_last(1,2,3)])
  then have "settle (exec_nodes (tile_ops lib u syscall) lk nodes cycle pc rv) = Some (True, end_op rv1 (cycle + of_nat n) pc1)"
    by (cases "exec_nodes (tile_ops lib u syscall) lk nodes cycle pc rv") (auto simp: settle_def)
  with l show ?case by (intro exI[of _ "end_op rv1 (cycle + of_nat n) pc1"] exI[of _ n]) simp
next
  case (by_pc_next pc lk nodes cycle rv rv1 c1 pc1 res)
  obtain rv2 pc2 n where l: "lands False (exec_nodes (tile_ops lib u syscall) lk nodes cycle pc rv) = Some (rv2, cycle + of_nat n, pc2)"
    "0 < n" "isa_steps P n (isa_of tile_bytes pc rv) = Some (isa_of tile_bytes pc2 rv2)" "tile.core_ok cid rv2"
    "snd (fixed rv2) = snd (fixed rv)"
    by (rule block_isa[OF q C by_pc_next(1,5,6)])
  with by_pc_next(2) have e: "rv2 = rv1" "c1 = cycle + of_nat n" "pc2 = pc1" by auto
  from by_pc_next(4) l(4) runs_on_steps[OF by_pc_next(6) l(3)] obtain k rv' where
    k: "res = Some (True, rv')" "k > 0" "isa_steps P k (isa_of tile_bytes pc1 rv1) = Some (isa_of tile_bytes (PC rv') rv')"
      "csr_cycle rv' = c1 + of_nat k" "tile.core_ok cid rv'" "snd (fixed rv') = snd (fixed rv1)"
    unfolding e by blast
  with isa_steps_add[OF l(3), of k] l(2,5) show ?case unfolding e by (intro exI[of _ rv'] exI[of _ "n + k"]) auto
qed

section \<open>Rounds of the main loop\<close>

definition core_state :: "vm \<Rightarrow> isa" where
  "core_state s = isa_of tile_bytes (PC (cpu (hart s))) (cpu (hart s))"

text \<open>A core without a coprocessor runs the program, with blocks of the program in its map.\<close>

definition running :: "program \<Rightarrow> int \<Rightarrow> vm \<Rightarrow> bool" where
  "running P cid s \<longleftrightarrow> prog_ok P \<and> linked (hart s) \<and> map_runs P (code_at (bmap (hart s))) \<and> tile.core_ok cid (cpu (hart s))
     \<and> \<not> has_tensix (cpu (hart s)) \<and> cid \<noteq> 3 \<and> runs_on P cid (core_state s)"

lemma loaded_fetch:
  assumes "loaded P (tile_bytes cid (env rv))" "prog_ok P" "P a = Some x"
  shows "on_mem_ifetch rv a = encode x"
proof -
  have "a < 0x17FFFD" using assms(2,3) by (auto simp: prog_ok_def)
  then have "a < 0x180000" "a + 1 < 0x180000" "a + 2 < 0x180000" "a + 3 < 0x180000"
    by unat_arith+
  then have "ld32 (tile_bytes cid (env rv)) a = ld32 (ram (env rv)) a" by (simp add: ld32_def tile_bytes_def)
  with assms(1,3) show ?thesis by (auto simp: on_mem_ifetch_def memory_ifetch_def loaded_def)
qed

text \<open>The block for the program counter is found, or translated and then found.\<close>

lemma find_or_translate_program:
  assumes P: "prog_ok P" "map_runs P (code_at (bmap c))" "goes_on P cid (isa_of tile_bytes (PC (cpu c)) (cpu c))"
    and c: "settled c" "tile.core_ok cid (cpu c)" "\<not> has_tensix (cpu c)" and H: "no_failure H"
  obtains b c' where "block_find_or_translate (tile_io u syscall) H c = Some (Some b, c')" "settled c'" "cpu c' = cpu c"
    "abs_map (bmap c') (PC (cpu c)) = Some b" "map_runs P (code_at (bmap c'))"
proof -
  let ?pc = "PC (cpu c)" and ?io = "tile_io u syscall :: tile riscv_io"
  have m: "chained (bmap c)" using c(1) by (simp add: settled_def linked_def)
  show thesis
  proof (cases "abs_map (bmap c) ?pc")
    case (Some b)
    then have "block_find_or_translate ?io H c = Some (Some b, c)" by (simp add: block_find_or_translate_def chained_find[OF m])
    with that[of b c] c(1) P(2) Some show ?thesis by simp
  next
    case None
    from P(3) obtain a where "P ?pc = Some a" and ld: "loaded P (tile_bytes cid (env (cpu c)))"
      using c(2) by (auto simp: goes_on_def tile.core_ok_def)
    then obtain as where as: "code_block P 256 ?pc = Some as" using P(1) by (fastforce simp: prog_ok_def)
    note ok = code_block_ok[OF as]
    have "asm_ok (as ! k) \<and> load_ok (as ! k) \<and> on_mem_ifetch (cpu c) (?pc + 4 * of_nat k) = encode (as ! k)" if "k < length as" for k
      using ok that P(1) loaded_fetch[OF ld P(1)] by (auto simp: prog_ok_def)
    moreover have "map_reachable (bmap c)" using m by (simp add: chained_def)
    ultimately have "\<exists>b c'. block_find_or_translate ?io H c = Some (Some b, c') \<and> cpu c' = cpu c \<and> map_reachable (bmap c')
        \<and> block_find (bmap c') ?pc = Some (Some b) \<and> runs_isa as ?pc (irs b) \<and> (free_branch as \<longrightarrow> base_branch (last (irs b)))"
      using ok c(2,3) None by (intro find_or_translate_runs[OF H]) (auto simp: list_all_length tile.core_ok_def chained_find[OF m])
    then obtain b c' where f: "block_find_or_translate ?io H c = Some (Some b, c')" "runs_isa as ?pc (irs b)"
      "free_branch as \<longrightarrow> base_branch (last (irs b))" by blast
    from find_or_translate_settled[OF c(1) f(1)] have c': "settled c'" "cpu c' = cpu c" "abs_map (bmap c') ?pc = Some b"
      "\<And>a. a \<noteq> ?pc \<Longrightarrow> abs_map (bmap c') a = None \<or> abs_map (bmap c') a = abs_map (bmap c) a" by auto
    have "block_ok (mapped (bmap c')) b" using c'(1,3) chained_lookup by (auto simp: settled_def linked_def)
    then have b: "irs b \<noteq> [] \<and> chain_nodes (irs b)" by (simp add: block_ok_def)
    have "map_runs P (code_at (bmap c'))" unfolding map_runs_def
    proof (intro allI impI)
      fix a lk nodes assume a: "code_at (bmap c') a = Some (lk, nodes)"
      show "nodes \<noteq> [] \<and> chain_nodes nodes \<and> (\<exists>as. code_block P 256 a = Some as \<and> runs_isa as a nodes \<and> (free_branch as \<longrightarrow> base_branch (last nodes)))"
      proof (cases "a = ?pc")
        case True
        with a c'(3) have "nodes = irs b" by (simp add: code_at_def)
        with True b as f(2,3) show ?thesis by simp
      next
        case False
        from c'(4)[OF False] a have "code_at (bmap c) a = Some (lk, nodes)" by (auto simp: code_at_def)
        with P(2) show ?thesis unfolding map_runs_def by blast
      qed
    qed
    with that f(1) c'(1-3) show ?thesis by blast
  qed
qed

lemma map_runs_links:
  assumes "map_runs P (code_at m)" "map_option irs \<circ> abs_map m' = map_option irs \<circ> abs_map m"
  shows "map_runs P (code_at m')"
  unfolding map_runs_def
proof (intro allI impI)
  fix a lk nodes assume "code_at m' a = Some (lk, nodes)"
  then have "map_option irs (abs_map m' a) = Some nodes" by (auto simp: code_at_def)
  moreover have "map_option irs (abs_map m' a) = map_option irs (abs_map m a)" using fun_cong[OF assms(2), of a] by simp
  ultimately obtain lk' where "code_at m a = Some (lk', nodes)" by (auto simp: code_at_def)
  with assms(1) show "nodes \<noteq> [] \<and> chain_nodes nodes \<and> (\<exists>as. code_block P 256 a = Some as \<and> runs_isa as a nodes \<and> (free_branch as \<longrightarrow> base_branch (last nodes)))"
    unfolding map_runs_def by blast
qed

text \<open>Up to the call of the block, a round changes nothing the program can see.\<close>

lemma step_round_enters:
  assumes s: "running P cid s" and H: "no_failure H"
  obtains b s' where "step_round lib u syscall H s = run_round lib u syscall b s'" "chained (bmap (hart s'))"
    "abs_map (bmap (hart s')) (PC (cpu (hart s'))) = Some b" "last_pc (cpu (hart s')) = PC (cpu (hart s'))"
    "map_runs P (code_at (bmap (hart s')))" "tile.core_ok cid (cpu (hart s'))" "core_state s' = core_state s"
    "csr_cycle (cpu (hart s')) = csr_cycle (cpu (hart s))" "halt (cpu (hart s')) = halt (cpu (hart s))" "\<not> has_tensix (cpu (hart s'))"
    "cycle_per_step s' = cycle_per_step s"
proof -
  let ?io = "tile_io u syscall :: tile riscv_io" and ?rv = "cpu (hart s)"
  have l: "linked (hart s)" and P: "prog_ok P" "map_runs P (code_at (bmap (hart s)))" "tile.core_ok cid ?rv" "\<not> has_tensix ?rv" "cid \<noteq> 3"
    "goes_on P cid (core_state s)"
    using s runs_on_goes_on by (auto simp: running_def)
  obtain c1 where c1: "update_prev (hart s) = Some c1" "settled c1" "cpu c1 = ?rv" "bmap c1 = bmap (hart s)"
    by (rule update_prev_settled[OF l])
  have k: "kernel_transition (s\<lparr>hart := c1\<rparr>) = Some (s\<lparr>hart := c1\<rparr>)"
    using P(3-5) c1(3) by (auto simp: kernel_transition_def Let_def tile.core_ok_def)
  let ?c3 = "c1\<lparr>cpu := ?rv\<lparr>pre_pc := PC ?rv\<rparr>\<rparr>"
  have c3: "settled ?c3" by (rule settled_cpu[OF c1(2)]) (simp_all add: c1(3))
  have "map_runs P (code_at (bmap ?c3))" "goes_on P cid (isa_of tile_bytes (PC (cpu ?c3)) (cpu ?c3))" "tile.core_ok cid (cpu ?c3)" "\<not> has_tensix (cpu ?c3)"
    using P c1(4) by (simp_all add: core_state_def isa_of_def tile.core_ok_def)
  from find_or_translate_program[OF P(1) this(1,2) c3 this(3,4) H, of u syscall] obtain b c4 where
    f: "block_find_or_translate ?io H ?c3 = Some (Some b, c4)" and c4: "settled c4" "cpu c4 = cpu ?c3"
      "abs_map (bmap c4) (PC (cpu ?c3)) = Some b" "map_runs P (code_at (bmap c4))" by blast
  let ?t = "pc_start b"
  have m4: "chained (bmap c4)" "\<not> prev_dangles c4" using c4(1) linked_not_dangling by (auto simp: settled_def linked_def)
  have t: "?t = PC (cpu c4)" "mapped (bmap c4) ?t" using c4(2,3) chained_lookup[OF m4(1)] by (auto simp: mapped_def)
  define c5 where "c5 = (chain_prev ?t c4)\<lparr>cpu := (cpu c4)\<lparr>last_pc := ?t\<rparr>\<rparr>"
  from chain_prev_chained[OF c4(1) t] have ch: "chained (bmap (chain_prev ?t c4))" "mapped (bmap (chain_prev ?t c4)) ?t"
    "cpu (chain_prev ?t c4) = cpu c4" "map_option irs \<circ> abs_map (bmap (chain_prev ?t c4)) = map_option irs \<circ> abs_map (bmap c4)" by auto
  then obtain b' where b': "abs_map (bmap (chain_prev ?t c4)) ?t = Some b'" by (auto simp: mapped_def)
  let ?s = "(if i_pc (hd (irs b)) = exit_addr s then s\<lparr>on_exit := True\<rparr> else s)\<lparr>hart := c5\<rparr>"
  have "step_round lib u syscall H s = run_round lib u syscall b' ?s"
    using linked_not_dangling[OF l] c1(1) k f m4(2) b' ch(3) t(1)
    by (simp add: step_round_def Let_def c1(3) c5_def if_distrib[of "\<lambda>x. x\<lparr>hart := _\<rparr>"] if_distrib[of exit_addr] cong: if_cong)
  moreover have "map_runs P (code_at (bmap c5))" using map_runs_links[OF c4(4) ch(4)] by (simp add: c5_def)
  ultimately show thesis
    using that[of b' ?s] ch b' t(1) P(3,4) c4(2) by (simp add: c5_def core_state_def isa_of_def tile.core_ok_def)
qed

lemma round_isa:
  assumes q: "\<And>rv. last_pc (syscall rv) = last_pc rv" and s: "running P cid s" and H: "no_failure H"
    and r: "step_round lib u syscall H s = Some r"
  shows "\<exists>s' n. r = Again s' \<and> running P cid s' \<and> 0 < n \<and> isa_steps P n (core_state s) = Some (core_state s')
    \<and> csr_cycle (cpu (hart s')) = csr_cycle (cpu (hart s)) + of_nat n \<and> halt (cpu (hart s')) = halt (cpu (hart s))"
proof -
  obtain b s1 where s1: "step_round lib u syscall H s = run_round lib u syscall b s1" "chained (bmap (hart s1))"
    "abs_map (bmap (hart s1)) (PC (cpu (hart s1))) = Some b" "last_pc (cpu (hart s1)) = PC (cpu (hart s1))"
    "map_runs P (code_at (bmap (hart s1)))" "tile.core_ok cid (cpu (hart s1))" "core_state s1 = core_state s"
    "csr_cycle (cpu (hart s1)) = csr_cycle (cpu (hart s))" "halt (cpu (hart s1)) = halt (cpu (hart s))" "\<not> has_tensix (cpu (hart s1))"
    by (rule step_round_enters[OF s H])
  let ?rv = "cpu (hart s1)" and ?M = "tile_ops lib u syscall"
  have run: "run_round lib u syscall b s1 = Some r" using r s1(1) by simp
  then obtain out where out: "exec_block ?M (bmap (hart s1)) b (csr_cycle ?rv) (PC ?rv) ?rv = Some out"
    by (auto simp: run_round_def Let_def)
  have f: "follows ?M (bmap (hart s1)) (csr_cycle ?rv) (PC ?rv) ?rv out"
    by (rule exec_block_follows[OF quiet_tile[OF q] out s1(2,3)]) (simp add: entered_def s1(4))
  have on: "runs_on P cid (isa_of tile_bytes (PC ?rv) ?rv)" using s s1(7) by (simp add: running_def core_state_def)
  note isa = by_pc_isa[OF _ quiet_tile[OF q] s1(5,6) on]
  obtain ok m' rv' where "out = Ran ok m' rv'"
  proof (cases out)
    case Dangling
    with f show ?thesis by (simp add: follows_def)
  next
    case Aborted
    with f have "by_pc ?M (code_at (bmap (hart s1))) (csr_cycle ?rv) (PC ?rv) ?rv None" by (simp add: follows_def)
    from isa[OF this] show ?thesis by simp
  qed (rule that)
  with f have "by_pc ?M (code_at (bmap (hart s1))) (csr_cycle ?rv) (PC ?rv) ?rv (Some (ok, rv'))" "code_at m' = code_at (bmap (hart s1))"
    by (simp_all add: follows_def)
  from isa[OF this(1)] this(2) \<open>out = _\<close> obtain n where o: "out = Ran True m' rv'" "code_at m' = code_at (bmap (hart s1))" "0 < n"
    "isa_steps P n (isa_of tile_bytes (PC ?rv) ?rv) = Some (isa_of tile_bytes (PC rv') rv')" "csr_cycle rv' = csr_cycle ?rv + of_nat n"
    "tile.core_ok cid rv'" "snd (fixed rv') = snd (fixed ?rv)"
    by (elim exE conjE) simp
  then have nt: "\<not> has_tensix rv'" "halt rv' = halt ?rv" using s1(10) by (simp_all add: fixed_def)
  let ?s = "s1\<lparr>hart := (hart s1)\<lparr>cpu := rv', bmap := m', prev := Some (pc_start b)\<rparr>\<rparr>"
  have r': "r = Again ?s" using run out o(1) nt by (simp add: run_round_def Let_def)
  have st: "isa_steps P n (core_state s) = Some (core_state ?s)" using o(4) s1(7) by (simp add: core_state_def)
  have "linked (hart ?s)" using run_round_linked[OF q run s1(2-4)] r' by blast
  moreover have "runs_on P cid (core_state ?s)" using s st by (auto simp: running_def intro: runs_on_steps)
  ultimately have "running P cid ?s" using s s1(5) o nt by (simp add: running_def)
  with r' st o(3,5) s1(8,9) nt show ?thesis by (intro exI[of _ ?s] exI[of _ n]) simp
qed

lemma loop_isa:
  assumes q: "\<And>rv. last_pc (syscall rv) = last_pc rv" and "running P cid s" "\<And>n. no_failure (H n)"
    and ret: "step_loop lib u syscall H target k s = Some r"
  shows "\<exists>s' n. r = Stepped s' \<and> running P cid s' \<and> isa_steps P n (core_state s) = Some (core_state s')
    \<and> csr_cycle (cpu (hart s')) = csr_cycle (cpu (hart s)) + of_nat n \<and> halt (cpu (hart s')) = halt (cpu (hart s))
    \<and> (halt (cpu (hart s)) \<or> target \<le> csr_cycle (cpu (hart s')))"
proof -
  let ?Q = "\<lambda>s target r. \<exists>s' n. r = Stepped s' \<and> running P cid s' \<and> isa_steps P n (core_state s) = Some (core_state s')
    \<and> csr_cycle (cpu (hart s')) = csr_cycle (cpu (hart s)) + of_nat n \<and> halt (cpu (hart s')) = halt (cpu (hart s))
    \<and> (halt (cpu (hart s)) \<or> target \<le> csr_cycle (cpu (hart s')))"
  let ?R = "\<lambda>lib u sc H target k s r. sc = syscall \<longrightarrow> (\<forall>n. no_failure (H n)) \<longrightarrow> running P cid s \<longrightarrow> ?Q s target r"
  have "?R lib u syscall H target k s r"
  proof (rule step_loop.raw_induct[where P = ?R, OF _ ret], intro impI, goal_cases)
    case (1 f lib u sc H target k s r)
    show ?case
    proof (cases "csr_cycle (cpu (hart s)) < target \<and> \<not> halt (cpu (hart s))")
      case False
      with 1 show ?thesis by (intro exI[of _ s] exI[of _ 0]) auto
    next
      case True
      with 1(2,3) obtain e where e: "step_round lib u syscall (H k) s = Some e" by (auto split: option.splits)
      from round_isa[OF q 1(5) _ e] 1(4) obtain s1 n where s1: "e = Again s1" "running P cid s1" "isa_steps P n (core_state s) = Some (core_state s1)"
        "csr_cycle (cpu (hart s1)) = csr_cycle (cpu (hart s)) + of_nat n" "halt (cpu (hart s1)) = halt (cpu (hart s))" by blast
      with True e 1(2,3) have "f lib u syscall H target (Suc k) s1 = Some r" by simp
      from 1(1)[OF this] 1(4) s1(2) have "?Q s1 target r" by blast
      then obtain s' n' where s': "r = Stepped s'" "running P cid s'" "isa_steps P n' (core_state s1) = Some (core_state s')"
        "csr_cycle (cpu (hart s')) = csr_cycle (cpu (hart s1)) + of_nat n'" "halt (cpu (hart s')) = halt (cpu (hart s1))"
        "halt (cpu (hart s1)) \<or> target \<le> csr_cycle (cpu (hart s'))" by blast
      with s1 isa_steps_add[OF s1(3), of n'] show ?thesis by (intro exI[of _ s'] exI[of _ "n + n'"]) auto
    qed
  qed
  with assms show ?thesis by blast
qed

section \<open>Chains return\<close>

text \<open>The state at the start of the \<^term>\<open>j\<close>-th basic block from here.\<close>

fun block_steps :: "program \<Rightarrow> nat \<Rightarrow> isa \<Rightarrow> isa option" where
  "block_steps P 0 s = Some s"
| "block_steps P (Suc j) s = (case code_block P 256 (ipc s) of
     None \<Rightarrow> None
   | Some as \<Rightarrow> (case isa_steps P (length as) s of None \<Rightarrow> None | Some s' \<Rightarrow> block_steps P j s'))"

text \<open>Within \<^term>\<open>N\<close> blocks from every state there is one that ends with a branch on a register it has not
  written.\<close>

definition branching :: "program \<Rightarrow> isa \<Rightarrow> bool" where
  "branching P s \<longleftrightarrow> (case code_block P 256 (ipc s) of None \<Rightarrow> False | Some as \<Rightarrow> free_branch as)"

definition keeps_branching :: "program \<Rightarrow> nat \<Rightarrow> isa \<Rightarrow> bool" where
  "keeps_branching P N s \<longleftrightarrow> (\<forall>n s'. isa_steps P n s = Some s' \<longrightarrow>
     (\<exists>j \<le> N. \<exists>s''. block_steps P j s' = Some s'' \<and> branching P s''))"

lemma keeps_branching_steps: "keeps_branching P N s \<Longrightarrow> isa_steps P n s = Some s' \<Longrightarrow> keeps_branching P N s'"
  using isa_steps_add unfolding keeps_branching_def by metis

lemma chain_returns:
  assumes q: "quiet_ecall (m_io (tile_ops lib u syscall))" and "chained m" "map_runs P (code_at m)" "abs_map m pc = Some b" "entered m pc rv"
    and "tile.core_ok cid rv" "runs_on P cid (isa_of tile_bytes pc rv)"
    and "block_steps P j (isa_of tile_bytes pc rv) = Some s" "branching P s"
  shows "\<exists>m' rv' n. exec_block (tile_ops lib u syscall) m b cycle pc rv = Some (Ran True m' rv')
    \<and> 0 < n \<and> n \<le> 256 * Suc j \<and> csr_cycle rv' = cycle + of_nat n"
  using assms(2-9)
proof (induction j arbitrary: m b cycle pc rv)
  case (0 m b cycle pc rv)
  have code: "code_at m pc = Some (tail_links b, irs b)" by (simp add: code_at_def 0(3))
  obtain rv1 pc1 n where l: "lands False (exec_nodes (tile_ops lib u syscall) (tail_links b) (irs b) cycle pc rv) = Some (rv1, cycle + of_nat n, pc1)"
    "0 < n" "n \<le> 256"
    by (rule block_isa[OF q 0(2) code 0(5,6)])
  have "base_branch (last (irs b))"
    using 0(2,7,8) code unfolding map_runs_def by (fastforce simp: branching_def)
  with exec_block_cases[OF q 0(1,3,4) l(1)]
  have "exec_block (tile_ops lib u syscall) m b cycle pc rv = Some (Ran True m (end_op rv1 (cycle + of_nat n) pc1))" by blast
  with l show ?case by auto
next
  case (Suc j m b cycle pc rv)
  have code: "code_at m pc = Some (tail_links b, irs b)" by (simp add: code_at_def Suc(4))
  obtain rv1 pc1 n where l: "lands False (exec_nodes (tile_ops lib u syscall) (tail_links b) (irs b) cycle pc rv) = Some (rv1, cycle + of_nat n, pc1)"
    "0 < n" "n \<le> 256" "isa_steps P n (isa_of tile_bytes pc rv) = Some (isa_of tile_bytes pc1 rv1)" "tile.core_ok cid rv1"
    "code_block P 256 pc \<noteq> None" "n = length (the (code_block P 256 pc))"
    by (rule block_isa[OF q Suc(3) code Suc(6,7)])
  show ?case
  proof (cases rule: exec_block_cases[OF q Suc(2,4,5) l(1)])
    case 1
    with l show ?thesis by (intro exI[of _ m] exI[of _ "end_op rv1 (cycle + of_nat n) pc1"] exI[of _ n]) simp
  next
    case calls: (2 m1 b1)
    have "block_steps P j (isa_of tile_bytes pc1 rv1) = Some s" using Suc(8) l(4,6,7) by auto
    from Suc.IH[OF calls(2) _ calls(4,5) l(5) runs_on_steps[OF Suc(7) l(4)] this Suc(9), of "cycle + of_nat n"] Suc(3) calls(1,3)
    obtain m' rv' k where "exec_block (tile_ops lib u syscall) m b cycle pc rv = Some (Ran True m' rv')"
      "0 < k" "k \<le> 256 * Suc j" "csr_cycle rv' = cycle + of_nat n + of_nat k" by auto
    with l(2,3) show ?thesis by (intro exI[of _ m'] exI[of _ rv'] exI[of _ "n + k"]) auto
  qed
qed

lemma round_returns:
  assumes q: "\<And>rv. last_pc (syscall rv) = last_pc rv" and s: "running P cid s" and H: "no_failure H"
    and k: "keeps_branching P N (core_state s)"
  obtains s' n where "step_round lib u syscall H s = Some (Again s')" "running P cid s'" "keeps_branching P N (core_state s')"
    "0 < n" "n \<le> 256 * Suc N" "csr_cycle (cpu (hart s')) = csr_cycle (cpu (hart s)) + of_nat n"
    "halt (cpu (hart s')) = halt (cpu (hart s))" "cycle_per_step s' = cycle_per_step s"
proof -
  obtain b s1 where s1: "step_round lib u syscall H s = run_round lib u syscall b s1" "chained (bmap (hart s1))"
    "abs_map (bmap (hart s1)) (PC (cpu (hart s1))) = Some b" "last_pc (cpu (hart s1)) = PC (cpu (hart s1))"
    "map_runs P (code_at (bmap (hart s1)))" "tile.core_ok cid (cpu (hart s1))" "core_state s1 = core_state s"
    "csr_cycle (cpu (hart s1)) = csr_cycle (cpu (hart s))" "\<not> has_tensix (cpu (hart s1))" "cycle_per_step s1 = cycle_per_step s"
    by (rule step_round_enters[OF s H])
  let ?rv = "cpu (hart s1)"
  obtain j t where j: "j \<le> N" "block_steps P j (core_state s1) = Some t" "branching P t"
    using k s1(7) isa_steps.simps(1) unfolding keeps_branching_def by metis
  have "entered (bmap (hart s1)) (PC ?rv) ?rv" by (simp add: entered_def s1(4))
  moreover have "runs_on P cid (isa_of tile_bytes (PC ?rv) ?rv)" using s s1(7) by (simp add: running_def core_state_def)
  ultimately obtain m' rv' n where
    e: "exec_block (tile_ops lib u syscall) (bmap (hart s1)) b (csr_cycle ?rv) (PC ?rv) ?rv = Some (Ran True m' rv')"
      "0 < n" "n \<le> 256 * Suc j" "csr_cycle rv' = csr_cycle ?rv + of_nat n"
    using chain_returns[OF quiet_tile[OF q] s1(2,5,3) _ s1(6)] j(2,3) unfolding core_state_def by blast
  then have r: "step_round lib u syscall H s = Some (Again (s1\<lparr>hart := (hart s1)\<lparr>cpu := (if has_tensix rv' \<and> 0 \<le> core_id rv' \<and> core_id rv' \<le> 2
      then rv'\<lparr>env := (env rv')\<lparr>tcop := snd (tensix_step u (tcop (env rv')) (core_id rv'))\<rparr>\<rparr> else rv'), bmap := m', prev := Some (pc_start b)\<rparr>\<rparr>))"
    (is "_ = Some (Again ?s)") using s1(1) by (simp add: run_round_def Let_def)
  from round_isa[OF q s H r] obtain i where i: "running P cid ?s" "isa_steps P i (core_state s) = Some (core_state ?s)"
    "halt (cpu (hart ?s)) = halt (cpu (hart s))" by blast
  have "csr_cycle (cpu (hart ?s)) = csr_cycle (cpu (hart s)) + of_nat n" using e(4) s1(8) by simp
  moreover have "n \<le> 256 * Suc N" using e(3) j(1) by simp
  moreover have "cycle_per_step ?s = cycle_per_step s" using s1(10) by simp
  ultimately show thesis using that[OF r i(1) keeps_branching_steps[OF k i(2)] e(2)] i(3) by blast
qed

lemma loop_returns:
  assumes q: "\<And>rv. last_pc (syscall rv) = last_pc rv" and H: "\<And>n. no_failure (H n)" and t: "unat target + 256 * Suc N < 2 ^ 64"
    and "running P cid s" "keeps_branching P N (core_state s)"
  shows "\<exists>s'. step_loop lib u syscall H target k s = Some (Stepped s') \<and> running P cid s' \<and> keeps_branching P N (core_state s')
    \<and> halt (cpu (hart s')) = halt (cpu (hart s)) \<and> cycle_per_step s' = cycle_per_step s
    \<and> unat (csr_cycle (cpu (hart s'))) \<le> max (unat (csr_cycle (cpu (hart s)))) (unat target + 256 * Suc N)"
  using assms(4,5)
proof (induction "unat target - unat (csr_cycle (cpu (hart s)))" arbitrary: s k rule: less_induct)
  case less
  show ?case
  proof (cases "csr_cycle (cpu (hart s)) < target \<and> \<not> halt (cpu (hart s))")
    case False
    with less.prems show ?thesis by (subst step_loop.simps) auto
  next
    case True
    obtain s1 n where s1: "step_round lib u syscall (H k) s = Some (Again s1)" "running P cid s1" "keeps_branching P N (core_state s1)"
      "0 < n" "n \<le> 256 * Suc N" "csr_cycle (cpu (hart s1)) = csr_cycle (cpu (hart s)) + of_nat n"
      "halt (cpu (hart s1)) = halt (cpu (hart s))" "cycle_per_step s1 = cycle_per_step s"
      by (rule round_returns[OF q less.prems(1) H less.prems(2)])
    have lt: "unat (csr_cycle (cpu (hart s))) < unat target" using True by (simp add: word_less_nat_alt)
    then have cyc: "unat (csr_cycle (cpu (hart s1))) = unat (csr_cycle (cpu (hart s))) + n"
      using s1(5,6) t by (simp add: unat_word_ariths unat_of_nat)
    then have "unat target - unat (csr_cycle (cpu (hart s1))) < unat target - unat (csr_cycle (cpu (hart s)))"
      using lt s1(4) by simp
    from less.hyps[OF this s1(2,3), of "Suc k"] obtain s' where
      "step_loop lib u syscall H target (Suc k) s1 = Some (Stepped s')" "running P cid s'" "keeps_branching P N (core_state s')"
      "halt (cpu (hart s')) = halt (cpu (hart s1))" "cycle_per_step s' = cycle_per_step s1"
      "unat (csr_cycle (cpu (hart s'))) \<le> max (unat (csr_cycle (cpu (hart s1)))) (unat target + 256 * Suc N)" by blast
    moreover have "unat (csr_cycle (cpu (hart s1))) \<le> unat target + 256 * Suc N" using cyc lt s1(5) by linarith
    ultimately show ?thesis using True s1(1,7,8) by (subst step_loop.simps) (simp add: max_def)
  qed
qed

lemma step_returns:
  assumes "\<And>rv. last_pc (syscall rv) = last_pc rv" "\<And>n. no_failure (H n)" "running P cid s"
    and "keeps_branching P N (core_state s)"
    and "unat (csr_cycle (cpu (hart s))) + unat (cycle_per_step s) + 256 * Suc N < 2 ^ 64"
  shows "\<exists>s'. rv_step lib u syscall H s = Some (Stepped s') \<and> running P cid s' \<and> keeps_branching P N (core_state s')
    \<and> halt (cpu (hart s')) = halt (cpu (hart s)) \<and> cycle_per_step s' = cycle_per_step s
    \<and> unat (csr_cycle (cpu (hart s'))) \<le> unat (csr_cycle (cpu (hart s))) + unat (cycle_per_step s) + 256 * Suc N"
proof -
  let ?target = "csr_cycle (cpu (hart s)) + ucast (cycle_per_step s)"
  have "unat ?target \<le> unat (csr_cycle (cpu (hart s))) + unat (ucast (cycle_per_step s) :: u64)" by (simp add: unat_word_ariths)
  moreover have "unat (ucast (cycle_per_step s) :: u64) \<le> unat (cycle_per_step s)"
    by (simp add: unsigned_ucast_eq take_bit_nat_less_eq_self)
  ultimately have t: "unat ?target \<le> unat (csr_cycle (cpu (hart s))) + unat (cycle_per_step s)" by linarith
  then have "unat ?target + 256 * Suc N < 2 ^ 64" using assms(5) by linarith
  from loop_returns[where H = H, OF assms(1,2) this assms(3,4), of lib u 0] t show ?thesis
    unfolding rv_step_def by (elim exE conjE) (simp add: max_def split: if_splits)
qed

section \<open>The program on the main loop\<close>

text \<open>C1: \<^verbatim>\<open>rv_step\<close> executes the program.  Let a core without coprocessor (not NCRISC) stand at an RV32IM program
  in scratchpad memory that goes on without faults, changes to its own code or accesses to device registers,
  with basic blocks of at most 256 instructions, and let the blocks in its map be blocks of this program, as
  they are when the map is new.  If \<^verbatim>\<open>rv_step\<close> returns - it translates, folds, fuses, caches, evicts and chains
  blocks - then registers, memory and program counter are those of the reference machine after some number of
  instructions, the cycle counter has advanced by that number, the cycle target is reached unless the core was
  halted, and the next call can rely on the same.  Host allocations succeed, and the host's
  system-call handler does not write \<^verbatim>\<open>last_pc\<close>.\<close>

theorem rv_step_executes_program:
  assumes "\<And>rv. last_pc (syscall rv) = last_pc rv" "\<And>n. no_failure (H n)" "running P cid s"
    and "rv_step lib u syscall H s = Some r"
  shows "\<exists>s' n. r = Stepped s' \<and> running P cid s' \<and> isa_steps P n (core_state s) = Some (core_state s')
    \<and> csr_cycle (cpu (hart s')) = csr_cycle (cpu (hart s)) + of_nat n
    \<and> (halt (cpu (hart s)) \<or> csr_cycle (cpu (hart s)) + ucast (cycle_per_step s) \<le> csr_cycle (cpu (hart s')))"
  using loop_isa[OF assms(1,3,2) assms(4)[unfolded rv_step_def]] by blast

text \<open>C2: \<^verbatim>\<open>rv_step\<close> returns.  On such a program, if from every state it reaches there are at most \<^verbatim>\<open>N\<close> basic blocks
  to one that ends with a conditional branch on a register the block has not written, and the 64-bit
  cycle counter does not wrap, \<^verbatim>\<open>rv_step\<close> returns, and so does every later call on such a core: chained blocks always come
  back to the loop, and every round advances the cycle counter towards the target.\<close>

theorem rv_step_returns:
  assumes "\<And>rv. last_pc (syscall rv) = last_pc rv" "\<And>n. no_failure (H n)" "running P cid s"
    and "keeps_branching P N (core_state s)"
    and "unat (csr_cycle (cpu (hart s))) + unat (cycle_per_step s) + 256 * Suc N < 2 ^ 64"
  shows "\<exists>s'. rv_step lib u syscall H s = Some (Stepped s') \<and> running P cid s' \<and> keeps_branching P N (core_state s')"
  using step_returns[where H = H, OF assms(1,2,3,4,5)] by blast

section \<open>Rings of jumps\<close>

text \<open>Blocks of one direct jump each, linked to one another.\<close>

definition jump_ring :: "block_map \<Rightarrow> u32 set \<Rightarrow> bool" where
  "jump_ring m A \<longleftrightarrow> (\<forall>a \<in> A. \<exists>b ir t. abs_map m a = Some b \<and> irs b = [ir] \<and> i_opcode ir = Base rv_insn_jal \<and> \<not> i_mailbox ir
     \<and> branch_taken (tail_links b) = Some t \<and> t \<in> A)"

lemma jump_ring_calls:
  assumes "jump_ring m A" "a \<in> A" "abs_map m a = Some b"
  obtains t b' c rv' pc' where "t \<in> A" "abs_map m t = Some b'" "exec_nodes M (tail_links b) (irs b) cycle pc rv = Tail t rv' c pc'"
proof -
  from assms obtain ir t where b: "irs b = [ir]" "i_opcode ir = Base rv_insn_jal" "\<not> i_mailbox ir"
    "branch_taken (tail_links b) = Some t" "t \<in> A" by (fastforce simp: jump_ring_def)
  obtain b' where "abs_map m t = Some b'" using assms(1) b(5) by (auto simp: jump_ring_def)
  with b show thesis using that by (simp add: impl_def do_jal_def RVOP_def jump_taken_def)
qed

text \<open>C11: a loop of chained direct jumps never comes back.  Once the blocks of such a loop - the idle loop \<^verbatim>\<open>j .\<close>
  that firmware ends with is one - are linked, calling one of them does not return, whatever the state of the machine
  and its cycle counter: \<^verbatim>\<open>rv_step\<close> gets no chance to look at its cycle target or at \<^verbatim>\<open>halt\<close>.\<close>

theorem jump_ring_never_returns:
  assumes "jump_ring m A" "a \<in> A" "abs_map m a = Some b"
  shows "exec_block M m b cycle pc rv = None"
proof (rule ccontr)
  assume "exec_block M m b cycle pc rv \<noteq> None"
  then obtain r where ret: "exec_block M m b cycle pc rv = Some r" by blast
  let ?P = "\<lambda>M m' b cycle pc rv r. m' = m \<longrightarrow> (\<forall>a \<in> A. abs_map m a \<noteq> Some b)"
  have "?P M m b cycle pc rv r"
  proof (rule exec_block.raw_induct[where P = ?P, OF _ ret], intro impI ballI notI, goal_cases)
    case (1 f M m' b cycle pc rv r a)
    obtain t b' c rv' pc' where t: "t \<in> A" "abs_map m t = Some b'" "exec_nodes M (tail_links b) (irs b) cycle pc rv = Tail t rv' c pc'"
      by (rule jump_ring_calls[OF assms(1) 1(4,5)])
    with 1(2,3) have "f M m b' c pc' rv' = Some r" by simp
    from 1(1)[OF this] t show False by blast
  qed
  with assms(2,3) show False by blast
qed

section \<open>An example\<close>

text \<open>A counter: \<^verbatim>\<open>addi x5, x5, 1; bne x5, x6, .-4; j .-8\<close> at address 0x100.\<close>

definition count_prog :: program where
  "count_prog = [0x100 \<mapsto> OpImm rv_insn_addi 5 5 1, 0x104 \<mapsto> Branch rv_insn_bne 5 6 0x1FFC, 0x108 \<mapsto> Jal 0 0x1FFFF8]"

definition count_tile :: tile where
  "count_tile = upd_mem (\<lambda>m. m\<lparr>l1_scratchpad :=
     st32 (st32 (st32 (\<lambda>_. 0) 0x100 0x00128293) 0x104 0xFE629EE3) 0x108 0xFF9FF06F\<rparr>) demo_tile"

definition count_vm :: vm where
  "count_vm = code_vm\<lparr>hart := code_core\<lparr>cpu := (zero_riscv count_tile)\<lparr>PC := 0x100\<rparr>\<rparr>, cycle_per_step := 1000\<rparr>"

lemma count_prog_cases: "count_prog a = Some x \<longleftrightarrow> a = 0x100 \<and> x = OpImm rv_insn_addi 5 5 1
    \<or> a = 0x104 \<and> x = Branch rv_insn_bne 5 6 0x1FFC \<or> a = 0x108 \<and> x = Jal 0 0x1FFFF8"
  by (auto simp: count_prog_def)

lemma count_prog_at [simp]: "count_prog 0x100 = Some (OpImm rv_insn_addi 5 5 1)" "count_prog 0x104 = Some (Branch rv_insn_bne 5 6 0x1FFC)"
  "count_prog 0x108 = Some (Jal 0 0x1FFFF8)"
  by (simp_all add: count_prog_def)

lemma code_block_numeral: "code_block P (numeral v) a = (case P a of
     None \<Rightarrow> None
   | Some x \<Rightarrow> if straight x then map_option ((#) x) (code_block P (pred_numeral v) (a + 4)) else Some [x])"
  by (simp add: numeral_eq_Suc)

lemma count_block [simp]: "code_block count_prog 256 0x100 = Some [OpImm rv_insn_addi 5 5 1, Branch rv_insn_bne 5 6 0x1FFC]"
  "code_block count_prog 256 0x104 = Some [Branch rv_insn_bne 5 6 0x1FFC]" "code_block count_prog 256 0x108 = Some [Jal 0 0x1FFFF8]"
  by (simp_all add: code_block_numeral)

lemma count_prog_ok: "prog_ok count_prog"
  by (auto simp: prog_ok_def count_prog_cases asm_tables)

definition counting :: "isa \<Rightarrow> bool" where
  "counting s \<longleftrightarrow> ipc s \<in> {0x100, 0x104, 0x108} \<and> loaded count_prog (imem s)"

lemma counting_step: "counting s \<Longrightarrow> \<exists>a s'. count_prog (ipc s) = Some a \<and> isa_step a s = Done s' \<and> isa_addr a s = None \<and> counting s'"
  by (auto simp: counting_def step4_def wr_def)

lemma counting_steps: "counting s \<Longrightarrow> isa_steps count_prog n s = Some s' \<Longrightarrow> counting s'"
proof (induction n arbitrary: s)
  case (Suc n)
  from counting_step[OF Suc.prems(1)] obtain a s1 where "count_prog (ipc s) = Some a" "isa_step a s = Done s1" "counting s1" by blast
  with Suc show ?case by simp
qed simp

lemma counting_runs_on: "counting s \<Longrightarrow> runs_on count_prog cid s"
  unfolding runs_on_def
proof (intro allI impI)
  fix n s' assume "counting s" "isa_steps count_prog n s = Some s'"
  then have c: "counting s'" by (rule counting_steps)
  from counting_step[OF c] c show "goes_on count_prog cid s'" by (auto simp: goes_on_def counting_def)
qed

lemma counting_branches: "counting s \<Longrightarrow> keeps_branching count_prog 1 s"
  unfolding keeps_branching_def
proof (intro allI impI)
  fix n s' assume "counting s" "isa_steps count_prog n s = Some s'"
  then have "counting s'" by (rule counting_steps)
  then have "ipc s' \<in> {0x100, 0x104, 0x108}" by (simp add: counting_def)
  then consider "ipc s' \<in> {0x100, 0x104}" | "ipc s' = 0x108" by auto
  then show "\<exists>j \<le> 1. \<exists>s''. block_steps count_prog j s' = Some s'' \<and> branching count_prog s''"
  proof cases
    case 1
    then show ?thesis by (intro exI[of _ 0]) (auto simp: branching_def free_branch_def)
  next
    case 2
    then show ?thesis by (intro exI[of _ "Suc 0"]) (auto simp: branching_def free_branch_def wr_def)
  qed
qed

lemma count_vm_facts: "hart count_vm = code_core\<lparr>cpu := (zero_riscv count_tile)\<lparr>PC := 0x100\<rparr>\<rparr>" "cycle_per_step count_vm = 1000"
  by (simp_all add: count_vm_def)

lemma count_vm_counting: "counting (core_state count_vm)"
proof -
  have m: "ram count_tile x = st32 (st32 (st32 (\<lambda>_. 0) 0x100 0x00128293) 0x104 0xFE629EE3) 0x108 0xFF9FF06F x" if "x < 0x200000" for x
    using that by (simp add: ram_def count_tile_def upd_mem_def upd_core_def demo_tile_def)
  have e: "encode (OpImm rv_insn_addi 5 5 1) = 0x00128293" "encode (Branch rv_insn_bne 5 6 0x1FFC) = 0xFE629EE3"
    "encode (Jal 0 0x1FFFF8) = 0xFF9FF06F" by code_simp+
  have ld: "ld32 (ram count_tile) 0x100 = 0x00128293" "ld32 (ram count_tile) 0x104 = 0xFE629EE3" "ld32 (ram count_tile) 0x108 = 0xFF9FF06F"
    by (simp_all add: m ld32_def st32_def)
  have "ld32 (tile_bytes 0 count_tile) a = ld32 (ram count_tile) a" if "a \<in> {0x100, 0x104, 0x108}" for a
    using that by (elim insertE emptyE) (simp_all only: ld32_def tile_bytes_def, simp_all)
  with e ld have "loaded count_prog (tile_bytes 0 count_tile)" by (simp add: loaded_def count_prog_cases)
  then show ?thesis by (simp add: counting_def core_state_def isa_of_def count_vm_facts zero_riscv_def)
qed

lemma count_vm_running: "running count_prog 0 count_vm"
proof -
  have "linked (hart count_vm)" by (simp add: linked_def count_vm_facts code_core_facts chained_init)
  moreover have "abs_map (bmap (hart count_vm)) = Map.empty" using map_init_ok by (simp add: count_vm_facts code_core_facts)
  then have "map_runs count_prog (code_at (bmap (hart count_vm)))" by (simp add: map_runs_def code_at_def)
  moreover have "tile.core_ok 0 (cpu (hart count_vm))"
    by (simp add: tile.core_ok_def count_vm_facts zero_riscv_def tile_ok_def count_tile_def upd_mem_def demo_tile_def)
  ultimately show ?thesis
    using count_prog_ok counting_runs_on[OF count_vm_counting] by (simp add: running_def count_vm_facts zero_riscv_def)
qed

lemma demo_host_ok [simp]: "no_failure demo_host"
  by (simp add: no_failure_def demo_host_def)

lemma count_vm_returns: "\<exists>s'. rv_step zero_softfloat idle_unit (\<lambda>rv. rv) (\<lambda>_. demo_host) count_vm = Some (Stepped s')"
  using loop_returns[of "\<lambda>rv. rv" "\<lambda>_. demo_host" 1000 1, OF _ _ _ count_vm_running counting_branches[OF count_vm_counting]]
  by (simp add: rv_step_def count_vm_facts zero_riscv_def) blast

text \<open>The firmware's idle loop, linked to itself.\<close>

definition idle_block :: block where
  "idle_block = block_alloc\<lparr>n_insn := 1, pc_start := 0x100, irs := [(denote (Jal 0 0))\<lparr>i_pc := 0x100\<rparr>],
     tail_links := \<lparr>branch_taken = Some 0x100, branch_untaken = None\<rparr>\<rparr>"

lemma idle_block_start: "pc_start idle_block = 0x100"
  by (simp add: idle_block_def)

theorem rv_step_executes_program_witness:
  "\<exists>s' n. rv_step zero_softfloat idle_unit (\<lambda>rv. rv) (\<lambda>_. demo_host) count_vm = Some (Stepped s')
    \<and> isa_steps count_prog n (core_state count_vm) = Some (core_state s') \<and> csr_cycle (cpu (hart s')) = of_nat n
    \<and> 1000 \<le> csr_cycle (cpu (hart s'))"
proof -
  note facts = count_vm_facts zero_riscv_def
  obtain s' where s': "rv_step zero_softfloat idle_unit (\<lambda>rv. rv) (\<lambda>_. demo_host) count_vm = Some (Stepped s')"
    using count_vm_returns by blast
  have "\<exists>t n. Stepped s' = Stepped t \<and> running count_prog 0 t \<and> isa_steps count_prog n (core_state count_vm) = Some (core_state t)
    \<and> csr_cycle (cpu (hart t)) = csr_cycle (cpu (hart count_vm)) + of_nat n
    \<and> (halt (cpu (hart count_vm)) \<or> csr_cycle (cpu (hart count_vm)) + ucast (cycle_per_step count_vm) \<le> csr_cycle (cpu (hart t)))"
    by (rule rv_step_executes_program[OF _ _ count_vm_running s']) simp_all
  then show ?thesis using s' by (auto simp: facts)
qed

theorem rv_step_returns_witness:
  "\<exists>s'. rv_step zero_softfloat idle_unit (\<lambda>rv. rv) (\<lambda>_. demo_host) count_vm = Some (Stepped s') \<and> running count_prog 0 s'
    \<and> keeps_branching count_prog 1 (core_state s')"
  by (rule rv_step_returns[OF _ _ count_vm_running counting_branches[OF count_vm_counting]])
    (simp_all add: count_vm_facts zero_riscv_def)

theorem jump_ring_never_returns_witness:
  "\<exists>m. block_insert (block_map_init BLOCK_MAP_CAPACITY_BITS) idle_block = Some m
    \<and> exec_block demo_ops m idle_block 0 0x100 (zero_riscv demo_tile) = None"
proof -
  let ?m = "block_map_init BLOCK_MAP_CAPACITY_BITS"
  have "map_room ?m" by (simp add: map_room_def block_map_init_def BLOCK_MAP_CAPACITY_BITS_def)
  then obtain m where m: "block_insert ?m idle_block = Some m" "abs_map m = (abs_map ?m)(0x100 \<mapsto> idle_block)"
    using bm.ins_abs[of ?m idle_block] map_init_ok by (auto simp: idle_block_start)
  then have at: "abs_map m 0x100 = Some idle_block" by simp
  have "jump_ring m {0x100}" unfolding jump_ring_def by (simp add: at) (simp add: idle_block_def zero_insn_def)
  then have "exec_block demo_ops m idle_block 0 0x100 (zero_riscv demo_tile) = None"
    by (rule jump_ring_never_returns[OF _ _ at]) simp
  with m(1) show ?thesis by blast
qed

end
