(* ===== verification/Rv_Sim.thy ===== *)
theory Rv_Sim
  imports Rv_Program
begin

text \<open>
  The interface of the simulator, \<^verbatim>\<open>rv32sim.c\<close>: a core is created with \<^verbatim>\<open>rv32_create\<close> and run as a coroutine with
  \<^verbatim>\<open>rv32_run_co\<close>, which calls \<^verbatim>\<open>rv_step\<close> again and again and gives control away with a callback of the host, after
  every \<^verbatim>\<open>max_instructions\<close> calls and whenever the core waits for a mailbox.
\<close>

section \<open>Creating a core\<close>

text \<open>Which allocations succeed: the attributes and the memory descriptor of \<^verbatim>\<open>rv32_create\<close>; the core, the pools of blocks and of
  nodes and the table of the block map of \<^verbatim>\<open>rv_new\<close>.\<close>

record create_host =
  attr_calloc :: bool
  mem_calloc :: bool
  rv_calloc :: bool
  block_pool :: bool
  ir_pool :: bool
  map_calloc :: bool

text \<open>What comes of it: a core; a core one of whose pool pointers is \<^verbatim>\<open>NULL\<close>, which nothing tests before it is followed; \<^verbatim>\<open>NULL\<close>; a failed assertion; or an access
  through \<^verbatim>\<open>NULL\<close>.\<close>

datatype 'a created = Core 'a | Poolless 'a | Null_core | Assertion | Null_access

text \<open>The program counter must be even.  \<^verbatim>\<open>rv->tensix\<close> is a flag here: whether the core has a coprocessor.\<close>

definition rv_new :: "create_host \<Rightarrow> u32 \<Rightarrow> bool \<Rightarrow> int \<Rightarrow> 'e \<Rightarrow> 'e core created" where
  "rv_new h start tensix cid e =
     (if \<not> rv_calloc h then Null_core
      else case rv_set_pc start (zero_riscv e) of
        (False, _) \<Rightarrow> Assertion
      | (True, rv) \<Rightarrow>
          if \<not> map_calloc h then Assertion
          else
            let c = \<lparr>cpu = rv\<lparr>core_id := cid, has_tensix := tensix\<rparr>, bmap = block_map_init BLOCK_MAP_CAPACITY_BITS, prev = None\<rparr> in
            if block_pool h \<and> ir_pool h then Core c else Poolless c)"

text \<open>The memories are those of the tile, which the caller owns.  The static variable of \<^verbatim>\<open>rv_step\<close> is as the other
  cores have left it.\<close>

definition rv32_create :: "create_host \<Rightarrow> tile \<Rightarrow> u32 \<Rightarrow> int \<Rightarrow> bool \<Rightarrow> int \<Rightarrow> u32 \<Rightarrow> vm created" where
  "rv32_create h t start cycles tensix cid last_kernel =
     (if \<not> attr_calloc h \<or> \<not> mem_calloc h then Null_access
      else map_created (\<lambda>c. \<lparr>hart = c, cycle_per_step = word_of_int cycles, exit_addr = 0, on_exit = False,
             ncrisc_prev_kernel_pc = last_kernel\<rparr>) (rv_new h start tensix cid t))"

text \<open>C14: a new core is ready for its program.  The outcome of \<^verbatim>\<open>rv32_create\<close> is determined by its allocations and the start address: a failed
  allocation of its own is an access through \<^verbatim>\<open>NULL\<close>; it returns \<^verbatim>\<open>NULL\<close> if the core cannot be allocated; an odd start
  address or a block map that cannot be allocated fails an assertion; and a core without one of its pools is returned all the same.  Otherwise the reference state of
  the core has every register 0, the start address as its program counter and the bytes of the tile as its memory, with cycle counter 0 and the step size asked
  for; and if the program there goes on as described for \<^verbatim>\<open>rv_step\<close>, the core (without coprocessor and not NCRISC) is in a state from which
  \<^verbatim>\<open>rv_step\<close> executes the program.\<close>

theorem rv32_create_running:
  assumes "tile_ok t" "prog_ok P" "cid \<noteq> 3" "runs_on P cid \<lparr>ireg = (\<lambda>_. 0), ipc = start, imem = tile_bytes cid t\<rparr>"
  shows "case rv32_create h t start cycles False cid k of
      Null_access \<Rightarrow> \<not> attr_calloc h \<or> \<not> mem_calloc h
    | Null_core \<Rightarrow> attr_calloc h \<and> mem_calloc h \<and> \<not> rv_calloc h
    | Assertion \<Rightarrow> attr_calloc h \<and> mem_calloc h \<and> rv_calloc h \<and> (start AND 1 \<noteq> 0 \<or> \<not> map_calloc h)
    | Poolless s \<Rightarrow> attr_calloc h \<and> mem_calloc h \<and> rv_calloc h \<and> map_calloc h \<and> start AND 1 = 0 \<and> \<not> (block_pool h \<and> ir_pool h)
    | Core s \<Rightarrow> attr_calloc h \<and> mem_calloc h \<and> rv_calloc h \<and> map_calloc h \<and> start AND 1 = 0 \<and> block_pool h \<and> ir_pool h
        \<and> running P cid s \<and> core_state s = \<lparr>ireg = (\<lambda>_. 0), ipc = start, imem = tile_bytes cid t\<rparr>
        \<and> csr_cycle (cpu (hart s)) = 0 \<and> cycle_per_step s = word_of_int cycles \<and> \<not> halt (cpu (hart s))"
proof -
  let ?rv = "(zero_riscv t)\<lparr>PC := start, core_id := cid, has_tensix := False\<rparr>"
  let ?s = "\<lparr>hart = \<lparr>cpu = ?rv, bmap = block_map_init BLOCK_MAP_CAPACITY_BITS, prev = None\<rparr>,
         cycle_per_step = word_of_int cycles, exit_addr = 0, on_exit = False, ncrisc_prev_kernel_pc = k\<rparr> :: vm"
  have st: "core_state ?s = \<lparr>ireg = (\<lambda>_. 0), ipc = start, imem = tile_bytes cid t\<rparr>"
    by (simp add: core_state_def isa_of_def zero_riscv_def)
  have "map_runs P (code_at (block_map_init BLOCK_MAP_CAPACITY_BITS))" using map_init_ok by (simp add: map_runs_def code_at_def)
  then have "running P cid ?s"
    using assms st by (simp add: running_def linked_def chained_init tile.core_ok_def zero_riscv_def)
  moreover have "\<not> halt ?rv" "csr_cycle ?rv = 0" by (simp_all add: zero_riscv_def)
  ultimately show ?thesis using st by (simp add: rv32_create_def rv_new_def rv_set_pc_def Let_def)
qed

definition all_allocated :: create_host where
  "all_allocated = \<lparr>attr_calloc = True, mem_calloc = True, rv_calloc = True, block_pool = True, ir_pool = True, map_calloc = True\<rparr>"

theorem rv32_create_running_witness:
  "\<exists>s. rv32_create all_allocated count_tile 0x100 10 False 0 0 = Core s \<and> running count_prog 0 s \<and> csr_cycle (cpu (hart s)) = 0"
proof -
  let ?s = "\<lparr>ireg = (\<lambda>_. 0), ipc = 0x100, imem = tile_bytes 0 count_tile\<rparr>"
  have "core_state count_vm = ?s" by (simp add: core_state_def isa_of_def count_vm_facts zero_riscv_def)
  then have "runs_on count_prog 0 ?s" using counting_runs_on[OF count_vm_counting] by simp
  moreover have "tile_ok count_tile" by (simp add: tile_ok_def count_tile_def upd_mem_def demo_tile_def)
  ultimately show ?thesis
    using rv32_create_running[of count_tile count_prog 0 "0x100" all_allocated 10 0] count_prog_ok
    by (cases "rv32_create all_allocated count_tile 0x100 10 False 0 0") (simp_all add: all_allocated_def)
qed

section \<open>The coroutine\<close>

text \<open>The stall flag of the core is tested and cleared.\<close>

definition poll_stall :: "vm \<Rightarrow> bool \<times> vm" where
  "poll_stall s =
     (let c = hart s; rv = cpu c in
      if has_tensix rv then
        case mailbox_process (core (tcop (env rv))) (core_id rv) of
          (stalled, tt) \<Rightarrow> (stalled, s\<lparr>hart := upd_tile (\<lambda>t. t\<lparr>tcop := upd_core (\<lambda>_. tt) (tcop t)\<rparr>) c\<rparr>)
      else (False, s))"

text \<open>An iteration of the loop, with whether it has yielded; the callback is a parameter.  The two counters are of type \<^verbatim>\<open>int\<close>: incrementing
  the largest one is undefined.\<close>

definition INT_MAX :: int where
  "INT_MAX = 2 ^ 31 - 1"

datatype co_round = Went bool vm int | Broke step_end | Overflows

definition co_round ::
  "softfloat \<Rightarrow> unit_op \<Rightarrow> (tile riscv \<Rightarrow> tile riscv) \<Rightarrow> (nat \<Rightarrow> host) \<Rightarrow> (vm \<Rightarrow> vm) \<Rightarrow> int \<Rightarrow> vm \<Rightarrow> int \<Rightarrow> co_round option" where
  "co_round lib u syscall H yield_cb max_instructions s instructions_executed =
     (case rv_step lib u syscall H s of
        None \<Rightarrow> None
      | Some (Stepped s) \<Rightarrow>
          (case poll_stall s of (stalled, s) \<Rightarrow>
             let n = (if stalled then max_instructions else instructions_executed) in
             if n = INT_MAX then Some Overflows
             else let n = n + 1 in
               Some (if max_instructions \<le> n then Went True (yield_cb s) 0 else Went False s n))
      | Some e \<Rightarrow> Some (Broke e))"

text \<open>The first \<^verbatim>\<open>n\<close> iterations, or fewer if the core halts, and how often they have yielded.  The iteration with \<^verbatim>\<open>k\<close> more to
  come has the host \<^verbatim>\<open>H k\<close>.\<close>

datatype co_end = Halted vm | Going vm int | Broken step_end | Undefined

fun rv32_run_co ::
  "softfloat \<Rightarrow> unit_op \<Rightarrow> (tile riscv \<Rightarrow> tile riscv) \<Rightarrow> (nat \<Rightarrow> nat \<Rightarrow> host) \<Rightarrow> (vm \<Rightarrow> vm) \<Rightarrow> int \<Rightarrow> nat \<Rightarrow> vm \<Rightarrow> int \<Rightarrow> (nat \<times> co_end) option" where
  "rv32_run_co lib u syscall H yield_cb m n s i =
     (if halt (cpu (hart s)) then Some (0, Halted s)
      else case n of
        0 \<Rightarrow> Some (0, Going s i)
      | Suc k \<Rightarrow>
          (case co_round lib u syscall (H k) yield_cb m s i of
             None \<Rightarrow> None
           | Some (Broke e) \<Rightarrow> Some (0, Broken e)
           | Some Overflows \<Rightarrow> Some (0, Undefined)
           | Some (Went y s i) \<Rightarrow> map_option (map_prod ((+) (of_bool y)) id) (rv32_run_co lib u syscall H yield_cb m k s i)))"

declare rv32_run_co.simps [simp del]

section \<open>A program yields regularly\<close>

definition ready :: "program \<Rightarrow> int \<Rightarrow> nat \<Rightarrow> vm \<Rightarrow> bool" where
  "ready P cid N s \<longleftrightarrow> running P cid s \<and> keeps_branching P N (core_state s) \<and> \<not> halt (cpu (hart s))"

text \<open>What the callback may do while the core waits: the other cores run, but the program of this one, and
  what its counters say, are as before.\<close>

definition considerate :: "program \<Rightarrow> int \<Rightarrow> nat \<Rightarrow> (vm \<Rightarrow> vm) \<Rightarrow> bool" where
  "considerate P cid N yield_cb \<longleftrightarrow> (\<forall>s. ready P cid N s \<longrightarrow> ready P cid N (yield_cb s)
     \<and> csr_cycle (cpu (hart (yield_cb s))) = csr_cycle (cpu (hart s)) \<and> cycle_per_step (yield_cb s) = cycle_per_step s)"

lemma co_round_ready:
  assumes q: "\<And>rv. last_pc (syscall rv) = last_pc rv" and H: "\<And>n. no_failure (H n)" and y: "considerate P cid N yield_cb"
    and s: "ready P cid N s" and c: "unat (csr_cycle (cpu (hart s))) + unat (cycle_per_step s) + 256 * Suc N < 2 ^ 64" and i: "i < INT_MAX"
  obtains s' where "co_round lib u syscall H yield_cb m s i = Some (Went (m \<le> i + 1) s' (if m \<le> i + 1 then 0 else i + 1))"
    "ready P cid N s'" "cycle_per_step s' = cycle_per_step s"
    "unat (csr_cycle (cpu (hart s'))) \<le> unat (csr_cycle (cpu (hart s))) + unat (cycle_per_step s) + 256 * Suc N"
proof -
  have r: "running P cid s" "keeps_branching P N (core_state s)" "\<not> halt (cpu (hart s))" using s by (simp_all add: ready_def)
  from step_returns[where H = H, OF q H r(1,2) c] obtain t where
    t: "rv_step lib u syscall H s = Some (Stepped t)" "ready P cid N t" "cycle_per_step t = cycle_per_step s"
      "unat (csr_cycle (cpu (hart t))) \<le> unat (csr_cycle (cpu (hart s))) + unat (cycle_per_step s) + 256 * Suc N"
    using r(3) by (auto simp: ready_def)
  have "\<not> has_tensix (cpu (hart t))" using t(2) by (simp add: ready_def running_def)
  then have "co_round lib u syscall H yield_cb m s i
      = Some (Went (m \<le> i + 1) (if m \<le> i + 1 then yield_cb t else t) (if m \<le> i + 1 then 0 else i + 1))"
    using t(1) i by (simp add: co_round_def poll_stall_def Let_def)
  from that[OF this] t y show thesis by (simp add: considerate_def split: if_splits)
qed

lemma run_co_yields:
  assumes q: "\<And>rv. last_pc (syscall rv) = last_pc rv" and H: "\<And>k n. no_failure (H k n)" and y: "considerate P cid N yield_cb"
    and m: "m \<le> INT_MAX" and i: "0 \<le> i" "i < m" and s: "ready P cid N s"
    and c: "unat (csr_cycle (cpu (hart s))) + n * (unat (cycle_per_step s) + 256 * Suc N) < 2 ^ 64"
  shows "\<exists>s'. rv32_run_co lib u syscall H yield_cb m n s i = Some (nat ((i + int n) div m), Going s' ((i + int n) mod m)) \<and> ready P cid N s'"
  using i s c
proof (induction n arbitrary: s i)
  case 0
  then show ?case by (subst rv32_run_co.simps) (simp add: ready_def)
next
  case (Suc n)
  have c: "unat (csr_cycle (cpu (hart s))) + unat (cycle_per_step s) + 256 * Suc N < 2 ^ 64" and im: "i < INT_MAX"
    using Suc.prems(2,4) m by simp_all
  obtain s1 where s1: "co_round lib u syscall (H n) yield_cb m s i = Some (Went (m \<le> i + 1) s1 (if m \<le> i + 1 then 0 else i + 1))"
    "ready P cid N s1" "cycle_per_step s1 = cycle_per_step s"
    "unat (csr_cycle (cpu (hart s1))) \<le> unat (csr_cycle (cpu (hart s))) + unat (cycle_per_step s) + 256 * Suc N"
    by (rule co_round_ready[where H = "H n", OF q H y Suc.prems(3) c im])
  have c1: "unat (csr_cycle (cpu (hart s1))) + n * (unat (cycle_per_step s1) + 256 * Suc N) < 2 ^ 64"
    using Suc.prems(4) s1(3,4) by simp
  have run: "rv32_run_co lib u syscall H yield_cb m (Suc n) s i = map_option (map_prod ((+) (of_bool (m \<le> i + 1))) id)
      (rv32_run_co lib u syscall H yield_cb m n s1 (if m \<le> i + 1 then 0 else i + 1))"
    using Suc.prems(3) s1(1) by (subst rv32_run_co.simps) (simp add: ready_def)
  show ?case
  proof (cases "m \<le> i + 1")
    case True
    with Suc.prems(1,2) have e: "i + int (Suc n) = int n + m" by simp
    have "(int n + m) div m = int n div m + 1" "0 \<le> int n div m"
      using Suc.prems(1,2) div_add_self2[of m "int n"] by (auto simp: pos_imp_zdiv_nonneg_iff)
    then have "nat ((i + int (Suc n)) div m) = 1 + nat (int n div m)" "(i + int (Suc n)) mod m = int n mod m"
      unfolding e by simp_all
    with Suc.IH[of 0 s1] Suc.prems(1,2) s1(2) c1 True run show ?thesis by auto
  next
    case False
    with Suc.IH[of "i + 1" s1] Suc.prems(1) s1(2) c1 run show ?thesis by (auto simp: add.assoc)
  qed
qed

text \<open>C12: the coroutine of a core gives control away regularly.  While a core without coprocessor runs a program
  that keeps branching, and the other cores leave the program alone when they have control, every call
  of \<^verbatim>\<open>rv_step\<close> returns to \<^verbatim>\<open>rv32_run_co\<close>, which does not return but yields: out of any \<^verbatim>\<open>n\<close> iterations from the start exactly \<^verbatim>\<open>n div max_instructions\<close> yield.
  So what is counted, and compared with \<^verbatim>\<open>max_instructions\<close>, is calls of \<^verbatim>\<open>rv_step\<close>, and not instructions as the
  header file has it.  The 64-bit cycle counter is assumed not to wrap in these iterations.\<close>

theorem rv32_run_co_yields:
  assumes "\<And>rv. last_pc (syscall rv) = last_pc rv" "\<And>k n. no_failure (H k n)" "considerate P cid N yield_cb"
    and "0 < max_instructions" "max_instructions \<le> INT_MAX" "ready P cid N s"
    and "unat (csr_cycle (cpu (hart s))) + n * (unat (cycle_per_step s) + 256 * Suc N) < 2 ^ 64"
  shows "\<exists>s'. rv32_run_co lib u syscall H yield_cb max_instructions n s 0
    = Some (nat (int n div max_instructions), Going s' (int n mod max_instructions)) \<and> ready P cid N s'"
  using run_co_yields[where H = H and i = 0, OF assms(1-3,5) _ assms(4,6,7)] by simp

definition ring_bell :: "vm \<Rightarrow> vm" where
  "ring_bell s = s\<lparr>on_exit := \<not> on_exit s\<rparr>"

lemma considerate_ring_bell: "considerate P cid N ring_bell"
  by (simp add: considerate_def ready_def running_def ring_bell_def core_state_def)

theorem rv32_run_co_yields_witness:
  "\<exists>s'. rv32_run_co zero_softfloat idle_unit (\<lambda>rv. rv) (\<lambda>_ _. demo_host) ring_bell 30 100 count_vm 0 = Some (3, Going s' 10)
    \<and> ready count_prog 0 1 s'"
proof -
  have "ready count_prog 0 1 count_vm"
    using count_vm_running counting_branches[OF count_vm_counting] by (simp add: ready_def count_vm_facts zero_riscv_def)
  moreover have "unat (csr_cycle (cpu (hart count_vm))) + 100 * (unat (cycle_per_step count_vm) + 256 * Suc 1) < 2 ^ 64"
    by (simp add: count_vm_facts zero_riscv_def)
  ultimately show ?thesis
    using rv32_run_co_yields[of "\<lambda>rv. rv" "\<lambda>_ _. demo_host" count_prog 0 1 ring_bell 30 count_vm 100 zero_softfloat idle_unit]
    by (simp add: considerate_ring_bell INT_MAX_def)
qed

section \<open>Waiting for a mailbox\<close>

text \<open>A round without a change between firmware and kernel, given the block that is found or translated.\<close>

lemma step_round_block:
  assumes l: "linked (hart s)" and k: "\<not> enters_kernel (cpu (hart s))" "\<not> leaves_kernel (cpu (hart s))"
    and f: "\<And>c. settled c \<Longrightarrow> cpu c = (cpu (hart s))\<lparr>pre_pc := PC (cpu (hart s))\<rparr> \<Longrightarrow> bmap c = bmap (hart s)
      \<Longrightarrow> \<exists>b c'. block_find_or_translate (tile_io u syscall) H c = Some (Some b, c') \<and> irs b = nodes"
  obtains b s' where "step_round lib u syscall H s = run_round lib u syscall b s'" "irs b = nodes" "chained (bmap (hart s'))"
    "cpu (hart s') = (cpu (hart s))\<lparr>pre_pc := PC (cpu (hart s)), last_pc := PC (cpu (hart s))\<rparr>"
    "abs_map (bmap (hart s')) (PC (cpu (hart s))) = Some b"
proof -
  let ?rv = "cpu (hart s)"
  obtain c1 where c1: "update_prev (hart s) = Some c1" "settled c1" "cpu c1 = ?rv" "bmap c1 = bmap (hart s)"
    by (rule update_prev_settled[OF l])
  have k: "kernel_transition (s\<lparr>hart := c1\<rparr>) = Some (s\<lparr>hart := c1\<rparr>)"
    using k c1(3) by (simp add: kernel_transition_def tensix_transition_def ncrisc_transition_def Let_def)
  let ?c3 = "c1\<lparr>cpu := ?rv\<lparr>pre_pc := PC ?rv\<rparr>\<rparr>"
  have c3: "settled ?c3" by (rule settled_cpu[OF c1(2)]) (simp_all add: c1(3))
  obtain b c4 where f: "block_find_or_translate (tile_io u syscall) H ?c3 = Some (Some b, c4)" "irs b = nodes"
    using f[OF c3] c1(4) by auto
  from find_or_translate_settled[OF c3 f(1)] have c4: "settled c4" "cpu c4 = ?rv\<lparr>pre_pc := PC ?rv\<rparr>" "abs_map (bmap c4) (PC ?rv) = Some b"
    by simp_all
  have m4: "chained (bmap c4)" "\<not> prev_dangles c4" using c4(1) linked_not_dangling by (auto simp: settled_def linked_def)
  have t: "pc_start b = PC (cpu c4)" "mapped (bmap c4) (pc_start b)"
    using c4(2,3) chained_lookup[OF m4(1)] by (auto simp: mapped_def)
  from chain_prev_chained[OF c4(1) t] have ch: "chained (bmap (chain_prev (pc_start b) c4))" "cpu (chain_prev (pc_start b) c4) = cpu c4"
    "map_option irs (abs_map (bmap (chain_prev (pc_start b) c4)) (PC ?rv)) = map_option irs (abs_map (bmap c4) (PC ?rv))"
    by (auto dest: fun_cong)
  then obtain b' where b': "abs_map (bmap (chain_prev (pc_start b) c4)) (PC ?rv) = Some b'" "irs b' = nodes" using c4(3) f(2) by auto
  let ?c5 = "(chain_prev (pc_start b) c4)\<lparr>cpu := ?rv\<lparr>pre_pc := PC ?rv, last_pc := PC ?rv\<rparr>\<rparr>"
  let ?s = "(if i_pc (hd (irs b)) = exit_addr s then s\<lparr>on_exit := True\<rparr> else s)\<lparr>hart := ?c5\<rparr>"
  have "step_round lib u syscall H s = run_round lib u syscall b' ?s"
    using linked_not_dangling[OF l] c1(1) k f(1) m4(2) b' ch(2) t(1) c4(2)
    by (simp add: step_round_def Let_def c1(3) if_distrib[of "\<lambda>x. x\<lparr>hart := _\<rparr>"] if_distrib[of exit_addr] cong: if_cong)
  with that[of b' ?s] b' ch(1) show thesis by simp
qed

abbreviation cop_of :: "vm \<Rightarrow> tensix" where
  "cop_of s \<equiv> core (tcop (env (cpu (hart s))))"

text \<open>The node that \<^verbatim>\<open>block_translate\<close> makes of a word load it takes for a mailbox load.\<close>

definition mailbox_node :: "5 word \<Rightarrow> 5 word \<Rightarrow> 12 word \<Rightarrow> u32 \<Rightarrow> rv_insn" where
  "mailbox_node rd rs1 imm pc = (denote (Load rv_insn_lw rd rs1 imm))\<lparr>i_mailbox := True, i_pc := pc\<rparr>"

text \<open>The word at the program counter is a load from a mailbox of the core, and the mailbox is empty.  The load need not be translated yet; if
  it is, then as a mailbox load.\<close>

definition waiting :: "5 word \<Rightarrow> 5 word \<Rightarrow> 12 word \<Rightarrow> vm \<Rightarrow> bool" where
  "waiting rd rs1 imm s \<longleftrightarrow> (let rv = cpu (hart s); addr = X rv (ucast rs1) + scast imm in
     linked (hart s) \<and> has_tensix rv \<and> \<not> halt rv \<and> X rv 0 = 0 \<and> - 1 \<le> core_id rv \<and> core_id rv \<le> 2 \<and> \<not> enters_kernel rv \<and> \<not> leaves_kernel rv
     \<and> on_mem_ifetch rv (PC rv) = encode (Load rv_insn_lw rd rs1 imm)
     \<and> map_option irs (abs_map (bmap (hart s)) (PC rv)) \<in> {None, Some [mailbox_node rd rs1 imm (PC rv)]}
     \<and> in_mailbox_range addr \<and> addr AND 4 = 0
     \<and> mailboxes_wf (cop_of s) \<and> mbox (mailbox_target addr) (nat (mailbox_core_index (core_id rv))) (cop_of s) = [])"

lemma mailbox_node_facts [simp]: "i_mailbox (mailbox_node rd rs1 imm pc)" "i_opcode (mailbox_node rd rs1 imm pc) = Base rv_insn_lw"
  "i_rd (mailbox_node rd rs1 imm pc) = ucast rd" "i_rs1 (mailbox_node rd rs1 imm pc) = ucast rs1"
  "i_imm (mailbox_node rd rs1 imm pc) = scast imm" "i_pc (mailbox_node rd rs1 imm pc) = pc"
  by (simp_all add: mailbox_node_def zero_insn_def)

lemma mailbox_load_translated:
  assumes H: "no_failure H" and rv: "has_tensix rv" "mem_ifetch io rv (PC rv) = encode (Load rv_insn_lw rd rs1 imm)"
    and a: "in_mailbox_range (X rv (ucast rs1) + scast imm)"
  obtains b where "block_translate io H rv block_alloc = Some (Translated b)" "pc_start b = PC rv" "irs b = [mailbox_node rd rs1 imm (PC rv)]"
proof -
  let ?a = "Load rv_insn_lw rd rs1 imm"
  have ok: "asm_ok ?a" by (simp add: load_f3_def)
  have "translate_insn H rv (\<lambda>_. 0) (encode ?a) = Last ((denote ?a)\<lparr>i_mailbox := True\<rparr>) 4"
    using encode_nonzero[OF ok] decode_default[OF ok] rv(1) a
    by (simp add: translate_insn_def is_mailbox_lw_def in_mailbox_window_def in_mailbox_range_def mailbox_consts zero_insn_def)
  then have "block_translate io H rv block_alloc
      = Some (Translated (add_node ((denote ?a)\<lparr>i_mailbox := True\<rparr>) 4 (block_alloc\<lparr>pc_start := PC rv, pc_end := PC rv\<rparr>)))"
    using H rv(2) by (simp add: block_translate_def translate_loop.simps no_failure_def)
  then show thesis by (rule that) (simp_all add: add_node_def block_alloc_def mailbox_node_def)
qed

lemma mailbox_node_optimized: "match_pattern malloc (opt_nodes [mailbox_node rd rs1 imm pc] info) = [mailbox_node rd rs1 imm pc]"
  by (simp add: constopt_shapes split: if_splits prod.splits)

lemma mailbox_block_found:
  assumes H: "no_failure H" and w: "waiting rd rs1 imm s" and c: "settled c" "cpu c = (cpu (hart s))\<lparr>pre_pc := PC (cpu (hart s))\<rparr>" "bmap c = bmap (hart s)"
  shows "\<exists>b c'. block_find_or_translate (tile_io u syscall) H c = Some (Some b, c') \<and> irs b = [mailbox_node rd rs1 imm (PC (cpu (hart s)))]"
proof (cases "abs_map (bmap c) (PC (cpu c))")
  case None
  have m: "chained (bmap c)" using c(1) by (simp add: settled_def linked_def)
  have x: "X (cpu c) 0 = 0" "map_reachable (bmap c)" "block_find (bmap c) (PC (cpu c)) = Some None"
    using w c(2) m chained_find[OF m] None by (simp_all add: waiting_def Let_def chained_def)
  obtain b where b: "block_translate (tile_io u syscall) H (cpu c) block_alloc = Some (Translated b)" "pc_start b = PC (cpu c)"
    "irs b = [mailbox_node rd rs1 imm (PC (cpu c))]"
    by (rule mailbox_load_translated[OF H, of "cpu c" "tile_io u syscall" rd rs1 imm])
       (use w c(2) in \<open>simp_all add: waiting_def Let_def tile_io_def on_mem_ifetch_def\<close>)
  from find_or_translate_missing[OF H x b(1,2)] show ?thesis
    by (auto simp del: opt_nodes.simps simp: b(3) mailbox_node_optimized c(2))
next
  case (Some b)
  moreover have "chained (bmap c)" using c(1) by (simp add: settled_def linked_def)
  ultimately show ?thesis using w c(2,3) chained_find[of "bmap c"] by (auto simp: block_find_or_translate_def waiting_def Let_def)
qed

lemma mailbox_range_read: "in_mailbox_range a \<Longrightarrow> tensix_mmio_read tt cid a = mailbox_read tt cid a"
  by (auto simp: in_mailbox_range_def mailbox_consts tensix_mmio_read_def in_range_def)

lemma mailbox_read_empty:
  assumes "mailboxes_wf tt" "in_mailbox_range a" "a AND 4 = 0" "- 1 \<le> cid" "cid \<le> 2" "mbox (mailbox_target a) (nat (mailbox_core_index cid)) tt = []"
  shows "mailbox_read tt cid a = (Some 0, tt\<lparr>mailbox_stall := (mailbox_stall tt)(nat (mailbox_core_index cid) := True)\<rparr>)"
proof -
  have idx: "0 \<le> mailbox_core_index cid" "nat (mailbox_core_index cid) < 4" "mailbox_target a < 4"
    using assms mailbox_core_index_bounds[of cid] mailbox_target_less by auto
  then have "mbox_wf (mailbox_target a) (nat (mailbox_core_index cid)) tt" using assms(1) by (simp add: mailboxes_wf_def)
  from mb.pop_empty[OF this assms(6)] idx(1) assms(2,3) show ?thesis by (simp add: mailbox_read_def Let_def)
qed

lemma mailbox_load_stalls:
  assumes ir: "i_mailbox ir" "in_mailbox_range (x1 ir rv + i_imm ir)" "(x1 ir rv + i_imm ir) AND 4 = 0"
    and rv: "has_tensix rv" "- 1 \<le> core_id rv" "core_id rv \<le> 2" and tt: "tt = core (tcop (env rv))" "mailboxes_wf tt"
      "mbox (mailbox_target (x1 ir rv + i_imm ir)) (nat (mailbox_core_index (core_id rv))) tt = []"
  shows "exec_nodes (tile_ops lib u syscall) lk [ir] cycle pc rv = Return False
    (rv\<lparr>X := (X rv)(i_rd ir := 0, i_rs1 ir := x1 ir rv), csr_cycle := cycle + 1, PC := pc, env := (env rv)\<lparr>tcop :=
        upd_core (\<lambda>_. tt\<lparr>mailbox_stall := (mailbox_stall tt)(nat (mailbox_core_index (core_id rv)) := True)\<rparr>) (tcop (env rv))\<rparr>\<rparr>)"
proof -
  have "0 \<le> mailbox_core_index (core_id rv)" using rv(2,3) mailbox_core_index_bounds by simp
  then show ?thesis using ir(1) rv(1) mailbox_read_empty[OF tt(2) ir(2,3) rv(2,3) tt(3)] mailbox_range_read[OF ir(2)]
    by (simp add: impl_def do_lw_mailbox_def io_read_w_def tile_ops_def tile_io_def on_mem_read_w_def tile_stalled_def Let_def
        setX_def upd_core_def tt(1))
qed

lemma stall_frame [simp]: "mailboxes_wf (tt\<lparr>mailbox_stall := f\<rparr>) = mailboxes_wf tt" "mbox a b (tt\<lparr>mailbox_stall := f\<rparr>) = mbox a b tt"
  by (simp_all add: mailboxes_wf_def mbox_wf_def mbox_def)

text \<open>The call of \<^verbatim>\<open>rv_step\<close> at an empty mailbox: it executes the load, which stalls, and returns at once.\<close>

lemma rv_step_stalls:
  assumes H: "no_failure (H 0)" and w: "waiting rd rs1 imm s"
    and c: "csr_cycle (cpu (hart s)) < csr_cycle (cpu (hart s)) + ucast (cycle_per_step s)"
  obtains s' where "rv_step lib u syscall H s = Some (Stepped s')" "chained (bmap (hart s'))" "prev (hart s') = None"
    "map_option irs (abs_map (bmap (hart s')) (PC (cpu (hart s)))) = Some [mailbox_node rd rs1 imm (PC (cpu (hart s)))]"
    "cpu (hart s') = (cpu (hart s))\<lparr>pre_pc := PC (cpu (hart s)), last_pc := PC (cpu (hart s)),
       X := (X (cpu (hart s)))(ucast rd := 0, ucast rs1 := X (cpu (hart s)) (ucast rs1)), csr_cycle := csr_cycle (cpu (hart s)) + 1,
       env := (env (cpu (hart s)))\<lparr>tcop := upd_core (\<lambda>_. (cop_of s)\<lparr>mailbox_stall :=
         (mailbox_stall (cop_of s))(nat (mailbox_core_index (core_id (cpu (hart s)))) := True)\<rparr>) (tcop (env (cpu (hart s))))\<rparr>\<rparr>"
proof -
  let ?rv = "cpu (hart s)"
  let ?ir = "mailbox_node rd rs1 imm (PC ?rv)"
  have l: "linked (hart s)" "\<not> halt ?rv" "\<not> enters_kernel ?rv" "\<not> leaves_kernel ?rv" using w by (simp_all add: waiting_def Let_def)
  obtain b s1 where s1: "step_round lib u syscall (H 0) s = run_round lib u syscall b s1" "irs b = [?ir]" "chained (bmap (hart s1))"
    "cpu (hart s1) = ?rv\<lparr>pre_pc := PC ?rv, last_pc := PC ?rv\<rparr>" "abs_map (bmap (hart s1)) (PC ?rv) = Some b"
    by (rule step_round_block[OF l(1,3,4) mailbox_block_found[OF H w]])
  let ?rv1 = "?rv\<lparr>pre_pc := PC ?rv, last_pc := PC ?rv\<rparr>"
  have "exec_nodes (tile_ops lib u syscall) (tail_links b) [?ir] (csr_cycle ?rv1) (PC ?rv1) ?rv1 = Return False
    (?rv1\<lparr>X := (X ?rv1)(i_rd ?ir := 0, i_rs1 ?ir := x1 ?ir ?rv1), csr_cycle := csr_cycle ?rv1 + 1, PC := PC ?rv1, env := (env ?rv1)\<lparr>tcop :=
        upd_core (\<lambda>_. (cop_of s)\<lparr>mailbox_stall := (mailbox_stall (cop_of s))(nat (mailbox_core_index (core_id ?rv1)) := True)\<rparr>) (tcop (env ?rv1))\<rparr>\<rparr>)"
    (is "_ = Return False ?rv2") using w by (intro mailbox_load_stalls) (simp_all add: waiting_def Let_def x1_def)
  then have "exec_block (tile_ops lib u syscall) (bmap (hart s1)) b (csr_cycle ?rv1) (PC ?rv1) ?rv1 = Some (Ran False (bmap (hart s1)) ?rv2)"
    using s1(2) by (subst exec_block.simps) simp
  then have "step_round lib u syscall (H 0) s = Some (Leave (s1\<lparr>hart := (hart s1)\<lparr>cpu := ?rv2, prev := None\<rparr>\<rparr>))"
    using s1(1,4) by (simp add: run_round_def Let_def)
  then have "rv_step lib u syscall H s = Some (Stepped (s1\<lparr>hart := (hart s1)\<lparr>cpu := ?rv2, prev := None\<rparr>\<rparr>))"
    using c l(2) by (simp add: rv_step_def step_loop.simps[of _ _ _ _ _ 0 s])
  from that[OF this] s1 show thesis by (simp add: x1_def)
qed

text \<open>The flag and the caches aside, the core is as before.\<close>

lemma rv_step_poll_stalls:
  assumes H: "no_failure (H 0)" and w: "waiting rd rs1 imm s"
    and c: "csr_cycle (cpu (hart s)) < csr_cycle (cpu (hart s)) + ucast (cycle_per_step s)"
  obtains t s' where "rv_step lib u syscall H s = Some (Stepped t)" "poll_stall t = (True, s')" "waiting rd rs1 imm s'"
    "cop_of s' = (cop_of s)\<lparr>mailbox_stall := (mailbox_stall (cop_of s))(nat (mailbox_core_index (core_id (cpu (hart s)))) := False)\<rparr>"
    "PC (cpu (hart s')) = PC (cpu (hart s))" "csr_cycle (cpu (hart s')) = csr_cycle (cpu (hart s)) + 1"
    "X (cpu (hart s')) = (X (cpu (hart s)))(ucast rd := 0, ucast rs1 := X (cpu (hart s)) (ucast rs1))"
proof -
  let ?rv = "cpu (hart s)"
  obtain t where t: "rv_step lib u syscall H s = Some (Stepped t)" "chained (bmap (hart t))" "prev (hart t) = None"
    "map_option irs (abs_map (bmap (hart t)) (PC ?rv)) = Some [mailbox_node rd rs1 imm (PC ?rv)]"
    "cpu (hart t) = ?rv\<lparr>pre_pc := PC ?rv, last_pc := PC ?rv, X := (X ?rv)(ucast rd := 0, ucast rs1 := X ?rv (ucast rs1)), csr_cycle := csr_cycle ?rv + 1,
       env := (env ?rv)\<lparr>tcop := upd_core (\<lambda>_. (cop_of s)\<lparr>mailbox_stall :=
         (mailbox_stall (cop_of s))(nat (mailbox_core_index (core_id ?rv)) := True)\<rparr>) (tcop (env ?rv))\<rparr>\<rparr>"
    by (rule rv_step_stalls[where H = H, OF assms])
  have h: "has_tensix ?rv" "0 \<le> mailbox_core_index (core_id ?rv)" using w mailbox_core_index_bounds by (simp_all add: waiting_def Let_def)
  obtain t' e where t': "poll_stall t = (True, t')" "bmap (hart t') = bmap (hart t)" "prev (hart t') = None"
    and cpu: "cpu (hart t') = ?rv\<lparr>pre_pc := PC ?rv, last_pc := PC ?rv, X := (X ?rv)(ucast rd := 0, ucast rs1 := X ?rv (ucast rs1)),
      csr_cycle := csr_cycle ?rv + 1, env := e\<rparr>"
    and e: "core (tcop e) = (cop_of s)\<lparr>mailbox_stall := (mailbox_stall (cop_of s))(nat (mailbox_core_index (core_id ?rv)) := False)\<rparr>"
      "mem_size e = mem_size (env ?rv)"
    using h by (simp add: poll_stall_def t(3,5) mailbox_process_def upd_tile_def upd_core_def Let_def)
  have "ram e = ram (env ?rv)" by (simp add: fun_eq_iff ram_def e split: option.split)
  then have "waiting rd rs1 imm t'"
    using w t(2,4) t'(2,3) unfolding waiting_def Let_def
    by (auto simp: cpu e linked_def enters_kernel_def leaves_kernel_def on_mem_ifetch_def memory_ifetch_def)
  with that[OF t(1) t'(1)] show thesis by (simp add: cpu e)
qed

text \<open>C13: a core that waits for a mailbox lets the others run.  When a core with a coprocessor stands at a word load from an
  empty mailbox, translated as a mailbox load or not translated yet, the next iteration of \<^verbatim>\<open>rv32_run_co\<close> translates the load if need be and executes it, which
  stalls, and yields for every \<^verbatim>\<open>max_instructions\<close> below \<^verbatim>\<open>INT_MAX\<close>; for \<^verbatim>\<open>INT_MAX\<close> itself the increment that should
  make it yield is a signed overflow.  When it yields, the stall flag is down again and no FIFO has changed; the program counter and all registers but the destination of the load
  are as before (the base register even if it is the destination), one cycle has passed, and the core is still in a state of waiting, so that it tries the
  same load again.  The allocations of the translation are assumed to succeed, and the target of the cycle counter not to wrap.\<close>

theorem mailbox_wait_yields:
  assumes "no_failure (H 0)" "waiting rd rs1 imm s" "csr_cycle (cpu (hart s)) < csr_cycle (cpu (hart s)) + ucast (cycle_per_step s)"
  shows "if max_instructions = INT_MAX then co_round lib u syscall H yield_cb max_instructions s i = Some Overflows
    else \<exists>s'. co_round lib u syscall H yield_cb max_instructions s i = Some (Went True (yield_cb s') 0) \<and> waiting rd rs1 imm s'
    \<and> cop_of s' = (cop_of s)\<lparr>mailbox_stall := (mailbox_stall (cop_of s))(nat (mailbox_core_index (core_id (cpu (hart s)))) := False)\<rparr>
    \<and> PC (cpu (hart s')) = PC (cpu (hart s)) \<and> csr_cycle (cpu (hart s')) = csr_cycle (cpu (hart s)) + 1
    \<and> X (cpu (hart s')) = (X (cpu (hart s)))(ucast rd := 0, ucast rs1 := X (cpu (hart s)) (ucast rs1))"
proof -
  obtain t s' where t: "rv_step lib u syscall H s = Some (Stepped t)" "poll_stall t = (True, s')" "waiting rd rs1 imm s'"
    "cop_of s' = (cop_of s)\<lparr>mailbox_stall := (mailbox_stall (cop_of s))(nat (mailbox_core_index (core_id (cpu (hart s)))) := False)\<rparr>"
    "PC (cpu (hart s')) = PC (cpu (hart s))" "csr_cycle (cpu (hart s')) = csr_cycle (cpu (hart s)) + 1"
    "X (cpu (hart s')) = (X (cpu (hart s)))(ucast rd := 0, ucast rs1 := X (cpu (hart s)) (ucast rs1))"
    by (rule rv_step_poll_stalls[where H = H, OF assms])
  from t(1,2) have "co_round lib u syscall H yield_cb max_instructions s i
      = Some (if max_instructions = INT_MAX then Overflows else Went True (yield_cb s') 0)" by (simp add: co_round_def Let_def)
  with t(3-7) show ?thesis by auto
qed

text \<open>A T0 core at a load from its mailbox, \<^verbatim>\<open>lw a0, 0(a1)\<close>, with an empty block map.\<close>

definition mailbox_vm :: vm where
  "mailbox_vm = code_vm\<lparr>hart := \<lparr>cpu = (zero_riscv (demo_tile\<lparr>tcop := upd_core (\<lambda>_. mailbox_demo\<lparr>mem := (mem mailbox_demo)
       \<lparr>l1_scratchpad := st32 (\<lambda>_. 0) 0x100 0x0005A503\<rparr>\<rparr>) (tcop demo_tile)\<rparr>))
     \<lparr>PC := 0x100, pre_pc := 0x100, has_tensix := True, X := (\<lambda>_. 0)(11 := 0xFFEC2000)\<rparr>,
     bmap = block_map_init BLOCK_MAP_CAPACITY_BITS, prev = None\<rparr>\<rparr>"

lemma mem_frame [simp]: "mailboxes_wf (tt\<lparr>mem := f\<rparr>) = mailboxes_wf tt" "mbox a b (tt\<lparr>mem := f\<rparr>) = mbox a b tt"
  by (simp_all add: mailboxes_wf_def mbox_wf_def mbox_def)

lemma mailbox_vm_fetch: "on_mem_ifetch (cpu (hart mailbox_vm)) 0x100 = encode (Load rv_insn_lw 10 11 0)"
proof -
  have "encode (Load rv_insn_lw 10 11 0) = 0x0005A503" by code_simp
  moreover have "ram (env (cpu (hart mailbox_vm))) a = st32 (\<lambda>_. 0) 0x100 0x0005A503 a" if "a < 0x200000" for a
    using that by (simp add: ram_def mailbox_vm_def zero_riscv_def upd_core_def demo_tile_def)
  ultimately show ?thesis by (simp add: on_mem_ifetch_def memory_ifetch_def ld32_def st32_def)
qed

theorem mailbox_wait_yields_witness:
  "\<exists>s'. co_round zero_softfloat idle_unit (\<lambda>rv. rv) (\<lambda>_. demo_host) ring_bell 1000 mailbox_vm 0 = Some (Went True (ring_bell s') 0)
    \<and> waiting 10 11 0 s' \<and> PC (cpu (hart s')) = 0x100 \<and> csr_cycle (cpu (hart s')) = 1 \<and> X (cpu (hart s')) 11 = 0xFFEC2000"
proof -
  have "waiting 10 11 0 mailbox_vm"
    using mailbox_demo_facts mailbox_vm_fetch chained_init map_init_ok
    by (simp add: waiting_def mailbox_vm_def Let_def linked_def zero_riscv_def upd_core_def
        enters_kernel_def leaves_kernel_def TENSIX_KERNEL_ADDR_THRESHOLD_def in_mailbox_range_def mailbox_consts)
  moreover have "csr_cycle (cpu (hart mailbox_vm)) < csr_cycle (cpu (hart mailbox_vm)) + ucast (cycle_per_step mailbox_vm)"
    by (simp add: mailbox_vm_def zero_riscv_def code_vm_def)
  moreover have "PC (cpu (hart mailbox_vm)) = 0x100" "csr_cycle (cpu (hart mailbox_vm)) = 0" "X (cpu (hart mailbox_vm)) 11 = 0xFFEC2000"
    by (simp_all add: mailbox_vm_def zero_riscv_def)
  ultimately show ?thesis
    using mailbox_wait_yields[of "\<lambda>_. demo_host" 10 11 0 mailbox_vm 1000 zero_softfloat idle_unit "\<lambda>rv. rv" ring_bell 0]
    by (auto simp: INT_MAX_def)
qed

end
