(* ===== verification/Spec2Isabelle.thy ===== *)
theory Spec2Isabelle
  imports Decode_Safety Rv_Sim
begin

text \<open>
  A verification library for a simulator of Tensix tiles: \<^verbatim>\<open>src/rv32emu\<close> (the RISC-V cores of a tile, a fork of
  rv32emu), \<^verbatim>\<open>src/tt_cop\<close> (the Tensix coprocessor they share) and \<^verbatim>\<open>src/rv32sim.c\<close> (the interface to the host).

  \<^bold>\<open>The program.\<close>  A host creates the five cores of a tile with \<^verbatim>\<open>rv32_create\<close> and runs each as a coroutine with
  \<^verbatim>\<open>rv32_run_co\<close>, which calls \<^verbatim>\<open>rv_step\<close> and yields.  \<^verbatim>\<open>rv_step\<close> looks the program counter up in a map of translated blocks;
  a missing block is fetched, decoded, constant-folded and fused.  Blocks are linked to each other, so that running
  one may run a chain of them.  Loads and stores go to the buffer of the tile, to the local memory of the core, or to memory-mapped
  registers of the coprocessor: instruction buffers, semaphores, mailboxes.  The coprocessor has three threads.  Each has a FIFO of
  instructions, an expander for macro operations (MOP) and a Wait Gate that holds instructions back; instructions are also issued
  directly, as words of the program that are not RISC-V instructions.

  \<^bold>\<open>The model\<close> is that of the default build (\<^verbatim>\<open>feature.h\<close>: M, A, F, C, Zicsr, Zifencei, Zba, Zbb, Zbc, Zbs, Tensix, MOP fusion
  and block chaining on; RV32E, system emulation, JIT, GDB stub and ELF loader off); the decoder is modelled for every
  setting of the extensions.  Integers are words of the width C gives them, structures are records, a pointer that may be \<^verbatim>\<open>NULL\<close> is an
  option, a failed assertion or an operation C leaves undefined (a shift by 32 in the rotations by 0, the overflow of an \<^verbatim>\<open>int\<close> counter) is \<^const>\<open>None\<close>, \<^verbatim>\<open>Abort\<close> or an outcome of its own, and a function that writes through pointers
  returns the new state.  Names are those of the source.

  \<^item> \<^verbatim>\<open>Prelude\<close>, \<^verbatim>\<open>Bytes\<close>: integer types, C operators, byte memory with little-endian loads and stores.
  \<^item> \<^verbatim>\<open>Bounded_Fifo\<close>, \<^verbatim>\<open>Cells\<close>: interfaces several components provide, as locales - a bounded queue (interpreted by the instruction FIFO and
    the mailboxes) and a bank of registers (control and status registers, integer registers).
  \<^item> \<^verbatim>\<open>Tensix_State\<close> (\<^verbatim>\<open>tensix.h\<close>), \<^verbatim>\<open>Tensix_Fifo\<close>, \<^verbatim>\<open>Wait_Gate\<close>, \<^verbatim>\<open>Mop_Expander\<close>, \<^verbatim>\<open>Tensix_Cop\<close>, \<^verbatim>\<open>Mop_Execution\<close> (\<^verbatim>\<open>tensix_cop.c\<close>), \<^verbatim>\<open>Mailbox\<close>
    (\<^verbatim>\<open>mailbox.c\<close>), \<^verbatim>\<open>Tensix_Sync\<close> (the synchronisation and configuration instructions of \<^verbatim>\<open>tt_insn.c\<close> and \<^verbatim>\<open>tensix_execute_insn\<close>), \<^verbatim>\<open>Tensix_Mmio\<close>
    (\<^verbatim>\<open>tensix_impl.c\<close>).  The arithmetic units of \<^verbatim>\<open>tt_insn.c\<close> are a parameter of type \<^verbatim>\<open>unit_op\<close>, a function from the instruction and the state
    to the new state.
  \<^item> \<^verbatim>\<open>Rv_Insn\<close> (\<^verbatim>\<open>decode.h\<close>, \<^verbatim>\<open>feature.h\<close>), \<^verbatim>\<open>Decode\<close> (\<^verbatim>\<open>decode.c\<close>), \<^verbatim>\<open>Decode_Encode\<close>, \<^verbatim>\<open>Decode_Safety\<close>: the decoder, its inverse on the encodings of the
    manual, and what holds of every word it accepts.
  \<^item> \<^verbatim>\<open>Rv_Machine\<close>, \<^verbatim>\<open>Rv_Csr\<close> (\<^verbatim>\<open>riscv_private.h\<close>, \<^verbatim>\<open>emulate.c\<close>, \<^verbatim>\<open>riscv.c\<close>): the state of a core, traps, control and status registers.
  \<^item> \<^verbatim>\<open>Rv_Exec\<close>, \<^verbatim>\<open>Rv_Exec_MA\<close>, \<^verbatim>\<open>Rv_Exec_Zb\<close>, \<^verbatim>\<open>Rv_Exec_F\<close> with \<^verbatim>\<open>Softfp\<close>, \<^verbatim>\<open>Rv_Exec_C\<close> (\<^verbatim>\<open>rv32_template.c\<close>): one definition \<^verbatim>\<open>do_<inst>\<close> per \<^verbatim>\<open>RVOP\<close>, on a machine with
    an arbitrary environment.  \<^verbatim>\<open>Rv_Dispatch\<close> (\<^verbatim>\<open>emulate.c\<close>): the dispatch table, the fused instructions and the run of a block's nodes.
  \<^item> \<^verbatim>\<open>Constopt\<close>, \<^verbatim>\<open>Constopt_Sound\<close> (\<^verbatim>\<open>rv32_constopt.c\<close>), \<^verbatim>\<open>Fusion\<close> (\<^verbatim>\<open>match_pattern\<close>): the two passes over a block, each with the proof that
    it preserves the execution of the block.
  \<^item> \<^verbatim>\<open>Block_Map\<close>: blocks and the hash table of blocks; the locale \<^verbatim>\<open>code_map\<close> is its contract.  \<^verbatim>\<open>Translate\<close>: \<^verbatim>\<open>block_translate\<close> and
    \<^verbatim>\<open>block_find_or_translate\<close>, with the outcome of every allocation in the record \<^verbatim>\<open>host\<close>.
  \<^item> \<^verbatim>\<open>Rv_Tile\<close> (\<^verbatim>\<open>io.c\<close>, the callbacks of \<^verbatim>\<open>riscv.c\<close>): the memory of a tile.  \<^verbatim>\<open>Rv_Isa\<close>: a reference semantics of RV32IM, and the locale
    \<^verbatim>\<open>core_memory\<close>, the contract between instruction functions and memory, which the tile interprets.
  \<^item> \<^verbatim>\<open>Rv_Chain\<close>, \<^verbatim>\<open>Rv_Step\<close>: chained execution and \<^verbatim>\<open>rv_step\<close>.  A pointer to a block is the start address of the block; following one
    that is not in the map is the outcome \<^verbatim>\<open>Dangling\<close>, not an assumption.
  \<^item> \<^verbatim>\<open>Rv_Block\<close>, \<^verbatim>\<open>Rv_Program\<close>: a block and a program against the reference semantics.  \<^verbatim>\<open>Rv_Sim\<close> (\<^verbatim>\<open>rv32sim.c\<close>): creation of a core with \<^verbatim>\<open>rv32_create\<close> and
    \<^verbatim>\<open>rv_new\<close>, every allocation of which may fail (\<^verbatim>\<open>create_host\<close>), and its coroutine; the callback of the host is a parameter.

  \<^bold>\<open>What is shown.\<close>  The chain of refinements for the cores: the decoder inverts the encodings; a decoded block executes as the
  reference says (\<^verbatim>\<open>Rv_Tile\<close>); folding and fusion preserve that; so does the pipeline that fetches, translates and caches (\<^verbatim>\<open>Rv_Block\<close>); and so does
  \<^verbatim>\<open>rv_step\<close> with linked blocks on a whole program (\<^verbatim>\<open>Rv_Program\<close>), started by \<^verbatim>\<open>rv32_create\<close> (\<^verbatim>\<open>Rv_Sim\<close>).  On programs that keep reaching conditional branches it returns, and the
  coroutine yields on schedule; it does not return from a loop of linked direct jumps.  A core that waits for a mailbox yields and retries.  Whatever is executed, no
  stale block pointer is followed, and lookups in the block map end.  For the coprocessor: FIFOs and mailboxes refine bounded queues; a
  step takes instructions in order; the Wait Gate holds; MOPs without replay issue exactly their expansion, or the part of it up to an instruction that is held back; the invariant of the coprocessor is kept; semaphores stay
  within bounds; register and memory-mapped accesses round-trip.  Arithmetic, bit manipulation, traps and control registers are
  proved against the manual.  Each theorem that states a defect of the code (a load to \<^verbatim>\<open>x0\<close>, the mutex that does not block, dropped mailbox
  stores, rotations by 0, unchecked allocations) says so in its text.

  \<^bold>\<open>Bounds.\<close>  Loops with a bound in the source are structural recursion.  Loops without one (probing the block map, translation, chains of
  blocks, \<^verbatim>\<open>rv_step\<close>) are partial functions whose value \<^const>\<open>None\<close> means that they do not return, and their return is a
  theorem of its own.  \<^verbatim>\<open>rv32_run_co\<close>, which does not end while the core runs, has the number of iterations as an
  argument; its theorem holds for every number until the 64-bit cycle counter wraps.  Programs are restricted to blocks of at most
  256 instructions because fusion is wrong on longer runs (\<^verbatim>\<open>Fusion\<close>), and to plain memory because device registers change
  without the program.

  \<^bold>\<open>Not modelled.\<close>  The arithmetic units of the coprocessor (matrix unit, SFPU, packers, unpackers, address control) and the rounding operations of
  SoftFloat are parameters: their results are numerical, and the control logic above does not depend on them.  The JIT compilers (\<^verbatim>\<open>jit.c\<close>,
  \<^verbatim>\<open>t2c.c\<close>) and system emulation are not in the default build; they generate host code or model devices of a
  full machine.  System calls, SDL, the GDB stub, logging and ELF loading are host input and output.  Memory pools (\<^verbatim>\<open>mpool.c\<close>) appear as the
  success or failure of each allocation.  \<^verbatim>\<open>rv_step_debug\<close> passes a pointer of the wrong type to its callback, so what it does is undefined.  The simulator
  creates cores with \<^verbatim>\<open>rv_new\<close>; \<^verbatim>\<open>rv_create\<close>, \<^verbatim>\<open>rv_reset\<close> and \<^verbatim>\<open>rv_run\<close> belong to the stand-alone emulator.  Cores of a tile interleave only at yields; their joint execution appears as the callback of \<^verbatim>\<open>rv32_run_co\<close>.
\<close>

end
